(* ===== verification/GoBase.thy ===== *)
theory GoBase
  imports Main "HOL-Library.AList" "HOL-Library.Char_ord" "HOL-Library.List_Lexorder"
    "HOL-Library.Sublist" "HOL-Library.Multiset" "HOL-Library.Word"
begin

text \<open>
  The prelude of the development: the parts of the Go language and of its standard library that
  the modelled packages use, and the lemmas about them that the component theories share.

  \<^item> A Go string is a byte sequence: HOL's \<open>string\<close>, a list of 8-bit characters. Case mapping and
    white space are modelled for the ASCII range; other bytes are left alone.
  \<^item> A Go map with string keys is an association list with distinct keys. The position of a pair
    in the list stands for the unspecified iteration order of the map; results that must not depend
    on that order are proved invariant under permutation of the list.
  \<^item> A call that returns \<open>(value, error)\<close> returns \<open>err + 'a\<close>, \<open>Inl\<close> for the error. An error keeps
    its format string and its arguments; it is not rendered.
\<close>

named_theorems go_simps \<open>defining equations of the string and map primitives\<close>

section \<open>Errors and results\<close>

text \<open>
  \<open>Rich line column format args\<close> is \<open>parsererror.NewRich\<close>, \<open>Basic\<close> and \<open>Internal\<close> wrap
  \<open>parsererror.ErrBasic\<close> and \<open>parsererror.ErrInternal\<close>, \<open>Plain\<close> is any other error value and
  \<open>Panic\<close> stands for a run-time panic.
\<close>

datatype err =
    Rich int int string "string list"
  | Basic string "string list"
  | Internal string "string list"
  | Plain string "string list"
  | Panic string

type_synonym 'a res = "err + 'a"

text \<open>The format and the arguments of an error that is wrapped by another one.\<close>

fun errText :: "err \<Rightarrow> string list" where
  "errText (Rich l c f args) = f # args"
| "errText (Basic f args) = f # args"
| "errText (Internal f args) = f # args"
| "errText (Plain f args) = f # args"
| "errText (Panic s) = [s]"

fun is_ok :: "'e + 'a \<Rightarrow> bool" where
  "is_ok (Inl _) = False"
| "is_ok (Inr _) = True"

lemma is_ok_iff: "is_ok r \<longleftrightarrow> (\<exists>x. r = Inr x)"
  by (cases r) auto

text \<open>A loop that appends one result per item and returns at the first error.\<close>

fun mapE :: "('a \<Rightarrow> 'e + 'b) \<Rightarrow> 'a list \<Rightarrow> 'e + 'b list" where
  "mapE f [] = Inr []"
| "mapE f (x # xs) =
     (case f x of Inl e \<Rightarrow> Inl e
      | Inr y \<Rightarrow> (case mapE f xs of Inl e \<Rightarrow> Inl e | Inr ys \<Rightarrow> Inr (y # ys)))"

lemma mapE_cong [fundef_cong]:
  "xs = ys \<Longrightarrow> (\<And>x. x \<in> set ys \<Longrightarrow> f x = g x) \<Longrightarrow> mapE f xs = mapE g ys"
  by (induction ys arbitrary: xs) (auto split: sum.splits)

lemma mapE_Inr_iff: "mapE f xs = Inr ys \<longleftrightarrow> list_all2 (\<lambda>x y. f x = Inr y) xs ys"
proof (induction xs arbitrary: ys)
  case (Cons x xs)
  show ?case
  proof
    assume "mapE f (x # xs) = Inr ys"
    then show "list_all2 (\<lambda>x y. f x = Inr y) (x # xs) ys"
      using Cons by (auto split: sum.splits)
  next
    assume "list_all2 (\<lambda>x y. f x = Inr y) (x # xs) ys"
    then obtain z zs where "ys = z # zs" "f x = Inr z" "mapE f xs = Inr zs"
      using Cons by (auto simp: list_all2_Cons1)
    then show "mapE f (x # xs) = Inr ys" by simp
  qed
qed auto

lemma mapE_Inl: "mapE f xs = Inl e \<Longrightarrow> \<exists>x \<in> set xs. f x = Inl e"
  by (induction xs) (auto split: sum.splits)

lemma mapE_total: "(\<And>x. x \<in> set xs \<Longrightarrow> f x = Inr (g x)) \<Longrightarrow> mapE f xs = Inr (map g xs)"
  by (induction xs) auto

text \<open>A loop that threads a state through its items and returns at the first error.\<close>

fun foldE :: "('a \<Rightarrow> 's \<Rightarrow> 'e + 's) \<Rightarrow> 'a list \<Rightarrow> 's \<Rightarrow> 'e + 's" where
  "foldE f [] s = Inr s"
| "foldE f (x # xs) s = (case f x s of Inl e \<Rightarrow> Inl e | Inr s' \<Rightarrow> foldE f xs s')"

lemma foldE_cong [fundef_cong]:
  "xs = ys \<Longrightarrow> s = t \<Longrightarrow> (\<And>x u. x \<in> set ys \<Longrightarrow> f x u = g x u) \<Longrightarrow> foldE f xs s = foldE g ys t"
  by (induction ys arbitrary: xs s t) (auto split: sum.splits)

lemma foldE_append:
  "foldE f (xs @ ys) s = (case foldE f xs s of Inl e \<Rightarrow> Inl e | Inr s' \<Rightarrow> foldE f ys s')"
  by (induction xs arbitrary: s) (auto split: sum.splits)

lemma foldE_invariant:
  assumes "foldE f xs s = Inr t" and "P s"
    and "\<And>x u v. x \<in> set xs \<Longrightarrow> P u \<Longrightarrow> f x u = Inr v \<Longrightarrow> P v"
  shows "P t"
  using assms
proof (induction xs arbitrary: s)
  case (Cons x xs)
  then obtain u where u: "f x s = Inr u" "foldE f xs u = Inr t"
    by (auto split: sum.splits)
  have "P u" using Cons.prems(2) u(1) Cons.prems(3) [of x s u] by simp
  then show ?case
    by (rule Cons.IH [OF u(2)]) (rule Cons.prems(3), simp_all)
qed simp

section \<open>Maps\<close>

type_synonym 'v gomap = "(string \<times> 'v) list"
type_synonym env = "string gomap"

text \<open>\<open>m[k]\<close> on a map of strings: the zero value for a missing key.\<close>

definition mget :: "env \<Rightarrow> string \<Rightarrow> string" where
  "mget m k = (case map_of m k of None \<Rightarrow> [] | Some v \<Rightarrow> v)"

definition mhas :: "'v gomap \<Rightarrow> string \<Rightarrow> bool" where
  "mhas m k = (case map_of m k of None \<Rightarrow> False | Some _ \<Rightarrow> True)"

text \<open>\<open>m[k] = v\<close>, and a loop that stores every pair of another map.\<close>

abbreviation mset_key :: "'k \<Rightarrow> 'v \<Rightarrow> ('k \<times> 'v) list \<Rightarrow> ('k \<times> 'v) list" where
  "mset_key \<equiv> AList.update"

fun mset_all :: "('k \<times> 'v) list \<Rightarrow> ('k \<times> 'v) list \<Rightarrow> ('k \<times> 'v) list" where
  "mset_all m [] = m"
| "mset_all m ((k, v) # kvs) = mset_all (mset_key k v m) kvs"

definition wf_map :: "('k \<times> 'v) list \<Rightarrow> bool" where
  "wf_map m \<longleftrightarrow> distinct (map fst m)"

lemma mhas_iff: "mhas m k \<longleftrightarrow> k \<in> fst ` set m"
  using map_of_eq_None_iff [of m k] by (cases "map_of m k") (auto simp: mhas_def)

lemma wf_map_Nil [simp]: "wf_map []"
  by (simp add: wf_map_def)

lemma wf_map_update [simp, intro]: "wf_map m \<Longrightarrow> wf_map (mset_key k v m)"
  by (simp add: wf_map_def distinct_update)

lemma wf_map_set_all [simp, intro]: "wf_map m \<Longrightarrow> wf_map (mset_all m n)"
  by (induction m n rule: mset_all.induct) auto

lemma map_of_mset_all:
  "wf_map n \<Longrightarrow> map_of (mset_all m n) = map_of m ++ map_of n"
proof (induction m n rule: mset_all.induct)
  case (2 m k v kvs)
  then have nin: "k \<notin> dom (map_of kvs)" and wf: "wf_map kvs"
    by (auto simp: wf_map_def dom_map_of_conv_image_fst)
  show ?case
    using 2 wf nin by (auto simp: update_conv' fun_eq_iff map_add_def split: option.splits)
qed simp

section \<open>Package strings\<close>

definition HasPrefix :: "string \<Rightarrow> string \<Rightarrow> bool" where
  "HasPrefix s p = (take (length p) s = p)"

definition HasSuffix :: "string \<Rightarrow> string \<Rightarrow> bool" where
  "HasSuffix s p = (length p \<le> length s \<and> drop (length s - length p) s = p)"

definition TrimPrefix :: "string \<Rightarrow> string \<Rightarrow> string" where
  "TrimPrefix s p = (if HasPrefix s p then drop (length p) s else s)"

definition TrimSuffix :: "string \<Rightarrow> string \<Rightarrow> string" where
  "TrimSuffix s p = (if HasSuffix s p then take (length s - length p) s else s)"

fun Contains :: "string \<Rightarrow> string \<Rightarrow> bool" where
  "Contains [] sub = (sub = [])"
| "Contains (c # s) sub = (HasPrefix (c # s) sub \<or> Contains s sub)"

text \<open>\<open>strings.Split\<close> with a one-character separator, and \<open>strings.SplitN(s, sep, 2)\<close>.\<close>

fun SplitC :: "char \<Rightarrow> string \<Rightarrow> string list" where
  "SplitC sep [] = [[]]"
| "SplitC sep (c # s) =
     (if c = sep then [] # SplitC sep s
      else (case SplitC sep s of [] \<Rightarrow> [[c]] | p # ps \<Rightarrow> (c # p) # ps))"

fun SplitC2 :: "char \<Rightarrow> string \<Rightarrow> string list" where
  "SplitC2 sep [] = [[]]"
| "SplitC2 sep (c # s) =
     (if c = sep then [[], s]
      else (case SplitC2 sep s of [] \<Rightarrow> [[c]] | p # ps \<Rightarrow> (c # p) # ps))"

fun Join :: "string \<Rightarrow> string list \<Rightarrow> string" where
  "Join sep [] = []"
| "Join sep [x] = x"
| "Join sep (x # y # ys) = x @ sep @ Join sep (y # ys)"

text \<open>
  \<open>strings.ReplaceAll\<close>: non-overlapping occurrences from the left. Every call in the modelled code
  has a non-empty \<open>old\<close>; the guard keeps the recursion well-founded.
\<close>

function ReplaceAll :: "string \<Rightarrow> string \<Rightarrow> string \<Rightarrow> string" where
  "ReplaceAll s old new =
     (if old = [] then s
      else case s of [] \<Rightarrow> []
        | c # cs \<Rightarrow> if HasPrefix s old then new @ ReplaceAll (drop (length old) s) old new
                    else c # ReplaceAll cs old new)"
  by pat_completeness auto
termination
  by (relation "measure (\<lambda>(s, old, new). length s)") auto

declare ReplaceAll.simps [simp del]

definition isDigit :: "char \<Rightarrow> bool" where
  "isDigit c = (CHR ''0'' \<le> c \<and> c \<le> CHR ''9'')"

definition isUpper :: "char \<Rightarrow> bool" where
  "isUpper c = (CHR ''A'' \<le> c \<and> c \<le> CHR ''Z'')"

definition isLower :: "char \<Rightarrow> bool" where
  "isLower c = (CHR ''a'' \<le> c \<and> c \<le> CHR ''z'')"

definition lowerC :: "char \<Rightarrow> char" where
  "lowerC c = (if isUpper c then char_of (of_char c + (32 :: nat)) else c)"

definition upperC :: "char \<Rightarrow> char" where
  "upperC c = (if isLower c then char_of (of_char c - (32 :: nat)) else c)"

definition ToLower :: "string \<Rightarrow> string" where
  "ToLower s = map lowerC s"

definition ToUpper :: "string \<Rightarrow> string" where
  "ToUpper s = map upperC s"

text \<open>Tab, line feed, vertical tab, form feed, carriage return and space.\<close>

definition isSpace :: "char \<Rightarrow> bool" where
  "isSpace c = (c \<in> {CHR 0x09, CHR 0x0A, CHR 0x0B, CHR 0x0C, CHR 0x0D, CHR '' ''})"

definition TrimLeft :: "(char \<Rightarrow> bool) \<Rightarrow> string \<Rightarrow> string" where
  "TrimLeft p s = dropWhile p s"

definition TrimRight :: "(char \<Rightarrow> bool) \<Rightarrow> string \<Rightarrow> string" where
  "TrimRight p s = rev (dropWhile p (rev s))"

definition TrimSpace :: "string \<Rightarrow> string" where
  "TrimSpace s = TrimRight isSpace (TrimLeft isSpace s)"

subsection \<open>Facts about strings\<close>

lemma HasPrefix_iff [go_simps]: "HasPrefix s p \<longleftrightarrow> prefix p s"
proof
  assume "HasPrefix s p"
  then have "s = p @ drop (length p) s"
    by (metis HasPrefix_def append_take_drop_id)
  then show "prefix p s" by (metis prefixI)
next
  assume "prefix p s"
  then show "HasPrefix s p" by (auto simp: HasPrefix_def prefix_def)
qed

lemma HasSuffix_iff [go_simps]: "HasSuffix s p \<longleftrightarrow> suffix p s"
proof
  assume "HasSuffix s p"
  then have "s = take (length s - length p) s @ p"
    by (metis HasSuffix_def append_take_drop_id)
  then show "suffix p s" by (metis suffixI)
next
  assume "suffix p s"
  then show "HasSuffix s p" by (auto simp: HasSuffix_def suffix_def)
qed

lemma HasPrefix_append [simp]: "HasPrefix (p @ s) p"
  by (simp add: HasPrefix_def)

lemma HasSuffix_append [simp]: "HasSuffix (s @ p) p"
  by (simp add: HasSuffix_def)

lemma TrimPrefix_append [simp]: "TrimPrefix (p @ s) p = s"
  by (simp add: TrimPrefix_def)

lemma TrimSuffix_append [simp]: "TrimSuffix (s @ p) p = s"
  by (simp add: TrimSuffix_def)

lemma Contains_iff [go_simps]: "Contains s sub \<longleftrightarrow> (\<exists>a b. s = a @ sub @ b)"
proof (induction s)
  case (Cons c s)
  show ?case
  proof
    assume "Contains (c # s) sub"
    then consider "prefix sub (c # s)" | "Contains s sub" by (auto simp: HasPrefix_iff)
    then show "\<exists>a b. c # s = a @ sub @ b"
    proof cases
      case 1
      then show ?thesis by (metis append_Nil prefix_def)
    next
      case 2
      then show ?thesis using Cons by (metis append_Cons)
    qed
  next
    assume "\<exists>a b. c # s = a @ sub @ b"
    then obtain a b where ab: "c # s = a @ sub @ b" by blast
    show "Contains (c # s) sub"
    proof (cases a)
      case Nil
      then have "HasPrefix (c # s) sub" using ab by (simp add: HasPrefix_def)
      then show ?thesis by simp
    next
      case (Cons d a')
      then have "Contains s sub" using ab Cons.IH by auto
      then show ?thesis by simp
    qed
  qed
qed auto

lemma SplitC_not_Nil [simp]: "SplitC sep s \<noteq> []"
  by (cases s) (auto split: list.splits)

lemma SplitC2_not_Nil [simp]: "SplitC2 sep s \<noteq> []"
  by (cases s) (auto split: list.splits)

lemma Join_Cons: "xs \<noteq> [] \<Longrightarrow> Join sep (x # xs) = x @ sep @ Join sep xs"
  by (cases xs) auto

lemma Join_SplitC: "Join [sep] (SplitC sep s) = s"
proof (induction s)
  case (Cons c s)
  obtain p ps where ps: "SplitC sep s = p # ps" by (cases "SplitC sep s") auto
  show ?case
  proof (cases "c = sep")
    case True
    then show ?thesis using Cons ps by (simp add: Join_Cons)
  next
    case False
    then show ?thesis using Cons ps by (cases ps) auto
  qed
qed simp

lemma SplitC_notin: "sep \<notin> set s \<Longrightarrow> SplitC sep s = [s]"
  by (induction s) auto

lemma SplitC_append_sep: "sep \<notin> set a \<Longrightarrow> SplitC sep (a @ sep # b) = a # SplitC sep b"
  by (induction a) auto

lemma SplitC_no_sep: "x \<in> set (SplitC sep s) \<Longrightarrow> sep \<notin> set x"
proof (induction s arbitrary: x)
  case (Cons c s)
  obtain p ps where ps: "SplitC sep s = p # ps" by (cases "SplitC sep s") auto
  show ?case
    using Cons.prems Cons.IH ps by (auto split: if_splits)
qed simp

lemma SplitC_Join:
  "xs \<noteq> [] \<Longrightarrow> (\<And>x. x \<in> set xs \<Longrightarrow> sep \<notin> set x) \<Longrightarrow> SplitC sep (Join [sep] xs) = xs"
  by (induction "[sep]" xs rule: Join.induct) (auto simp: SplitC_notin SplitC_append_sep)

lemma SplitC2_notin: "sep \<notin> set s \<Longrightarrow> SplitC2 sep s = [s]"
  by (induction s) auto

lemma SplitC2_append_sep: "sep \<notin> set a \<Longrightarrow> SplitC2 sep (a @ sep # b) = [a, b]"
  by (induction a) auto

lemma SplitC2_cases:
  obtains (no_sep) "sep \<notin> set s" "SplitC2 sep s = [s]"
  | (sep) a b where "s = a @ sep # b" "sep \<notin> set a" "SplitC2 sep s = [a, b]"
proof (cases "sep \<in> set s")
  case True
  then obtain a b where "s = a @ sep # b" "sep \<notin> set a"
    using split_list_first by metis
  then show ?thesis using sep SplitC2_append_sep by metis
next
  case False
  then show ?thesis using no_sep SplitC2_notin by metis
qed

lemma ReplaceAll_notin: "\<not> Contains s old \<Longrightarrow> ReplaceAll s old new = s"
proof (induction s old new rule: ReplaceAll.induct)
  case (1 s old new)
  then show ?case
    by (subst ReplaceAll.simps) (auto split: list.splits)
qed

lemma ReplaceAll_Nil [simp]: "ReplaceAll [] old new = []"
  by (subst ReplaceAll.simps) simp


lemma ReplaceAll_whole: "old \<noteq> [] \<Longrightarrow> ReplaceAll old old new = new"
  by (subst ReplaceAll.simps) (auto simp: HasPrefix_def split: list.splits)

section \<open>Package strconv\<close>

definition digitVal :: "char \<Rightarrow> nat" where
  "digitVal c = of_char c - 48"

definition digitChar :: "nat \<Rightarrow> char" where
  "digitChar d = char_of (48 + d)"

fun parseDigits :: "nat \<Rightarrow> string \<Rightarrow> nat option" where
  "parseDigits acc [] = Some acc"
| "parseDigits acc (c # s) = (if isDigit c then parseDigits (10 * acc + digitVal c) s else None)"

text \<open>\<open>strconv.ParseUint(s, 10, bits)\<close>: a syntax error, a range error or the value.\<close>

definition ParseUint :: "string \<Rightarrow> nat \<Rightarrow> nat res" where
  "ParseUint s bits =
     (if s = [] then Inl (Plain ''invalid syntax'' [s])
      else case parseDigits 0 s of
        None \<Rightarrow> Inl (Plain ''invalid syntax'' [s])
      | Some n \<Rightarrow> if n < 2 ^ bits then Inr n else Inl (Plain ''value out of range'' [s]))"

text \<open>\<open>strconv.ParseInt(s, 10, 64)\<close>, which \<open>strconv.Atoi\<close> agrees with on 64-bit platforms.\<close>

definition ParseInt :: "string \<Rightarrow> int res" where
  "ParseInt s =
     (let neg = HasPrefix s ''-'';
          body = (if neg \<or> HasPrefix s ''+'' then drop 1 s else s)
      in if body = [] then Inl (Plain ''invalid syntax'' [s])
         else case parseDigits 0 body of
           None \<Rightarrow> Inl (Plain ''invalid syntax'' [s])
         | Some n \<Rightarrow>
             if neg then (if n \<le> 2 ^ 63 then Inr (- int n) else Inl (Plain ''value out of range'' [s]))
             else (if n < 2 ^ 63 then Inr (int n) else Inl (Plain ''value out of range'' [s])))"

fun FormatUint :: "nat \<Rightarrow> string" where
  "FormatUint n = (if n < 10 then [digitChar n] else FormatUint (n div 10) @ [digitChar (n mod 10)])"

declare FormatUint.simps [simp del]

definition FormatInt :: "int \<Rightarrow> string" where
  "FormatInt i = (if i < 0 then ''-'' @ FormatUint (nat (- i)) else FormatUint (nat i))"

definition FormatBool :: "bool \<Rightarrow> string" where
  "FormatBool b = (if b then ''true'' else ''false'')"

definition ParseBool :: "string \<Rightarrow> bool res" where
  "ParseBool s =
     (if s \<in> {''1'', ''t'', ''T'', ''true'', ''TRUE'', ''True''} then Inr True
      else if s \<in> {''0'', ''f'', ''F'', ''false'', ''FALSE'', ''False''} then Inr False
      else Inl (Plain ''invalid syntax'' [s]))"

lemma ParseBool_FormatBool [simp]: "ParseBool (FormatBool b) = Inr b"
  by (simp add: ParseBool_def FormatBool_def)

lemma FormatBool_inject [simp]: "FormatBool a = FormatBool b \<longleftrightarrow> a = b"
  by (simp add: FormatBool_def)

lemma of_char_digitChar: "d < 10 \<Longrightarrow> of_char (digitChar d) = 48 + d"
  by (simp add: digitChar_def)

lemma digitChar_digit: "d < 10 \<Longrightarrow> isDigit (digitChar d)"
  by (simp add: isDigit_def less_eq_char_def of_char_digitChar)

lemma digitVal_digitChar: "d < 10 \<Longrightarrow> digitVal (digitChar d) = d"
  by (simp add: digitVal_def of_char_digitChar)

lemma parseDigits_append:
  "parseDigits acc (s @ t) = (case parseDigits acc s of None \<Rightarrow> None | Some a \<Rightarrow> parseDigits a t)"
  by (induction s arbitrary: acc) auto

lemma FormatUint_not_Nil [simp]: "FormatUint n \<noteq> []"
  by (subst FormatUint.simps) simp

lemma parseDigits_FormatUint: "parseDigits 0 (FormatUint n) = Some n"
proof (induction n rule: FormatUint.induct)
  case (1 n)
  then show ?case
    by (subst FormatUint.simps)
       (auto simp: parseDigits_append digitChar_digit digitVal_digitChar)
qed

lemma ParseUint_FormatUint: "n < 2 ^ bits \<Longrightarrow> ParseUint (FormatUint n) bits = Inr n"
  by (simp add: ParseUint_def parseDigits_FormatUint)

lemma ParseUint_bound: "ParseUint s bits = Inr n \<Longrightarrow> n < 2 ^ bits"
  by (auto simp: ParseUint_def split: if_splits option.splits)

section \<open>Invariants of state machines\<close>

text \<open>
  The contract between a step relation and an invariant: it holds at the start and every step keeps
  it. What follows holds in every reachable state.
\<close>

locale transition_system =
  fixes step :: "'s \<Rightarrow> 's \<Rightarrow> bool"
    and start :: "'s \<Rightarrow> bool"
    and inv :: "'s \<Rightarrow> bool"
  assumes start_inv: "start s \<Longrightarrow> inv s"
    and step_inv: "step s s' \<Longrightarrow> inv s \<Longrightarrow> inv s'"
begin

lemma steps_inv: "step\<^sup>*\<^sup>* s s' \<Longrightarrow> inv s \<Longrightarrow> inv s'"
  by (induction rule: rtranclp_induct) (auto intro: step_inv)

lemma reachable_inv: "start s \<Longrightarrow> step\<^sup>*\<^sup>* s s' \<Longrightarrow> inv s'"
  using steps_inv start_inv by blast

end

end
