(* ===== verification/Expander.thy ===== *)
theory Expander
  imports GoBase
begin

text \<open>
  Package \<open>pkg/parser/expander\<close>: the expansion of \<open>$KEY\<close>, \<open>${KEY}\<close> and \<open>%KEY%\<close> references in
  configuration strings. The loop over the sorted keys is \<open>expandPass\<close>, the bounded outer loop
  \<open>expandLoop\<close>.
\<close>

definition sortedKeys :: "env \<Rightarrow> string list" where
  "sortedKeys env = rev (sort (map fst env))"

definition expandKey :: "env \<Rightarrow> string \<Rightarrow> string \<Rightarrow> string" where
  "expandKey env key s =
     (let s1 = ReplaceAll s (''$'' @ key) (mget env key);
          s2 = ReplaceAll s1 (''${'' @ key @ ''}'') (mget env key)
      in ReplaceAll s2 (''%'' @ key @ ''%'') (mget env key))"

definition expandPass :: "env \<Rightarrow> string list \<Rightarrow> string \<Rightarrow> string" where
  "expandPass env keys s = fold (expandKey env) keys s"

fun expandLoop :: "nat \<Rightarrow> env \<Rightarrow> string list \<Rightarrow> string \<Rightarrow> string" where
  "expandLoop 0 env keys s = s"
| "expandLoop (Suc n) env keys s =
     (let s' = expandPass env keys s in if s' = s then s' else expandLoop n env keys s')"

definition ExpandEnvironmentVariables :: "string \<Rightarrow> env \<Rightarrow> string" where
  "ExpandEnvironmentVariables s env = expandLoop 10 env (sortedKeys env) s"

section \<open>The order of the keys\<close>

lemma set_sortedKeys [simp]: "set (sortedKeys env) = fst ` set env"
  by (simp add: sortedKeys_def)

lemma sorted_rev_sortedKeys: "sorted (rev (sortedKeys env))"
  by (simp add: sortedKeys_def)

lemma distinct_sortedKeys: "wf_map env \<Longrightarrow> distinct (sortedKeys env)"
  by (simp add: sortedKeys_def wf_map_def)

lemma prefix_le: "prefix j k \<Longrightarrow> j \<le> (k :: string)"
proof (induction j arbitrary: k)
  case (Cons a j)
  then show ?case by (cases k) auto
qed simp

lemma sortedKeys_perm:
  assumes "mset env = mset env'"
  shows "sortedKeys env = sortedKeys env'"
proof -
  have "mset (map fst env) = mset (map fst env')" using assms by simp
  then have "sort (map fst env) = sort (map fst env')"
    by (intro properties_for_sort) simp_all
  then show ?thesis by (simp add: sortedKeys_def)
qed

lemma mget_perm:
  assumes "wf_map env" and "mset env = mset env'"
  shows "mget env k = mget env' k"
proof -
  have "set env = set env'" "distinct (map fst env')"
    using assms by (auto simp: wf_map_def dest: mset_eq_setD) (metis mset_eq_imp_distinct_iff mset_map)
  then have "map_of env = map_of env'"
    using assms(1) by (intro map_of_inject_set [THEN iffD2]) (auto simp: wf_map_def)
  then show ?thesis by (simp add: mget_def)
qed

lemma expandKey_perm: "wf_map env \<Longrightarrow> mset env = mset env' \<Longrightarrow> expandKey env = expandKey env'"
  by (simp add: expandKey_def mget_perm fun_eq_iff)

lemma expandLoop_perm:
  "wf_map env \<Longrightarrow> mset env = mset env' \<Longrightarrow> expandLoop n env keys s = expandLoop n env' keys s"
  by (induction n arbitrary: s) (simp_all add: expandPass_def expandKey_perm Let_def)

section \<open>The bounded loop\<close>

lemma expandLoop_iterate:
  "\<exists>m \<le> n. expandLoop n env keys s = (expandPass env keys ^^ m) s \<and>
     (m < n \<longrightarrow> expandPass env keys (expandLoop n env keys s) = expandLoop n env keys s)"
proof (induction n arbitrary: s)
  case (Suc n)
  let ?p = "expandPass env keys"
  show ?case
  proof (cases "?p s = s")
    case True
    then show ?thesis by (intro exI [of _ 0]) simp
  next
    case False
    from Suc [of "?p s"] obtain m where
      "m \<le> n" "expandLoop n env keys (?p s) = (?p ^^ m) (?p s)"
      "m < n \<longrightarrow> ?p (expandLoop n env keys (?p s)) = expandLoop n env keys (?p s)"
      by blast
    then show ?thesis using False
      by (intro exI [of _ "Suc m"]) (simp add: Let_def funpow_swap1)
  qed
qed simp


section \<open>The longest key is expanded\<close>

text \<open>Characters that start or delimit a reference; names of variables do not contain them.\<close>

definition plain :: "string \<Rightarrow> bool" where
  "plain s \<longleftrightarrow> set s \<inter> {CHR ''$'', CHR ''{'', CHR ''}'', CHR ''%''} = {}"

lemma not_Contains_if:
  "c \<in> set sub \<Longrightarrow> c \<notin> set s \<Longrightarrow> \<not> Contains s sub"
  by (auto simp: Contains_iff)

lemma expandKey_plain: "plain s \<Longrightarrow> expandKey env key s = s"
proof -
  assume "plain s"
  then have "CHR ''$'' \<notin> set s" "CHR ''%'' \<notin> set s" by (auto simp: plain_def)
  then show ?thesis
    by (simp add: expandKey_def Let_def ReplaceAll_notin not_Contains_if [of "CHR ''$''"]
        not_Contains_if [of "CHR ''%''"])
qed

lemma expandPass_plain: "plain s \<Longrightarrow> expandPass env keys s = s"
  by (induction keys) (simp_all add: expandPass_def expandKey_plain)

lemma Contains_dollar_key:
  assumes "plain k" and "Contains (''$'' @ k) (''$'' @ j)"
  shows "prefix j k"
proof -
  from assms(2) obtain a b where ab: "CHR ''$'' # k = a @ CHR ''$'' # j @ b"
    by (auto simp: Contains_iff)
  then show ?thesis
  proof (cases a)
    case Nil
    then show ?thesis using ab by simp
  next
    case (Cons c a')
    then have "CHR ''$'' \<in> set k" using ab by auto
    then show ?thesis using assms(1) by (auto simp: plain_def)
  qed
qed

lemma expandKey_other_key:
  assumes "plain k" and "\<not> prefix j k"
  shows "expandKey env j (''$'' @ k) = ''$'' @ k"
proof -
  have "CHR ''{'' \<notin> set (''$'' @ k)" "CHR ''%'' \<notin> set (''$'' @ k)"
    using assms(1) by (auto simp: plain_def)
  then have "\<not> Contains (''$'' @ k) (''${'' @ j @ ''}'')"
    and "\<not> Contains (''$'' @ k) (''%'' @ j @ ''%'')"
    by (intro not_Contains_if [of "CHR ''{''"] not_Contains_if [of "CHR ''%''"]; simp)+
  moreover have "\<not> Contains (''$'' @ k) (''$'' @ j)"
    using Contains_dollar_key assms by blast
  ultimately show ?thesis
    by (simp add: expandKey_def Let_def ReplaceAll_notin)
qed

lemma expandKey_same:
  assumes "plain (mget env k)"
  shows "expandKey env k (''$'' @ k) = mget env k"
proof -
  have "ReplaceAll (''$'' @ k) (''$'' @ k) (mget env k) = mget env k"
    by (rule ReplaceAll_whole) simp
  moreover have "CHR ''$'' \<notin> set (mget env k)" "CHR ''%'' \<notin> set (mget env k)"
    using assms by (auto simp: plain_def)
  ultimately show ?thesis
    by (simp add: expandKey_def Let_def ReplaceAll_notin not_Contains_if [of "CHR ''$''"]
        not_Contains_if [of "CHR ''%''"])
qed

lemma fold_expandKey_larger:
  "plain k \<Longrightarrow> \<forall>j \<in> set ks. \<not> prefix j k \<Longrightarrow> fold (expandKey env) ks (''$'' @ k) = ''$'' @ k"
  by (induction ks) (simp_all add: expandKey_other_key [simplified])

lemma expandPass_reference:
  assumes wf: "wf_map env" and k: "k \<in> fst ` set env"
    and plain: "plain k" "plain (mget env k)"
  shows "expandPass env (sortedKeys env) (''$'' @ k) = mget env k"
proof -
  obtain as bs where split: "sortedKeys env = as @ k # bs"
    using k by (metis set_sortedKeys split_list)
  have "\<not> prefix j k" if "j \<in> set as" for j
  proof
    assume "prefix j k"
    then have "j \<le> k" by (rule prefix_le)
    moreover have "k \<le> j"
      using sorted_rev_sortedKeys [of env] that by (simp add: split sorted_append)
    moreover have "j \<noteq> k"
      using distinct_sortedKeys [OF wf] that by (auto simp: split)
    ultimately show False by simp
  qed
  then have "fold (expandKey env) as (''$'' @ k) = ''$'' @ k"
    using plain(1) by (intro fold_expandKey_larger) auto
  then show ?thesis
    using expandPass_plain [OF plain(2), of env bs] expandKey_same [OF plain(2)]
    by (simp add: expandPass_def split)
qed

lemma expandLoop_settled:
  "expandPass env keys t = t \<Longrightarrow> expandPass env keys s = t \<Longrightarrow> expandLoop (Suc (Suc n)) env keys s = t"
  by (simp add: Let_def)

section \<open>Properties\<close>



text \<open>
  C24. The expansion does not depend on the iteration order of the environment map.
\<close>

theorem expand_order_independent:
  assumes "wf_map env" and "mset env = mset env'"
  shows "ExpandEnvironmentVariables s env = ExpandEnvironmentVariables s env'"
  using assms by (simp add: ExpandEnvironmentVariables_def expandLoop_perm sortedKeys_perm [of env env'])

theorem expand_order_independent_witness:
  "ExpandEnvironmentVariables ''$A$B'' [(''A'', ''$B''), (''B'', ''x'')]
     = ExpandEnvironmentVariables ''$A$B'' [(''B'', ''x''), (''A'', ''$B'')]"
  using expand_order_independent [of "[(''A'', ''$B''), (''B'', ''x'')]" "[(''B'', ''x''), (''A'', ''$B'')]" "''$A$B''"]
  by (simp add: wf_map_def add_mset_commute)

text \<open>
  The expansion is at most ten passes over the keys, and a result reached in fewer passes is
  final: another pass over it changes nothing.
\<close>

theorem expand_bounded_fixpoint:
  "\<exists>m \<le> 10. ExpandEnvironmentVariables s env = (expandPass env (sortedKeys env) ^^ m) s \<and>
     (m = 10 \<or> expandPass env (sortedKeys env) (ExpandEnvironmentVariables s env)
        = ExpandEnvironmentVariables s env)"
proof -
  from expandLoop_iterate [of 10 env "sortedKeys env" s] obtain m where
    "m \<le> 10" "ExpandEnvironmentVariables s env = (expandPass env (sortedKeys env) ^^ m) s"
    "m < 10 \<longrightarrow> expandPass env (sortedKeys env) (ExpandEnvironmentVariables s env)
        = ExpandEnvironmentVariables s env"
    by (auto simp: ExpandEnvironmentVariables_def)
  then show ?thesis by (metis le_neq_implies_less)
qed

end
