(* ===== verification/Environ.thy ===== *)
theory Environ
  imports GoBase
begin

text \<open>
  Package \<open>internal/executor/environment\<close>: environments of a task and their merging. What the
  go-git library answers about the project's repository is the record \<open>repo\<close>; a field that is
  \<open>None\<close> stands for a call that returned an error. The build identifier's UUID is an argument.
\<close>

record tag_ref =
  tag_hash :: string
  tag_short :: string
  tag_target :: "string option"

record head_ref =
  head_is_branch :: bool
  head_short :: string
  head_hash :: string

record commit_obj =
  commit_hash :: string
  commit_message :: string

record repo =
  remote_urls :: "string list option"
  repo_head :: "head_ref option"
  commit_object :: "string \<Rightarrow> commit_obj option"
  repo_tags :: "tag_ref list option"

definition Merge :: "env list \<Rightarrow> env" where
  "Merge opts = fold (\<lambda>opt result. mset_all result opt) opts []"

definition Copy :: "env \<Rightarrow> env" where
  "Copy env = mset_all [] env"

definition Static :: env where
  "Static =
     [(''CI'', ''true''),
      (''CONTINUOUS_INTEGRATION'', ''true''),
      (''CIRRUS_CI'', ''true''),
      (''CIRRUS_ENVIRONMENT'', ''CLI''),
      (''CIRRUS_USER_COLLABORATOR'', ''true''),
      (''CIRRUS_USER_PERMISSION'', ''write'')]"

definition BuildID :: "string \<Rightarrow> env" where
  "BuildID uuid = [(''CIRRUS_BUILD_ID'', ''CLI-'' @ uuid)]"

definition NodeInfo :: "int \<Rightarrow> int \<Rightarrow> env" where
  "NodeInfo nodeIndex nodeTotal =
     [(''CI_NODE_INDEX'', FormatInt nodeIndex), (''CI_NODE_TOTAL'', FormatInt nodeTotal)]"

definition TaskInfo :: "string \<Rightarrow> string \<Rightarrow> env" where
  "TaskInfo taskName taskID =
     [(''CIRRUS_TASK_NAME'', taskName), (''CIRRUS_TASK_ID'', taskID)]"

definition addRemoteVariables :: "repo \<Rightarrow> env \<Rightarrow> env" where
  "addRemoteVariables r envMap =
     (case remote_urls r of
        None \<Rightarrow> envMap
      | Some [] \<Rightarrow> envMap
      | Some (url # _) \<Rightarrow>
          (let httpsPrefix = ''https://github.com/'';
               sshPrefix = ''git@github.com:'';
               cut = (if HasPrefix url httpsPrefix then Some (TrimPrefix url httpsPrefix)
                      else if HasPrefix url sshPrefix then Some (TrimPrefix url sshPrefix)
                      else None)
           in case cut of
                None \<Rightarrow> envMap
              | Some cutURL \<Rightarrow>
                  (case SplitC (CHR ''/'') (TrimSuffix cutURL ''.git'') of
                     [repoOwner, repoName] \<Rightarrow>
                       mset_key ''CIRRUS_REPO_FULL_NAME'' (repoOwner @ ''/'' @ repoName)
                         (mset_key ''CIRRUS_REPO_NAME'' repoName
                           (mset_key ''CIRRUS_REPO_OWNER'' repoOwner
                             (mset_key ''CIRRUS_REPO_CLONE_URL'' url envMap)))
                   | _ \<Rightarrow> envMap)))"

definition addBranchVariables :: "repo \<Rightarrow> env \<Rightarrow> env" where
  "addBranchVariables r envMap =
     (case repo_head r of
        None \<Rightarrow> envMap
      | Some h \<Rightarrow> if \<not> head_is_branch h then envMap
                  else mset_key ''CIRRUS_BRANCH'' (head_short h) envMap)"

definition addCommitVariables :: "repo \<Rightarrow> env \<Rightarrow> env" where
  "addCommitVariables r envMap =
     (case repo_head r of
        None \<Rightarrow> envMap
      | Some h \<Rightarrow>
          (case commit_object r (head_hash h) of
             None \<Rightarrow> envMap
           | Some c \<Rightarrow>
               mset_key ''CIRRUS_CHANGE_MESSAGE'' (commit_message c)
                 (mset_key ''CIRRUS_CHANGE_IN_REPO'' (commit_hash c) envMap)))"

definition referencesHead :: "head_ref \<Rightarrow> tag_ref \<Rightarrow> bool" where
  "referencesHead h t = (tag_hash t = head_hash h \<or> tag_target t = Some (head_hash h))"

definition addTagVariables :: "repo \<Rightarrow> env \<Rightarrow> env" where
  "addTagVariables r envMap =
     (case repo_head r of
        None \<Rightarrow> envMap
      | Some h \<Rightarrow>
          (case repo_tags r of
             None \<Rightarrow> envMap
           | Some tags \<Rightarrow>
               (case find (referencesHead h) tags of
                  None \<Rightarrow> envMap
                | Some t \<Rightarrow> mset_key ''CIRRUS_TAG'' (tag_short t) envMap)))"

text \<open>\<open>None\<close>: the directory is not a repository.\<close>

definition ProjectSpecific :: "repo option \<Rightarrow> env" where
  "ProjectSpecific r =
     (case r of
        None \<Rightarrow> []
      | Some r \<Rightarrow> addTagVariables r (addCommitVariables r (addBranchVariables r (addRemoteVariables r []))))"

section \<open>The contract of an environment merge\<close>

text \<open>
  What the clients of \<open>Merge\<close> (the accessors of the parser's nodes, the parser and the executor)
  rely on: the result is a map, and the last environment that defines a key decides it.
\<close>

locale env_merge =
  fixes merge :: "env list \<Rightarrow> env"
  assumes merge_wf: "wf_map (merge es)"
    and merge_lookup: "(\<forall>e \<in> set es. wf_map e) \<Longrightarrow> map_of (merge es) = foldl (++) Map.empty (map map_of es)"
begin

lemma merge_last:
  assumes "\<forall>e \<in> set es. wf_map e" and "wf_map e" and "map_of e k = Some v"
  shows "map_of (merge (es @ [e])) k = Some v"
  using assms by (simp add: merge_lookup)

lemma merge_skip:
  assumes "\<forall>e \<in> set (es @ fs). wf_map e" and "\<forall>f \<in> set fs. map_of f k = None"
  shows "map_of (merge (es @ fs)) k = map_of (merge es) k"
  using assms
proof (induction fs rule: rev_induct)
  case (snoc f fs)
  have "map_of (merge (es @ fs @ [f])) = map_of (merge (es @ fs)) ++ map_of f"
    using snoc.prems by (simp add: merge_lookup)
  then show ?case using snoc by (auto simp: map_add_def)
qed simp

lemma merge_override:
  assumes "\<forall>e \<in> set (es @ e # fs). wf_map e"
    and "map_of e k = Some v" and "\<forall>f \<in> set fs. map_of f k = None"
  shows "map_of (merge (es @ e # fs)) k = Some v"
proof -
  have "map_of (merge ((es @ [e]) @ fs)) k = map_of (merge (es @ [e])) k"
    using assms by (intro merge_skip) auto
  also have "\<dots> = Some v"
    using assms by (intro merge_last) auto
  finally show ?thesis by simp
qed

lemma merge_dom:
  assumes "\<forall>e \<in> set es. wf_map e"
  shows "dom (map_of (merge es)) = (\<Union>e \<in> set es. dom (map_of e))"
  using assms
proof (induction es rule: rev_induct)
  case (snoc e es)
  then show ?case using merge_lookup [of "es @ [e]"] merge_lookup [of es] by auto
qed (simp add: merge_lookup)

end

lemma Merge_append: "Merge (es @ [e]) = mset_all (Merge es) e"
  by (simp add: Merge_def)

lemma Merge_wf: "wf_map (Merge es)"
proof (induction es rule: rev_induct)
  case (snoc e es)
  then show ?case by (auto simp: Merge_append)
qed (simp add: Merge_def)

lemma Merge_lookup:
  "\<forall>e \<in> set es. wf_map e \<Longrightarrow> map_of (Merge es) = foldl (++) Map.empty (map map_of es)"
proof (induction es rule: rev_induct)
  case (snoc e es)
  then show ?case by (simp add: Merge_append map_of_mset_all)
qed (simp add: Merge_def)

interpretation env_merge Merge
  by unfold_locales (simp_all add: Merge_wf Merge_lookup)

lemma Copy_lookup: "wf_map env \<Longrightarrow> map_of (Copy env) = map_of env"
  by (simp add: Copy_def map_of_mset_all)

lemma SplitC_slash_pair:
  "CHR ''/'' \<notin> set a \<Longrightarrow> CHR ''/'' \<notin> set b \<Longrightarrow> SplitC (CHR ''/'') (a @ CHR ''/'' # b) = [a, b]"
  by (simp add: SplitC_append_sep SplitC_notin)

section \<open>Properties\<close>

text \<open>
  Merging environments gives the later arguments the higher priority: a key has the value of
  the last environment that defines it, whatever the iteration order of the maps.
\<close>

theorem merge_last_wins:
  assumes "\<forall>e \<in> set (es @ e # fs). wf_map e"
    and "map_of e k = Some v" and "\<forall>f \<in> set fs. map_of f k = None"
  shows "map_of (Merge (es @ e # fs)) k = Some v"
  using assms by (rule merge_override)

theorem merge_last_wins_witness:
  "map_of (Merge ([[(''A'', ''low'')]] @ [(''A'', ''1''), (''B'', ''2'')] # [[(''C'', ''3'')]])) ''A'' = Some ''1''"
  by (rule merge_last_wins) (simp_all add: wf_map_def)

text \<open>
  A GitHub remote of the form \<open>https://github.com/owner/name.git\<close> or
  \<open>git@github.com:owner/name.git\<close> gives exactly the owner and the name of the repository.
\<close>

theorem remote_variables:
  assumes "CHR ''/'' \<notin> set owner" and "CHR ''/'' \<notin> set name"
    and "remote_urls r = Some (url # urls)"
    and "url \<in> {''https://github.com/'' @ owner @ ''/'' @ name @ ''.git'',
                ''git@github.com:'' @ owner @ ''/'' @ name @ ''.git''}"
  shows "map_of (addRemoteVariables r m) =
    (map_of m)(''CIRRUS_REPO_CLONE_URL'' \<mapsto> url, ''CIRRUS_REPO_OWNER'' \<mapsto> owner,
      ''CIRRUS_REPO_NAME'' \<mapsto> name, ''CIRRUS_REPO_FULL_NAME'' \<mapsto> owner @ ''/'' @ name)"
proof -
  have trim: "TrimSuffix (owner @ ''/'' @ name @ ''.git'') ''.git'' = owner @ ''/'' @ name"
    using TrimSuffix_append [of "owner @ ''/'' @ name" "''.git''"] by simp
  have split: "SplitC (CHR ''/'') (owner @ ''/'' @ name) = [owner, name]"
    using assms(1,2) by (simp add: SplitC_slash_pair)
  from assms(4) consider
      "url = ''https://github.com/'' @ owner @ ''/'' @ name @ ''.git''"
    | "url = ''git@github.com:'' @ owner @ ''/'' @ name @ ''.git''" by blast
  then show ?thesis
  proof cases
    case 1
    then have "HasPrefix url ''https://github.com/''"
      "TrimPrefix url ''https://github.com/'' = owner @ ''/'' @ name @ ''.git''"
      by (simp_all only: HasPrefix_append TrimPrefix_append)
    then show ?thesis
      using assms(3) trim split
      by (simp add: addRemoteVariables_def Let_def update_conv' del: append.simps)
  next
    case 2
    then have "\<not> HasPrefix url ''https://github.com/''" "HasPrefix url ''git@github.com:''"
      "TrimPrefix url ''git@github.com:'' = owner @ ''/'' @ name @ ''.git''"
      by (simp_all only: HasPrefix_append TrimPrefix_append) (simp add: HasPrefix_def)
    then show ?thesis
      using assms(3) trim split
      by (simp add: addRemoteVariables_def Let_def update_conv' del: append.simps)
  qed
qed

theorem remote_variables_witness:
  "map_of (addRemoteVariables
     \<lparr>remote_urls = Some [''git@github.com:cirruslabs/example.git''], repo_head = None,
      commit_object = (\<lambda>_. None), repo_tags = None\<rparr> []) ''CIRRUS_REPO_NAME'' = Some ''example''"
  using remote_variables [of "''cirruslabs''" "''example''"
     "\<lparr>remote_urls = Some [''git@github.com:cirruslabs/example.git''], repo_head = None,
      commit_object = (\<lambda>_. None), repo_tags = None\<rparr>" "''git@github.com:cirruslabs/example.git''" "[]" "[]"]
  by simp

end
