(* ===== verification/Node.thy ===== *)
theory Node
  imports GoBase
begin

text \<open>
  Package \<open>pkg/parser/node\<close> (node.go, finder.go, matrix.go): the configuration tree. A \<open>Node\<close> of
  the code has a pointer to its parent; here a node inside a tree is addressed by its path from the
  root, a list of child indices, and the mutating methods return the changed trees. The \<open>YAMLNode\<close>
  pointer is only used while a tree is built and is left out. \<open>NilValue\<close> is the value of a node
  that was never given one.
\<close>

datatype nvalue = NilValue | MapValue | ListValue | ScalarValue string

datatype node = Node (nname: string) (nval: nvalue) (nkids: "node list") (nline: int) (ncol: int)

type_synonym path = "nat list"

fun set_kids :: "node list \<Rightarrow> node \<Rightarrow> node" where
  "set_kids cs (Node n v _ l c) = Node n v cs l c"

lemma set_kids_sel [simp]:
  "nname (set_kids cs n) = nname n" "nval (set_kids cs n) = nval n" "nkids (set_kids cs n) = cs"
  "nline (set_kids cs n) = nline n" "ncol (set_kids cs n) = ncol n"
  by (cases n; simp)+

lemma set_kids_twice [simp]: "set_kids cs (set_kids ds n) = set_kids cs n"
  by (cases n) simp

lemma set_kids_id [simp]: "set_kids (nkids n) n = n"
  by (cases n) simp

lemma size_nkids [termination_simp]: "c \<in> set (nkids n) \<Longrightarrow> size c < size n"
  by (cases n) (auto dest: size_list_estimation' [of _ _ "size _" size])

section \<open>node.go\<close>

definition ParserError :: "node \<Rightarrow> string \<Rightarrow> string list \<Rightarrow> err" where
  "ParserError node format args = Rich (nline node) (ncol node) format args"

fun valueTypeString :: "nvalue \<Rightarrow> string" where
  "valueTypeString MapValue = ''map''"
| "valueTypeString ListValue = ''list''"
| "valueTypeString (ScalarValue _) = ''scalar''"
| "valueTypeString NilValue = ''unknown''"

definition ValueTypeAsString :: "node \<Rightarrow> string" where
  "ValueTypeAsString node = valueTypeString (nval node)"

definition ValueIsEmpty :: "node \<Rightarrow> bool" where
  "ValueIsEmpty node =
     (case nval node of MapValue \<Rightarrow> nkids node = [] | ListValue \<Rightarrow> nkids node = []
      | ScalarValue v \<Rightarrow> v = [] | NilValue \<Rightarrow> False)"

definition IsMap :: "node \<Rightarrow> bool" where
  "IsMap node = (nval node = MapValue)"

fun nodeString :: "node \<Rightarrow> string" where
  "nodeString (Node _ v cs _ _) =
     (case v of
        MapValue \<Rightarrow> ''MapValue('' @ Join '', '' (map (\<lambda>c. nname c @ ''='' @ nodeString c) cs) @ '')''
      | ListValue \<Rightarrow> ''ListValue('' @ Join '', '' (map nodeString cs) @ '')''
      | ScalarValue s \<Rightarrow> ''ScalarValue('' @ s @ '')''
      | NilValue \<Rightarrow> ''UnknownNodeType()'')"

text \<open>A deep copy is an equal tree; only the parent pointer differs.\<close>

fun CopyWithParent :: "node \<Rightarrow> node" where
  "CopyWithParent (Node n v cs l c) = Node n v (map CopyWithParent cs) l c"

lemma CopyWithParent_id [simp]: "CopyWithParent n = n"
  by (induction n rule: CopyWithParent.induct) (simp add: map_idI)

subsection \<open>MergeFrom\<close>

text \<open>\<open>reflect.TypeOf\<close> of two values is compared through their constructors.\<close>

fun sameType :: "nvalue \<Rightarrow> nvalue \<Rightarrow> bool" where
  "sameType NilValue NilValue = True"
| "sameType MapValue MapValue = True"
| "sameType ListValue ListValue = True"
| "sameType (ScalarValue _) (ScalarValue _) = True"
| "sameType _ _ = False"

text \<open>The position of the last child of the given name: \<open>existingChildren[name]\<close>.\<close>

definition lastIndex :: "string \<Rightarrow> string list \<Rightarrow> nat option" where
  "lastIndex k names = map_of (rev (zip names [0..<length names])) k"

text \<open>
  The two mutating loops of \<open>MergeFrom\<close>, over the recursive call \<open>rec\<close>, which returns the changed
  receiver and the changed argument.
\<close>

fun mergeMapKids ::
  "(node \<Rightarrow> node \<Rightarrow> node \<times> node) \<Rightarrow> string list \<Rightarrow> node list \<Rightarrow> node list \<Rightarrow> node list \<times> node list" where
  "mergeMapKids rec existing cs [] = (cs, [])"
| "mergeMapKids rec existing cs (oc # ocs) =
     (case lastIndex (nname oc) existing of
        Some i \<Rightarrow>
          (let (c', oc') = rec (cs ! i) oc;
               (r, ocs') = mergeMapKids rec existing (cs[i := c']) ocs
           in (r, oc' # ocs'))
      | None \<Rightarrow>
          (let (r, ocs') = mergeMapKids rec existing (cs @ [CopyWithParent oc]) ocs
           in (r, oc # ocs')))"

fun mergeListKids ::
  "(node \<Rightarrow> node \<Rightarrow> node \<times> node) \<Rightarrow> node list \<Rightarrow> node list \<Rightarrow> node list \<times> node list" where
  "mergeListKids rec cs [] = (cs, [])"
| "mergeListKids rec [] ocs = (map CopyWithParent ocs, ocs)"
| "mergeListKids rec (c # cs) (oc # ocs) =
     (let (c', oc') = rec c oc; (r, ocs') = mergeListKids rec cs ocs in (c' # r, oc' # ocs'))"

definition virtualNode :: node where
  "virtualNode = Node [] NilValue [] 0 0"

text \<open>
  \<open>MergeListOfMapsToSingleMap\<close>: the loop stops at the first child that is not a map and leaves the
  node a list, its children merged so far having gone through \<open>MergeFrom\<close> as arguments.
\<close>

fun mergeMaps :: "(node \<Rightarrow> node \<Rightarrow> node \<times> node) \<Rightarrow> node \<Rightarrow> node list \<Rightarrow> node option \<times> node list" where
  "mergeMaps rec virtual [] = (Some virtual, [])"
| "mergeMaps rec virtual (c # cs) =
     (if nval c \<noteq> MapValue then (None, c # cs)
      else let (virtual', c') = rec virtual c; (r, cs') = mergeMaps rec virtual' cs in (r, c' # cs'))"

definition collapseWith :: "(node \<Rightarrow> node \<Rightarrow> node \<times> node) \<Rightarrow> node \<Rightarrow> node" where
  "collapseWith rec node =
     (if nval node \<noteq> ListValue then node
      else case mergeMaps rec virtualNode (nkids node) of
        (None, cs') \<Rightarrow> set_kids cs' node
      | (Some virtual, _) \<Rightarrow> Node (nname node) MapValue (nkids virtual) (nline node) (ncol node))"

definition isEnvName :: "string \<Rightarrow> bool" where
  "isEnvName n = (n = ''env'' \<or> n = ''environment'')"

definition mergeTail :: "(node \<Rightarrow> node \<Rightarrow> node \<times> node) \<Rightarrow> node \<Rightarrow> node \<Rightarrow> node \<times> node" where
  "mergeTail rec n other =
     (if \<not> sameType (nval n) (nval other) then
        (Node (nname n) (nval other) (map CopyWithParent (nkids other)) (nline n) (ncol n), other)
      else
        (case nval other of
           MapValue \<Rightarrow>
             (let (cs, ocs) = mergeMapKids rec (map nname (nkids n)) (nkids n) (nkids other)
              in (set_kids cs n, set_kids ocs other))
         | ListValue \<Rightarrow>
             if nname n = ''additional_containers'' then
               (let (cs, ocs) = mergeListKids rec (nkids n) (nkids other)
                in (set_kids cs n, set_kids ocs other))
             else (set_kids (map CopyWithParent (nkids other)) n, other)
         | ScalarValue _ \<Rightarrow> (Node (nname n) (nval other) (nkids n) (nline n) (ncol n), other)
         | NilValue \<Rightarrow> (n, other)))"

definition mergeBody :: "(node \<Rightarrow> node \<Rightarrow> node \<times> node) \<Rightarrow> node \<Rightarrow> node \<Rightarrow> node \<times> node" where
  "mergeBody rec node other =
     (let n = Node (nname other) (nval node) (nkids node) (nline other) (ncol other)
      in if isEnvName (nname n)
         then mergeTail rec (collapseWith rec n) (collapseWith rec other)
         else mergeTail rec n other)"

text \<open>
  The recursion of \<open>MergeFrom\<close> is bounded by the height of the taller tree; \<open>MergeFrom_unfold\<close>
  below is the recursion of the code, without a bound.
\<close>

fun height :: "node \<Rightarrow> nat" where
  "height (Node _ _ cs _ _) = Suc (foldr max (map height cs) 0)"

fun MergeFromF :: "nat \<Rightarrow> node \<Rightarrow> node \<Rightarrow> node \<times> node" where
  "MergeFromF 0 node other = (node, other)"
| "MergeFromF (Suc fuel) node other = mergeBody (MergeFromF fuel) node other"

definition MergeFrom2 :: "node \<Rightarrow> node \<Rightarrow> node \<times> node" where
  "MergeFrom2 node other = MergeFromF (max (height node) (height other)) node other"

text \<open>The receiver after \<open>node.MergeFrom(other)\<close>.\<close>

definition MergeFrom :: "node \<Rightarrow> node \<Rightarrow> node" where
  "MergeFrom node other = fst (MergeFrom2 node other)"

definition MergeListOfMapsToSingleMap :: "node \<Rightarrow> node" where
  "MergeListOfMapsToSingleMap node = collapseWith MergeFrom2 node"


subsubsection \<open>The bound on the recursion is enough\<close>

lemma foldr_max_le: "foldr max ns (0::nat) \<le> h \<longleftrightarrow> (\<forall>n \<in> set ns. n \<le> h)"
  by (induction ns) auto

lemma height_le_Suc: "height n \<le> Suc h \<longleftrightarrow> (\<forall>c \<in> set (nkids n). height c \<le> h)"
  by (cases n) (simp add: foldr_max_le)

lemma height_not_0 [simp]: "height n \<noteq> 0" "\<not> height n \<le> 0" "0 < height n"
  by (cases n; simp)+

lemma height_kid: "c \<in> set (nkids n) \<Longrightarrow> height c < height n"
  by (cases n) (use foldr_max_le [of "map height (nkids n)" "height n - 1"] in auto)

lemma lastIndex_less: "lastIndex k ks = Some i \<Longrightarrow> i < length ks"
proof -
  assume "lastIndex k ks = Some i"
  then have "(k, i) \<in> set (zip ks [0..<length ks])"
    using map_of_SomeD [of "rev (zip ks [0..<length ks])"] by (simp add: lastIndex_def)
  then have "i \<in> set [0..<length ks]" by (rule set_zip_rightD)
  then show ?thesis by simp
qed

text \<open>\<open>keeps\<close>: the trees a call returns are not higher than the ones it is given.\<close>

definition keeps :: "nat \<Rightarrow> (node \<Rightarrow> node \<Rightarrow> node \<times> node) \<Rightarrow> bool" where
  "keeps h rec \<longleftrightarrow> (\<forall>a b. height a \<le> h \<longrightarrow> height b \<le> h \<longrightarrow>
     height (fst (rec a b)) \<le> h \<and> height (snd (rec a b)) \<le> h)"

definition agree :: "nat \<Rightarrow> (node \<Rightarrow> node \<Rightarrow> node \<times> node) \<Rightarrow> (node \<Rightarrow> node \<Rightarrow> node \<times> node) \<Rightarrow> bool" where
  "agree h rec rec' \<longleftrightarrow> (\<forall>a b. height a \<le> h \<longrightarrow> height b \<le> h \<longrightarrow> rec a b = rec' a b)"

abbreviation below :: "nat \<Rightarrow> node list \<Rightarrow> bool" where
  "below h cs \<equiv> \<forall>c \<in> set cs. height c \<le> h"

lemma keepsD:
  "keeps h rec \<Longrightarrow> height a \<le> h \<Longrightarrow> height b \<le> h \<Longrightarrow> rec a b = (a', b') \<Longrightarrow>
     height a' \<le> h \<and> height b' \<le> h"
  unfolding keeps_def by (metis fst_conv snd_conv)

lemma agreeD: "agree h rec rec' \<Longrightarrow> height a \<le> h \<Longrightarrow> height b \<le> h \<Longrightarrow> rec a b = rec' a b"
  by (simp add: agree_def)

lemma below_update: "below h cs \<Longrightarrow> height c \<le> h \<Longrightarrow> below h (cs[i := c])"
  using set_update_subset_insert [of cs i c] by auto

lemma mergeMaps_keeps:
  assumes "keeps h rec" and "height v \<le> h" and "below h cs" and "mergeMaps rec v cs = (r, cs')"
  shows "below h cs' \<and> (\<forall>w. r = Some w \<longrightarrow> height w \<le> h)"
  using assms(2-)
proof (induction cs arbitrary: v r cs')
  case (Cons c cs)
  obtain v' c' where rec: "rec v c = (v', c')" by fastforce
  obtain q ds where tail: "mergeMaps rec v' cs = (q, ds)" by fastforce
  have le: "height v' \<le> h \<and> height c' \<le> h"
    using keepsD [OF assms(1) _ _ rec] Cons.prems by simp
  have "below h ds \<and> (\<forall>w. q = Some w \<longrightarrow> height w \<le> h)"
    by (rule Cons.IH [OF _ _ tail]) (use le Cons.prems in auto)
  then show ?case
    using Cons.prems rec tail le by (auto split: if_splits)
qed auto

lemma mergeMaps_agree:
  assumes "keeps h rec" and "agree h rec rec'" and "height v \<le> h" and "below h cs"
  shows "mergeMaps rec v cs = mergeMaps rec' v cs"
  using assms(3-)
proof (induction cs arbitrary: v)
  case (Cons c cs)
  obtain v' c' where rec: "rec v c = (v', c')" by fastforce
  have "rec' v c = (v', c')" using agreeD [OF assms(2), of v c] rec Cons.prems by simp
  moreover have "height v' \<le> h" using keepsD [OF assms(1) _ _ rec] Cons.prems by simp
  ultimately show ?case using Cons rec by simp
qed simp

lemma virtualNode_simps [simp]:
  "height virtualNode = 1" "nkids virtualNode = []" "nname virtualNode = []" "nval virtualNode = NilValue"
  by (simp_all add: virtualNode_def)

lemma mergeMapKids_keeps:
  assumes "keeps h rec"
  shows "below h cs \<Longrightarrow> below h ocs \<Longrightarrow> length ks \<le> length cs \<Longrightarrow>
    mergeMapKids rec ks cs ocs = (r, ocs') \<Longrightarrow> below h r \<and> below h ocs'"
proof (induction ocs arbitrary: cs r ocs')
  case (Cons oc ocs)
  show ?case
  proof (cases "lastIndex (nname oc) ks")
    case None
    obtain q ds where tail: "mergeMapKids rec ks (cs @ [oc]) ocs = (q, ds)" by fastforce
    have "below h q \<and> below h ds"
      by (rule Cons.IH [OF _ _ _ tail]) (use Cons.prems in auto)
    then show ?thesis using Cons.prems None tail by auto
  next
    case (Some i)
    then have i: "i < length cs" using lastIndex_less Cons.prems(3) by fastforce
    obtain c' oc' where rec: "rec (cs ! i) oc = (c', oc')" by fastforce
    have le: "height c' \<le> h \<and> height oc' \<le> h"
      using keepsD [OF assms _ _ rec] Cons.prems i by simp
    obtain q ds where tail: "mergeMapKids rec ks (cs[i := c']) ocs = (q, ds)" by fastforce
    have "below h q \<and> below h ds"
      using Cons.IH [OF below_update _ _ tail] le Cons.prems(1-3) by simp
    then show ?thesis using Cons.prems Some tail le rec by auto
  qed
qed simp

lemma mergeMapKids_agree:
  assumes "keeps h rec" and "agree h rec rec'"
  shows "below h cs \<Longrightarrow> below h ocs \<Longrightarrow> length ks \<le> length cs \<Longrightarrow>
    mergeMapKids rec ks cs ocs = mergeMapKids rec' ks cs ocs"
proof (induction ocs arbitrary: cs)
  case (Cons oc ocs)
  show ?case
  proof (cases "lastIndex (nname oc) ks")
    case None
    then show ?thesis using Cons by simp
  next
    case (Some i)
    then have i: "i < length cs" using lastIndex_less Cons.prems(3) by fastforce
    obtain c' oc' where rec: "rec (cs ! i) oc = (c', oc')" by fastforce
    have "height c' \<le> h" using keepsD [OF assms(1) _ _ rec] Cons.prems i by simp
    then have "mergeMapKids rec ks (cs[i := c']) ocs = mergeMapKids rec' ks (cs[i := c']) ocs"
      using Cons.IH [OF below_update [of cs h c' i]] Cons.prems(1-3) by simp
    moreover have "rec' (cs ! i) oc = (c', oc')"
      using agreeD [OF assms(2), of "cs ! i" oc] rec Cons.prems i by simp
    ultimately show ?thesis using Some rec by simp
  qed
qed simp

lemma mergeListKids_keeps:
  shows "keeps h rec \<Longrightarrow> below h cs \<Longrightarrow> below h ocs \<Longrightarrow> mergeListKids rec cs ocs = (r, ocs') \<Longrightarrow> below h r \<and> below h ocs'"
proof (induction rec cs ocs arbitrary: r ocs' rule: mergeListKids.induct)
  case (3 rec c cs oc ocs)
  obtain c' oc' where rec: "rec c oc = (c', oc')" by fastforce
  obtain q ds where tail: "mergeListKids rec cs ocs = (q, ds)" by fastforce
  have "height c' \<le> h \<and> height oc' \<le> h"
    using keepsD [OF "3.prems"(1) _ _ rec] "3.prems" by simp
  moreover have "below h q \<and> below h ds"
    using "3.IH" [OF rec [symmetric] refl] "3.prems" tail by simp
  ultimately show ?case using "3.prems" rec tail by auto
qed auto

lemma mergeListKids_agree:
  assumes "agree h rec rec'"
  shows "below h cs \<Longrightarrow> below h ocs \<Longrightarrow> mergeListKids rec cs ocs = mergeListKids rec' cs ocs"
  using assms
  by (induction rec cs ocs rule: mergeListKids.induct) (simp_all add: agree_def split: prod.splits)

lemma height_set_kids: "height (set_kids cs n) \<le> Suc h \<longleftrightarrow> below h cs"
  by (simp add: height_le_Suc)

lemma collapseWith_keeps:
  assumes "keeps h rec" and "height n \<le> Suc h"
  shows "height (collapseWith rec n) \<le> Suc h"
proof (cases "nkids n")
  case Nil
  then show ?thesis using assms(2)
    by (simp add: collapseWith_def height_le_Suc)
next
  case (Cons c cs)
  then have kids: "below h (nkids n)" using assms(2) by (simp add: height_le_Suc)
  then have "height virtualNode \<le> h" using Cons height_not_0(3) [of c] by (simp del: height_not_0)
  obtain r ds where r: "mergeMaps rec virtualNode (nkids n) = (r, ds)" by fastforce
  have ds: "below h ds \<and> (\<forall>w. r = Some w \<longrightarrow> height w \<le> h)"
    by (rule mergeMaps_keeps [OF assms(1) \<open>height virtualNode \<le> h\<close> kids r])
  have "below h (nkids w)" if "r = Some w" for w
  proof -
    have "height w \<le> Suc h" using ds that by auto
    then show ?thesis by (simp add: height_le_Suc)
  qed
  then show ?thesis
    using assms(2) ds r by (cases r) (auto simp: collapseWith_def height_le_Suc)
qed

lemma collapseWith_agree:
  assumes "keeps h rec" and "agree h rec rec'" and "height n \<le> Suc h"
  shows "collapseWith rec n = collapseWith rec' n"
proof (cases "nkids n")
  case Nil
  then show ?thesis by (simp add: collapseWith_def)
next
  case (Cons c cs)
  then have "below h (nkids n)" using assms(3) by (simp add: height_le_Suc)
  moreover from this have "height virtualNode \<le> h"
    using Cons height_not_0(3) [of c] by (simp del: height_not_0)
  ultimately show ?thesis
    using mergeMaps_agree [OF assms(1,2)] by (simp add: collapseWith_def)
qed

lemma collapse_name [simp]: "nname (collapseWith rec n) = nname n"
  by (simp add: collapseWith_def split: prod.splits option.splits)

lemma height_rename: "height (Node n v (nkids m) l c) = height m"
  by (cases m) simp

lemma mergeTail_keeps:
  assumes "keeps h rec" and "height n \<le> Suc h" and "height m \<le> Suc h"
  shows "height (fst (mergeTail rec n m)) \<le> Suc h \<and> height (snd (mergeTail rec n m)) \<le> Suc h"
proof -
  have n: "below h (nkids n)" and m: "below h (nkids m)"
    using assms(2,3) by (simp_all add: height_le_Suc)
  obtain cs ds where map: "mergeMapKids rec (map nname (nkids n)) (nkids n) (nkids m) = (cs, ds)"
    by fastforce
  obtain es fs where list: "mergeListKids rec (nkids n) (nkids m) = (es, fs)" by fastforce
  have "below h cs" "below h ds" "below h es" "below h fs"
    using mergeMapKids_keeps [OF assms(1) n m _ map] mergeListKids_keeps [OF assms(1) n m list] by auto
  then show ?thesis
    using n m map list by (simp add: mergeTail_def height_le_Suc split: nvalue.splits)
qed

lemma mergeTail_agree:
  assumes "keeps h rec" and "agree h rec rec'" and "height n \<le> Suc h" and "height m \<le> Suc h"
  shows "mergeTail rec n m = mergeTail rec' n m"
proof -
  have n: "below h (nkids n)" and m: "below h (nkids m)"
    using assms(3,4) by (simp_all add: height_le_Suc)
  show ?thesis
    using mergeMapKids_agree [OF assms(1,2) n m, of "map nname (nkids n)"]
      mergeListKids_agree [OF assms(2) n m]
    by (simp add: mergeTail_def split: nvalue.splits)
qed

lemma mergeBody_keeps: "keeps h rec \<Longrightarrow> keeps (Suc h) (mergeBody rec)"
  unfolding keeps_def [of "Suc h"] mergeBody_def Let_def
  by (auto intro!: mergeTail_keeps [THEN conjunct1] mergeTail_keeps [THEN conjunct2]
      collapseWith_keeps simp: height_rename simp del: height.simps)

lemma mergeBody_agree:
  assumes "keeps h rec" and "agree h rec rec'"
  shows "agree (Suc h) (mergeBody rec) (mergeBody rec')"
  unfolding agree_def
proof (intro allI impI)
  fix a b
  assume a: "height a \<le> Suc h" and b: "height b \<le> Suc h"
  define n where "n = Node (nname b) (nval a) (nkids a) (nline b) (ncol b)"
  have n: "height n \<le> Suc h" using a by (simp only: n_def height_rename)
  show "mergeBody rec a b = mergeBody rec' a b"
    unfolding mergeBody_def Let_def n_def [symmetric]
    using n b collapseWith_agree [OF assms n] collapseWith_agree [OF assms b]
      collapseWith_keeps [OF assms(1) n] collapseWith_keeps [OF assms(1) b]
    by (simp add: mergeTail_agree [OF assms])
qed

lemma MergeFromF_keeps: "keeps n (MergeFromF n)"
proof (induction n)
  case (Suc n)
  have "MergeFromF (Suc n) = mergeBody (MergeFromF n)" by (simp add: fun_eq_iff)
  then show ?case using mergeBody_keeps [OF Suc] by simp
qed (simp add: keeps_def)

lemma MergeFromF_enough: "h \<le> n \<Longrightarrow> agree h (MergeFromF h) (MergeFromF n)"
proof (induction h arbitrary: n)
  case (Suc h)
  then obtain m where n: "n = Suc m" "h \<le> m" by (cases n) auto
  then have "MergeFromF (Suc h) = mergeBody (MergeFromF h)" "MergeFromF n = mergeBody (MergeFromF m)"
    by (simp_all add: fun_eq_iff)
  then show ?case using mergeBody_agree [OF MergeFromF_keeps Suc.IH [OF n(2)]] by simp
qed (simp add: agree_def)

lemma MergeFrom2_enough:
  "height a \<le> n \<Longrightarrow> height b \<le> n \<Longrightarrow> MergeFromF n a b = MergeFrom2 a b"
  using MergeFromF_enough [of "max (height a) (height b)" n] by (simp add: agree_def MergeFrom2_def)

lemma MergeFrom2_keeps: "keeps h MergeFrom2"
  using MergeFromF_keeps [of h] by (simp add: keeps_def MergeFrom2_enough)

text \<open>The recursion equation of the code: the bound is never reached.\<close>

lemma MergeFrom_unfold: "MergeFrom2 a b = mergeBody MergeFrom2 a b"
proof -
  obtain h where h: "height a \<le> Suc h" "height b \<le> Suc h"
    by (metis lessI less_imp_le_nat max.bounded_iff le_SucI order_refl max.cobounded1 max.cobounded2)
  have "agree h (MergeFromF h) MergeFrom2" by (simp add: agree_def MergeFrom2_enough)
  then have "mergeBody (MergeFromF h) a b = mergeBody MergeFrom2 a b"
    using mergeBody_agree [OF MergeFromF_keeps] h by (simp add: agree_def)
  moreover have "MergeFrom2 a b = MergeFromF (Suc h) a b" using h by (simp only: MergeFrom2_enough)
  ultimately show ?thesis by simp
qed

lemma mergeBody_name: "nname (fst (mergeBody rec a b)) = nname b"
  by (simp add: mergeBody_def mergeTail_def Let_def split: nvalue.splits prod.splits)

lemma MergeFrom_name [simp]: "nname (MergeFrom a b) = nname b"
  by (simp add: MergeFrom_def MergeFrom_unfold [of a b] mergeBody_name)

subsection \<open>Deduplicate\<close>

text \<open>The children split into the first one of each name and the rest, in their order.\<close>

fun splitUnique :: "string list \<Rightarrow> node list \<Rightarrow> node list \<times> node list" where
  "splitUnique seen [] = ([], [])"
| "splitUnique seen (c # cs) =
     (if nname c \<in> set seen then let (u, d) = splitUnique seen cs in (u, c # d)
      else let (u, d) = splitUnique (nname c # seen) cs in (c # u, d))"

fun mergeIntoNamed :: "node list \<Rightarrow> node \<Rightarrow> node list" where
  "mergeIntoNamed [] d = []"
| "mergeIntoNamed (u # us) d =
     (if nname u = nname d then MergeFrom u d # us else u # mergeIntoNamed us d)"

lemma splitUnique_subset:
  "splitUnique seen cs = (u, d) \<Longrightarrow> set u \<subseteq> set cs \<and> set d \<subseteq> set cs"
  by (induction seen cs arbitrary: u d rule: splitUnique.induct)
     (fastforce split: if_splits prod.splits)+

lemma splitUnique_dup_size [termination_simp]:
  "c \<in> set (snd (splitUnique [] (nkids n))) \<Longrightarrow> size c < size n"
  using splitUnique_subset [of "[]" "nkids n"] by (metis prod.collapse size_nkids subsetD)

function Deduplicate :: "node \<Rightarrow> node" where
  "Deduplicate n =
     set_kids (fold (\<lambda>d us. mergeIntoNamed us (Deduplicate d))
                 (snd (splitUnique [] (nkids n))) (fst (splitUnique [] (nkids n)))) n"
  by pat_completeness auto
termination
  by (relation "measure size") (auto simp: splitUnique_dup_size)

declare Deduplicate.simps [simp del]

lemma Deduplicate_name [simp]: "nname (Deduplicate n) = nname n"
  by (subst Deduplicate.simps) simp

lemma splitUnique_names:
  "splitUnique seen cs = (u, d) \<Longrightarrow> distinct (map nname u) \<and> set (map nname u) = nname ` set cs - set seen"
proof (induction seen cs arbitrary: u d rule: splitUnique.induct)
  case (2 seen c cs)
  show ?case
  proof (cases "nname c \<in> set seen")
    case True
    then show ?thesis using "2.IH"(1) "2.prems" by (auto split: prod.splits)
  next
    case False
    obtain u' d' where tail: "splitUnique (nname c # seen) cs = (u', d')" by fastforce
    have "distinct (map nname u') \<and> nname ` set u' = nname ` set cs - insert (nname c) (set seen)"
      using "2.IH"(2) [OF False tail] by simp
    moreover have "u = c # u'" using "2.prems" False tail by simp
    ultimately show ?thesis using False by simp blast
  qed
qed simp

lemma map_nname_mergeIntoNamed [simp]: "map nname (mergeIntoNamed us d) = map nname us"
  by (induction us d rule: mergeIntoNamed.induct) auto

lemma map_nname_fold_mergeIntoNamed [simp]:
  "map nname (fold (\<lambda>d us. mergeIntoNamed us (f d)) ds us) = map nname us"
  by (induction ds arbitrary: us) auto

lemma Deduplicate_kid_names:
  "map nname (nkids (Deduplicate n)) = map nname (fst (splitUnique [] (nkids n)))"
  by (subst Deduplicate.simps) simp

section \<open>finder.go\<close>

definition FindChild :: "node \<Rightarrow> string \<Rightarrow> node option" where
  "FindChild n name = find (\<lambda>c. nname c = name) (nkids n)"

definition HasChild :: "node \<Rightarrow> string \<Rightarrow> bool" where
  "HasChild n name = (FindChild n name \<noteq> None)"

text \<open>
  \<open>DeepFindChild\<close> returns the path of the node it finds: the first node of that name in a
  depth-first traversal of the children.
\<close>

function DeepFindChild :: "string \<Rightarrow> node \<Rightarrow> path option"
  and deepFindKids :: "string \<Rightarrow> nat \<Rightarrow> node list \<Rightarrow> path option" where
  "DeepFindChild name n = deepFindKids name 0 (nkids n)"
| "deepFindKids name i [] = None"
| "deepFindKids name i (c # cs) =
     (if nname c = name then Some [i]
      else case DeepFindChild name c of
        Some p \<Rightarrow> Some (i # p)
      | None \<Rightarrow> deepFindKids name (Suc i) cs)"
  by pat_completeness auto
termination
proof (relation "measure (case_sum (\<lambda>(_, n). 2 * size n) (\<lambda>(_, _, cs). Suc (2 * size_list size cs)))",
    goal_cases)
  case (2 name n)
  then show ?case by (cases n) simp
qed auto

declare DeepFindChild.simps [simp del]

section \<open>matrix.go\<close>

text \<open>The ancestors of the node at a path, nearest first, are its proper prefixes.\<close>

fun GetPath :: "node \<Rightarrow> path \<Rightarrow> node option" where
  "GetPath n [] = Some n"
| "GetPath n (i # p) = (if length (nkids n) < i + 1 then None else GetPath (nkids n ! i) p)"

fun putPath :: "path \<Rightarrow> node \<Rightarrow> node \<Rightarrow> node" where
  "putPath [] m n = m"
| "putPath (i # p) m n =
     (if i < length (nkids n) then set_kids ((nkids n)[i := putPath p m (nkids n ! i)]) n else n)"

definition nameAt :: "node \<Rightarrow> path \<Rightarrow> string" where
  "nameAt tree p = (case GetPath tree p of Some n \<Rightarrow> nname n | None \<Rightarrow> [])"

text \<open>\<open>FindParent\<close> walks from the parent of the node at \<open>p\<close> to the root.\<close>

fun findParentRev :: "(string \<Rightarrow> bool) \<Rightarrow> node \<Rightarrow> path \<Rightarrow> path option" where
  "findParentRev predicate tree [] = None"
| "findParentRev predicate tree (_ # rp) =
     (if predicate (nameAt tree (rev rp)) then Some (rev rp) else findParentRev predicate tree rp)"

definition FindParent :: "(string \<Rightarrow> bool) \<Rightarrow> node \<Rightarrow> path \<Rightarrow> path option" where
  "FindParent predicate tree p = findParentRev predicate tree (rev p)"

definition ReversePath :: "path \<Rightarrow> path" where
  "ReversePath p = rev p"

text \<open>
  \<open>PathUpwardsUpto\<close> collects the indices of a node and of its ancestors, the innermost first, until
  it has passed the child of \<open>upto\<close> (or the child of the root).
\<close>

fun pathUpwards :: "path \<Rightarrow> path \<Rightarrow> path" where
  "pathUpwards stop [] = []"
| "pathUpwards stop (i # rp) = i # (if rev rp = stop then [] else pathUpwards stop rp)"

definition PathUpwardsUpto :: "path \<Rightarrow> path \<Rightarrow> path" where
  "PathUpwardsUpto p stop = pathUpwards stop (rev p)"

text \<open>
  \<open>ReplaceWith\<close> on the node at \<open>p\<close> splices the new nodes into the children of its parent. A node
  without a parent makes the code dereference a nil pointer.
\<close>

fun spliceAt :: "path \<Rightarrow> node list \<Rightarrow> node \<Rightarrow> node" where
  "spliceAt [] ws n = n"
| "spliceAt [i] ws n =
     (if i < length (nkids n) then set_kids (take i (nkids n) @ ws @ drop (Suc i) (nkids n)) n else n)"
| "spliceAt (i # p) ws n =
     (if i < length (nkids n) then set_kids ((nkids n)[i := spliceAt p ws (nkids n ! i)]) n else n)"

definition ReplaceWith :: "node \<Rightarrow> path \<Rightarrow> node list \<Rightarrow> node res" where
  "ReplaceWith tree p ws =
     (if p = [] then Inl (Panic ''invalid memory address or nil pointer dereference'')
      else Inr (spliceAt p ws tree))"

definition DeepCopy :: "node \<Rightarrow> node" where
  "DeepCopy n = CopyWithParent n"

text \<open>The receiver is the node at \<open>p\<close>, the target the node at \<open>target\<close> of the same tree.\<close>

definition DeepCopyWithReplacements :: "node \<Rightarrow> path \<Rightarrow> path \<Rightarrow> node list \<Rightarrow> node res" where
  "DeepCopyWithReplacements tree p target replacements =
     (let pathToNode = ReversePath (PathUpwardsUpto target p)
      in case GetPath tree p of
           None \<Rightarrow> Inl (Panic ''invalid memory address or nil pointer dereference'')
         | Some n \<Rightarrow>
             (let nodeCopy = DeepCopy n
              in case GetPath nodeCopy pathToNode of
                   None \<Rightarrow> Inl (Panic ''invalid memory address or nil pointer dereference'')
                 | Some _ \<Rightarrow> ReplaceWith nodeCopy pathToNode replacements))"

text \<open>A nameable is its \<open>Matches\<close> method.\<close>

definition MergeFromMap :: "node \<Rightarrow> node \<Rightarrow> (string \<Rightarrow> bool) list \<Rightarrow> node" where
  "MergeFromMap node0 with mergeExemptions =
     fold (\<lambda>child n.
        if FindChild n (nname child) = None \<or> (\<exists>matches \<in> set mergeExemptions. matches (nname child))
        then set_kids (nkids n @ [child]) n else n)
       (nkids with) node0"

definition OverwriteWith :: "node \<Rightarrow> node \<Rightarrow> node" where
  "OverwriteWith n with = Node (nname n) (nval with) (nkids with) (nline n) (ncol n)"

subsection \<open>DeepFindCollectible\<close>

text \<open>
  The paths of the nodes that \<open>DeepFindCollectible\<close> collects for the node at \<open>p\<close>: at every level
  from the node itself up to the root, the children of that name, the last one first.
\<close>

definition traverseChain :: "string \<Rightarrow> node \<Rightarrow> path \<Rightarrow> path list" where
  "traverseChain name tree p =
     concat (map (\<lambda>q. case GetPath tree q of
               None \<Rightarrow> []
             | Some n \<Rightarrow> map (\<lambda>i. q @ [i])
                 (filter (\<lambda>i. nname (nkids n ! i) = name) (rev [0..<length (nkids n)])))
           (rev (prefixes p)))"

text \<open>
  Merging into the virtual node also changes the merged nodes (lists of maps under \<open>env\<close> become
  maps), so the tree is part of the result. The paths stand for the node pointers of the code as
  long as the name does not occur on \<open>p\<close> itself, which holds for the collectible fields.
\<close>

definition mergeAt :: "path \<Rightarrow> node \<times> node \<Rightarrow> node \<times> node" where
  "mergeAt q st =
     (let (virtual, tree) = st
      in case GetPath tree q of
           None \<Rightarrow> st
         | Some child \<Rightarrow> (let (virtual', child') = MergeFrom2 virtual child
                          in (virtual', putPath q child' tree)))"

definition DeepFindCollectible :: "string \<Rightarrow> node \<Rightarrow> path \<Rightarrow> node option \<times> node" where
  "DeepFindCollectible name tree p =
     (let chain = traverseChain name tree p;
          (virtual, tree') = fold mergeAt (rev chain) (virtualNode, tree)
      in if chain = [] then (None, tree') else (Some (Deduplicate virtual), tree'))"

section \<open>Facts about merging\<close>

lemma collapse_not_list [simp]: "nval n \<noteq> ListValue \<Longrightarrow> collapseWith rec n = n"
  by (simp add: collapseWith_def)

lemma mergeTail_scalar:
  "nval m = ScalarValue s \<Longrightarrow> snd (mergeTail rec n m) = m \<and> nval (fst (mergeTail rec n m)) = ScalarValue s"
  by (cases "nval n") (simp_all add: mergeTail_def)

lemma mergeBody_map:
  assumes "nval a = MapValue" and "nval b = MapValue"
  shows "mergeBody rec a b =
    (let (cs, ocs) = mergeMapKids rec (map nname (nkids a)) (nkids a) (nkids b)
     in (Node (nname b) MapValue cs (nline b) (ncol b), set_kids ocs b))"
  using assms by (simp add: mergeBody_def mergeTail_def Let_def split: prod.splits)

lemma mergeBody_other_type:
  assumes "nval a = NilValue" and "nval b = MapValue"
  shows "mergeBody rec a b = (Node (nname b) MapValue (nkids b) (nline b) (ncol b), b)"
  using assms by (simp add: mergeBody_def mergeTail_def Let_def map_idI)

lemma mergeBody_scalar:
  assumes "nval b = ScalarValue s"
  shows "snd (mergeBody rec a b) = b" and "nval (fst (mergeBody rec a b)) = ScalarValue s"
  using assms by (simp_all add: mergeBody_def Let_def mergeTail_scalar)

lemma lastIndex_None: "lastIndex k ks = None \<longleftrightarrow> k \<notin> set ks"
  by (simp add: lastIndex_def map_of_eq_None_iff flip: set_map)

lemma lastIndex_nth: "lastIndex k ks = Some i \<Longrightarrow> ks ! i = k"
proof -
  assume "lastIndex k ks = Some i"
  then have "(k, i) \<in> set (zip ks [0..<length ks])"
    using map_of_SomeD [of "rev (zip ks [0..<length ks])"] by (simp add: lastIndex_def)
  then show ?thesis by (auto simp: in_set_zip)
qed

abbreviation findNamed :: "string \<Rightarrow> node list \<Rightarrow> node option" where
  "findNamed k \<equiv> find (\<lambda>c. nname c = k)"

lemma find_append: "find P (xs @ ys) = (case find P xs of None \<Rightarrow> find P ys | Some x \<Rightarrow> Some x)"
  by (induction xs) auto

lemma findNamed_None: "findNamed k cs = None \<longleftrightarrow> k \<notin> nname ` set cs"
  by (auto simp: find_None_iff)

lemma findNamed_map_of: "findNamed k cs = map_of (map (\<lambda>c. (nname c, c)) cs) k"
  by (induction cs) auto

lemma findNamed_nth:
  "distinct (map nname cs) \<Longrightarrow> i < length cs \<Longrightarrow> findNamed (nname (cs ! i)) cs = Some (cs ! i)"
proof (induction cs arbitrary: i)
  case (Cons c cs)
  then show ?case by (cases i) auto
qed simp

lemma findNamed_update:
  "i < length cs \<Longrightarrow> nname c' = nname (cs ! i) \<Longrightarrow> distinct (map nname cs) \<Longrightarrow>
     findNamed k (cs[i := c']) = (if k = nname c' then Some c' else findNamed k cs)"
proof (induction cs arbitrary: i)
  case (Cons c cs)
  show ?case
  proof (cases i)
    case (Suc j)
    then have "nname (cs ! j) \<in> nname ` set cs" using Cons.prems by simp
    then have "nname (cs ! j) \<noteq> nname c" using Cons.prems by auto
    then show ?thesis using Cons Suc by auto
  qed (use Cons.prems in auto)
qed simp

lemma mergeMapKids_find:
  assumes "\<And>a b. nname (fst (rec a b)) = nname b"
    and "distinct (map nname cs)" and "distinct (map nname ocs)"
    and "take (length ks) (map nname cs) = ks"
    and "set (drop (length ks) (map nname cs)) \<inter> nname ` set ocs = {}"
  shows "findNamed k (fst (mergeMapKids rec ks cs ocs)) =
    (case findNamed k ocs of
       None \<Rightarrow> findNamed k cs
     | Some y \<Rightarrow> Some (case findNamed k cs of None \<Rightarrow> y | Some x \<Rightarrow> fst (rec x y)))"
  using assms(2-)
proof (induction ocs arbitrary: cs)
  case (Cons oc ocs)
  have len: "length ks \<le> length cs"
    using arg_cong [OF Cons.prems(3), of length] by simp
  show ?case
  proof (cases "lastIndex (nname oc) ks")
    case None
    then have "nname oc \<notin> set ks" by (simp add: lastIndex_None)
    moreover have "set (map nname cs) = set ks \<union> set (drop (length ks) (map nname cs))"
      using Cons.prems(3) by (metis append_take_drop_id set_append)
    ultimately have new: "nname oc \<notin> nname ` set cs" using Cons.prems(4) by auto
    have "findNamed k (fst (mergeMapKids rec ks (cs @ [oc]) ocs)) =
      (case findNamed k ocs of
         None \<Rightarrow> findNamed k (cs @ [oc])
       | Some y \<Rightarrow> Some (case findNamed k (cs @ [oc]) of None \<Rightarrow> y | Some x \<Rightarrow> fst (rec x y)))"
      using Cons.prems new len by (intro Cons.IH) auto
    then show ?thesis
      using None new Cons.prems(2) findNamed_None [of k ocs] findNamed_None [of k cs]
      by (auto simp: find_append split: option.splits prod.splits)
  next
    case (Some i)
    have i: "i < length ks" "nname (cs ! i) = nname oc"
      using lastIndex_less [OF Some] lastIndex_nth [OF Some] Cons.prems(3) len
      by (auto, metis len nth_map nth_take order_less_le_trans)
    obtain c' oc' where rec: "rec (cs ! i) oc = (c', oc')" by fastforce
    then have c': "nname c' = nname oc" using assms(1) [of "cs ! i" oc] by simp
    have names: "map nname (cs[i := c']) = map nname cs"
      using i c' len by (metis list_update_id map_update nth_map order_less_le_trans)
    have upd: "findNamed j (cs[i := c']) = (if j = nname oc then Some c' else findNamed j cs)" for j
      using findNamed_update [of i cs c' j] i c' len Cons.prems(1) by simp
    have old: "findNamed (nname oc) cs = Some (cs ! i)"
      using findNamed_nth [of cs i] i len Cons.prems(1) by simp
    have "findNamed k (fst (mergeMapKids rec ks (cs[i := c']) ocs)) =
      (case findNamed k ocs of
         None \<Rightarrow> findNamed k (cs[i := c'])
       | Some y \<Rightarrow> Some (case findNamed k (cs[i := c']) of None \<Rightarrow> y | Some x \<Rightarrow> fst (rec x y)))"
      by (rule Cons.IH) (use Cons.prems names in \<open>auto simp: drop_map take_map simp del: map_update\<close>)
    then show ?thesis
      using Some rec upd old Cons.prems(2) findNamed_None [of k ocs]
      by (auto split: option.splits prod.splits)
  qed
qed simp

lemma MergeFrom_map_find:
  assumes "nval a = MapValue" and "nval b = MapValue"
    and "distinct (map nname (nkids a))" and "distinct (map nname (nkids b))"
  shows "FindChild (MergeFrom a b) k =
    (case FindChild b k of
       None \<Rightarrow> FindChild a k
     | Some y \<Rightarrow> Some (case FindChild a k of None \<Rightarrow> y | Some x \<Rightarrow> MergeFrom x y))"
proof -
  have "nkids (MergeFrom a b) = fst (mergeMapKids MergeFrom2 (map nname (nkids a)) (nkids a) (nkids b))"
    by (simp add: MergeFrom_def MergeFrom_unfold [of a b] mergeBody_map assms(1,2) split: prod.splits)
  moreover have "nname (fst (MergeFrom2 x y)) = nname y" for x y
    using MergeFrom_name [of x y] by (simp add: MergeFrom_def)
  ultimately show ?thesis
    using mergeMapKids_find [of MergeFrom2 "nkids a" "nkids b" "map nname (nkids a)" k] assms(3,4)
    unfolding FindChild_def MergeFrom_def by simp
qed

lemma mergeMapKids_proj:
  "fst (mergeMapKids rec ks cs (oc # ocs)) =
     (case lastIndex (nname oc) ks of
        Some i \<Rightarrow> fst (mergeMapKids rec ks (cs[i := fst (rec (cs ! i) oc)]) ocs)
      | None \<Rightarrow> fst (mergeMapKids rec ks (cs @ [oc]) ocs))"
  "snd (mergeMapKids rec ks cs (oc # ocs)) =
     (case lastIndex (nname oc) ks of
        Some i \<Rightarrow> snd (rec (cs ! i) oc) # snd (mergeMapKids rec ks (cs[i := fst (rec (cs ! i) oc)]) ocs)
      | None \<Rightarrow> oc # snd (mergeMapKids rec ks (cs @ [oc]) ocs))"
  by (simp_all add: case_prod_unfold Let_def split: option.splits)

lemma mergeMapKids_names:
  assumes "\<And>a b. nname (fst (rec a b)) = nname b"
    and "take (length ks) (map nname cs) = ks"
  shows "map nname (fst (mergeMapKids rec ks cs ocs)) =
    map nname cs @ filter (\<lambda>k. k \<notin> set ks) (map nname ocs)"
  using assms(2)
proof (induction ocs arbitrary: cs)
  case (Cons oc ocs)
  have len: "length ks \<le> length cs"
    using arg_cong [OF Cons.prems, of length] by simp
  show ?case
  proof (cases "lastIndex (nname oc) ks")
    case None
    then have "nname oc \<notin> set ks" by (simp add: lastIndex_None)
    then show ?thesis
      using None Cons.IH [of "cs @ [oc]"] Cons.prems len
      by (simp add: mergeMapKids_proj del: mergeMapKids.simps)
  next
    case (Some i)
    have i: "i < length ks" "nname (cs ! i) = nname oc"
      using lastIndex_less [OF Some] lastIndex_nth [OF Some] Cons.prems len
      by (auto, metis len nth_map nth_take order_less_le_trans)
    obtain c' oc' where rec: "rec (cs ! i) oc = (c', oc')" by fastforce
    then have "nname c' = nname oc" using assms(1) [of "cs ! i" oc] by simp
    then have names: "map nname (cs[i := c']) = map nname cs"
      using i len by (metis list_update_id map_update nth_map order_less_le_trans)
    have "nname oc \<in> set ks" using Some by (metis lastIndex_None option.distinct(1))
    then show ?thesis
      using Cons.IH [of "cs[i := c']"] Cons.prems names Some rec
      by (simp add: mergeMapKids_proj del: map_update mergeMapKids.simps)
  qed
qed simp

subsection \<open>Maps of scalars\<close>

fun scalarOf :: "nvalue \<Rightarrow> string" where
  "scalarOf (ScalarValue s) = s"
| "scalarOf _ = []"

definition isScalar :: "node \<Rightarrow> bool" where
  "isScalar n = (\<exists>s. nval n = ScalarValue s)"

definition flat :: "node \<Rightarrow> bool" where
  "flat n = (nval n = MapValue \<and> distinct (map nname (nkids n)) \<and> (\<forall>c \<in> set (nkids n). isScalar c))"

definition scalars :: "node \<Rightarrow> env" where
  "scalars n = map (\<lambda>c. (nname c, scalarOf (nval c))) (nkids n)"

lemma isScalar_simp [simp]: "isScalar (Node n v cs l c) = (\<exists>s. v = ScalarValue s)"
  by (simp add: isScalar_def)

lemma map_of_scalars: "map_of (scalars n) k = map_option (\<lambda>c. scalarOf (nval c)) (FindChild n k)"
proof -
  have "map_of (map (\<lambda>c. (nname c, f c)) cs) k = map_option f (findNamed k cs)" for f :: "node \<Rightarrow> string" and cs
    by (induction cs) auto
  then show ?thesis by (simp add: scalars_def FindChild_def)
qed

lemma mergeMapKids_snd:
  "\<forall>a. \<forall>oc \<in> set ocs. snd (rec a oc) = oc \<Longrightarrow> snd (mergeMapKids rec ks cs ocs) = ocs"
proof (induction ocs arbitrary: cs)
  case (Cons oc ocs)
  then show ?case by (simp add: mergeMapKids_proj del: mergeMapKids.simps split: option.splits)
qed simp

lemma MergeFrom2_scalar:
  assumes "isScalar b"
  shows "snd (MergeFrom2 a b) = b" and "nval (MergeFrom a b) = nval b"
  using assms mergeBody_scalar [of b _ MergeFrom2 a]
  by (auto simp: MergeFrom_def MergeFrom_unfold [of a b] isScalar_def)

lemma MergeFrom_kid_names:
  assumes "nval a = MapValue" and "nval b = MapValue"
  shows "map nname (nkids (MergeFrom a b)) =
    map nname (nkids a) @ filter (\<lambda>k. k \<notin> nname ` set (nkids a)) (map nname (nkids b))"
proof -
  have "nname (fst (MergeFrom2 x y)) = nname y" for x y
    using MergeFrom_name [of x y] by (simp add: MergeFrom_def)
  then have "map nname (fst (mergeMapKids MergeFrom2 (map nname (nkids a)) (nkids a) (nkids b))) =
    map nname (nkids a) @ filter (\<lambda>k. k \<notin> nname ` set (nkids a)) (map nname (nkids b))"
    using mergeMapKids_names [of MergeFrom2 "map nname (nkids a)" "nkids a" "nkids b"] by simp
  then show ?thesis
    by (simp add: MergeFrom_def MergeFrom_unfold [of a b] mergeBody_map assms case_prod_unfold Let_def)
qed

lemma MergeFrom_value_map:
  "nval b = MapValue \<Longrightarrow> nval a = MapValue \<Longrightarrow> nval (MergeFrom a b) = MapValue"
  by (simp add: MergeFrom_def MergeFrom_unfold [of a b] mergeBody_map split: prod.splits)

lemma FindChild_kid:
  "distinct (map nname (nkids n)) \<Longrightarrow> c \<in> set (nkids n) \<Longrightarrow> FindChild n (nname c) = Some c"
  using findNamed_nth [of "nkids n"] by (auto simp: FindChild_def in_set_conv_nth)

lemma FindChild_mem: "FindChild n k = Some c \<Longrightarrow> c \<in> set (nkids n) \<and> nname c = k"
  by (auto simp: FindChild_def find_Some_iff)

lemma merge_flat:
  assumes a: "flat a" and b: "flat b"
  shows "flat (MergeFrom a b)" and "snd (MergeFrom2 a b) = b"
    and "map_of (scalars (MergeFrom a b)) = map_of (scalars a) ++ map_of (scalars b)"
proof -
  have vals: "nval a = MapValue" "nval b = MapValue"
    and dist: "distinct (map nname (nkids a))" "distinct (map nname (nkids b))"
    using a b by (simp_all add: flat_def)
  note law = MergeFrom_map_find [OF vals dist]
  have "distinct (map nname (nkids (MergeFrom a b)))"
    using dist by (auto simp: MergeFrom_kid_names [OF vals])
  moreover have "isScalar c" if "c \<in> set (nkids (MergeFrom a b))" for c
  proof -
    have "FindChild (MergeFrom a b) (nname c) = Some c"
      using \<open>distinct (map nname (nkids (MergeFrom a b)))\<close> that by (rule FindChild_kid)
    then consider "FindChild a (nname c) = Some c" | "FindChild b (nname c) = Some c"
      | x y where "FindChild b (nname c) = Some y" "c = MergeFrom x y"
      using law [of "nname c"] by (auto split: option.splits)
    then show ?thesis
    proof cases
      case 1
      then show ?thesis using a FindChild_mem [OF 1] by (simp add: flat_def)
    next
      case 2
      then show ?thesis using b FindChild_mem [OF 2] by (simp add: flat_def)
    next
      case 3
      have "y \<in> set (nkids b)" using FindChild_mem [OF 3(1)] ..
      then have "isScalar y" using b unfolding flat_def by blast
      then have "nval c = nval y" using 3(2) MergeFrom2_scalar(2) [of y x] by blast
      then show ?thesis using \<open>isScalar y\<close> unfolding isScalar_def by metis
    qed
  qed
  ultimately show "flat (MergeFrom a b)"
    by (simp add: flat_def MergeFrom_value_map vals)
  have "snd (mergeMapKids MergeFrom2 (map nname (nkids a)) (nkids a) (nkids b)) = nkids b"
    using b by (intro mergeMapKids_snd) (simp add: flat_def MergeFrom2_scalar(1))
  then show "snd (MergeFrom2 a b) = b"
    by (simp add: MergeFrom_unfold [of a b] mergeBody_map vals case_prod_unfold Let_def)
  show "map_of (scalars (MergeFrom a b)) = map_of (scalars a) ++ map_of (scalars b)"
  proof
    fix k
    show "map_of (scalars (MergeFrom a b)) k = (map_of (scalars a) ++ map_of (scalars b)) k"
      using b FindChild_mem [of b k]
      by (auto simp: map_of_scalars law map_add_def flat_def MergeFrom2_scalar(2) split: option.splits)
  qed
qed

lemma merge_virtual_flat:
  assumes "flat b"
  shows "MergeFrom2 virtualNode b = (b, b)"
proof -
  have "nval b = MapValue" using assms by (simp add: flat_def)
  then show ?thesis
    using mergeBody_other_type [of virtualNode b MergeFrom2] MergeFrom_unfold [of virtualNode b]
    by (cases b) simp
qed

lemma putPath_GetPath: "GetPath tree q = Some n \<Longrightarrow> putPath q n tree = tree"
proof (induction q arbitrary: tree)
  case (Cons i q)
  then show ?case by (auto split: if_splits)
qed simp

definition flatAt :: "node \<Rightarrow> path \<Rightarrow> bool" where
  "flatAt tree q = (case GetPath tree q of None \<Rightarrow> False | Some n \<Rightarrow> flat n)"

definition scalarsAt :: "node \<Rightarrow> path \<Rightarrow> (string \<rightharpoonup> string)" where
  "scalarsAt tree q = (case GetPath tree q of None \<Rightarrow> Map.empty | Some n \<Rightarrow> map_of (scalars n))"

lemma fold_mergeAt_flat:
  assumes "flat v" and "\<forall>q \<in> set qs. flatAt tree q"
  shows "\<exists>w. fold mergeAt qs (v, tree) = (w, tree) \<and> flat w \<and>
    map_of (scalars w) = foldl (\<lambda>m q. m ++ scalarsAt tree q) (map_of (scalars v)) qs"
  using assms
proof (induction qs arbitrary: v)
  case (Cons q qs)
  then obtain n where n: "GetPath tree q = Some n" "flat n"
    by (auto simp: flatAt_def split: option.splits)
  have "mergeAt q (v, tree) = (MergeFrom v n, tree)"
    using n merge_flat(2) [OF Cons.prems(1) n(2)] putPath_GetPath [OF n(1)]
    by (auto simp: mergeAt_def MergeFrom_def split: prod.splits)
  then show ?case
    using Cons.IH [of "MergeFrom v n"] Cons.prems n merge_flat(1,3) [OF Cons.prems(1) n(2)]
    by (simp add: scalarsAt_def)
qed simp

lemma splitUnique_distinct:
  "distinct (map nname cs) \<Longrightarrow> nname ` set cs \<inter> set seen = {} \<Longrightarrow> splitUnique seen cs = (cs, [])"
  by (induction cs arbitrary: seen) auto

lemma Deduplicate_distinct: "distinct (map nname (nkids n)) \<Longrightarrow> Deduplicate n = n"
  by (subst Deduplicate.simps) (simp add: splitUnique_distinct)

section \<open>Properties\<close>

text \<open>
  C7. Merging one configuration map into another keeps the order and the names of the receiver's
  children, appends the new names of the argument in their order, and never introduces a duplicate;
  looking a child up gives the merge of the two children where both maps have it, and the only one
  there is otherwise.
\<close>

theorem MergeFrom_map_law:
  assumes "nval a = MapValue" and "nval b = MapValue"
    and "distinct (map nname (nkids a))" and "distinct (map nname (nkids b))"
  shows "map nname (nkids (MergeFrom a b)) =
      map nname (nkids a) @ filter (\<lambda>k. k \<notin> nname ` set (nkids a)) (map nname (nkids b)) \<and>
    distinct (map nname (nkids (MergeFrom a b))) \<and>
    FindChild (MergeFrom a b) k =
      (case FindChild b k of
         None \<Rightarrow> FindChild a k
       | Some y \<Rightarrow> Some (case FindChild a k of None \<Rightarrow> y | Some x \<Rightarrow> MergeFrom x y))"
  using assms by (auto simp: MergeFrom_kid_names MergeFrom_map_find)

theorem MergeFrom_map_law_witness:
  "map nname (nkids (MergeFrom
      (Node ''container'' MapValue [Node ''image'' (ScalarValue ''a'') [] 1 1, Node ''cpu'' (ScalarValue ''2'') [] 2 1] 1 1)
      (Node ''container'' MapValue [Node ''cpu'' (ScalarValue ''4'') [] 7 1, Node ''memory'' (ScalarValue ''8G'') [] 8 1] 6 1)))
   = [''image'', ''cpu'', ''memory'']"
  using MergeFrom_map_law [of
      "Node ''container'' MapValue [Node ''image'' (ScalarValue ''a'') [] 1 1, Node ''cpu'' (ScalarValue ''2'') [] 2 1] 1 1"
      "Node ''container'' MapValue [Node ''cpu'' (ScalarValue ''4'') [] 7 1, Node ''memory'' (ScalarValue ''8G'') [] 8 1] 6 1" "''cpu''"]
  by simp




end

