(* ===== verification/Matrix.thy ===== *)
theory Matrix
  imports Node
begin

text \<open>
  Package \<open>pkg/parser/modifier/matrix\<close>: the expansion of \<open>matrix\<close> nodes. \<open>singlePass\<close> returns
  \<open>Inr None\<close> for \<open>errNoExpansionDone\<close> and \<open>Inr (Some tree)\<close> for the tree it has changed. The loop of
  \<open>ExpandMatrices\<close> has no bound in the code; it is a total function here, by the weight below.
\<close>

definition isTaskLike :: "string \<Rightarrow> bool" where
  "isTaskLike nodeName =
     (HasSuffix nodeName ''task'' \<or> HasSuffix nodeName ''docker_builder'' \<or> HasSuffix nodeName ''pipe'')"

definition newTasks :: "node \<Rightarrow> path \<Rightarrow> path \<Rightarrow> node \<Rightarrow> node list res" where
  "newTasks tree taskPath matrixPath matrixNode =
     (case nval matrixNode of
        MapValue \<Rightarrow>
          mapE (\<lambda>child. DeepCopyWithReplacements tree taskPath matrixPath [child]) (nkids matrixNode)
      | ListValue \<Rightarrow>
          mapE (\<lambda>child.
              if nval child \<noteq> MapValue then
                Inl (ParserError child ''matrix with a list can only contain maps as it's items'' [])
              else DeepCopyWithReplacements tree taskPath matrixPath (nkids child))
            (nkids matrixNode)
      | _ \<Rightarrow> Inl (ParserError matrixNode ''matrix should contain a collection'' []))"

definition singlePass :: "node \<Rightarrow> node option res" where
  "singlePass tree =
     (case DeepFindChild ''matrix'' tree of
        None \<Rightarrow> Inr None
      | Some matrixPath \<Rightarrow>
          (case GetPath tree matrixPath of
             None \<Rightarrow> Inl (Panic ''invalid memory address or nil pointer dereference'')
           | Some matrixNode \<Rightarrow>
               (case FindParent isTaskLike tree matrixPath of
                  None \<Rightarrow> Inl (ParserError matrixNode
                     ''matrix can be defined only under a task, docker_builder or pipe'' [])
                | Some taskPath \<Rightarrow>
                    (case newTasks tree taskPath matrixPath matrixNode of
                       Inl e \<Rightarrow> Inl e
                     | Inr tasks \<Rightarrow>
                         (case ReplaceWith tree taskPath tasks of
                            Inl e \<Rightarrow> Inl e
                          | Inr tree' \<Rightarrow> Inr (Some tree'))))))"

section \<open>Paths\<close>

fun between :: "(string \<Rightarrow> bool) \<Rightarrow> node \<Rightarrow> path \<Rightarrow> bool" where
  "between P n (i # j # p) = (P (nname (nkids n ! i)) \<and> between P (nkids n ! i) (j # p))"
| "between P n _ = True"

lemma GetPath_append: "GetPath n (p @ q) = (case GetPath n p of None \<Rightarrow> None | Some m \<Rightarrow> GetPath m q)"
  by (induction n p rule: GetPath.induct) auto

lemma between_append:
  "GetPath n p = Some m \<Longrightarrow> between P n (p @ q) \<Longrightarrow> between P m q"
proof (induction p arbitrary: n)
  case (Cons i p)
  show ?case
  proof (cases "p @ q")
    case Nil
    then show ?thesis by simp
  next
    case (Cons j r)
    then have "between P (nkids n ! i) (p @ q)" using Cons.prems(2) by simp
    then show ?thesis using Cons.IH [of "nkids n ! i"] Cons.prems(1) by (auto split: if_splits)
  qed
qed simp

lemma between_prefix: "between P n (p @ q) \<Longrightarrow> between P n p"
proof (induction P n p rule: between.induct)
  case (1 P n i j p)
  then show ?case by simp
qed auto

lemma between_inner:
  "GetPath n p = Some m \<Longrightarrow> between P n (p @ q) \<Longrightarrow> p \<noteq> [] \<Longrightarrow> q \<noteq> [] \<Longrightarrow> P (nname m)"
proof (induction p arbitrary: n)
  case (Cons i p)
  obtain j r where "p @ q = j # r" using Cons.prems(4) by (cases "p @ q") auto
  then show ?case
    using Cons by (cases p) (auto split: if_splits)
qed simp

lemma deepFindKids_found:
  "DeepFindChild name n = Some p \<Longrightarrow>
     p \<noteq> [] \<and> between (\<lambda>x. x \<noteq> name) n p \<and> (\<exists>m. GetPath n p = Some m \<and> nname m = name)"
  "deepFindKids name i cs = Some p \<Longrightarrow>
     \<exists>j q. p = (i + j) # q \<and> j < length cs \<and>
       (q = [] \<and> nname (cs ! j) = name \<or>
        nname (cs ! j) \<noteq> name \<and> q \<noteq> [] \<and> between (\<lambda>x. x \<noteq> name) (cs ! j) q \<and>
        (\<exists>m. GetPath (cs ! j) q = Some m \<and> nname m = name))"
proof (induction name n and name i cs arbitrary: p and p rule: DeepFindChild_deepFindKids.induct)
  case (1 name n)
  then obtain j q where "p = j # q" "j < length (nkids n)"
    "q = [] \<and> nname (nkids n ! j) = name \<or>
     nname (nkids n ! j) \<noteq> name \<and> q \<noteq> [] \<and> between (\<lambda>x. x \<noteq> name) (nkids n ! j) q \<and>
        (\<exists>m. GetPath (nkids n ! j) q = Some m \<and> nname m = name)"
    by (auto simp: DeepFindChild.simps)
  then show ?case by (cases q) auto
next
  case (2 name i)
  then show ?case by simp
next
  case (3 name i c cs)
  show ?case
  proof (cases "nname c = name")
    case True
    then show ?thesis using "3.prems" by (intro exI [of _ 0]) auto
  next
    case False
    show ?thesis
    proof (cases "DeepFindChild name c")
      case None
      then have "deepFindKids name (Suc i) cs = Some p" using False "3.prems" by simp
      then obtain j q where "p = (Suc i + j) # q" "j < length cs"
        "q = [] \<and> nname (cs ! j) = name \<or>
         nname (cs ! j) \<noteq> name \<and> q \<noteq> [] \<and> between (\<lambda>x. x \<noteq> name) (cs ! j) q \<and>
         (\<exists>m. GetPath (cs ! j) q = Some m \<and> nname m = name)"
        using "3.IH"(2) [OF False None] by blast
      then show ?thesis by (intro exI [of _ "Suc j"] exI [of _ q]) auto
    next
      case (Some q)
      then show ?thesis using False "3.prems" "3.IH"(1) [OF False Some]
        by (intro exI [of _ 0] exI [of _ q]) auto
    qed
  qed
qed

lemmas DeepFindChild_found = deepFindKids_found(1)

lemma nameAt_eq: "GetPath n p = Some m \<Longrightarrow> nameAt n p = nname m"
  by (simp add: nameAt_def)

lemma findParentRev_found:
  assumes "findParentRev P tree rp = Some tp" and "GetPath tree (rev rp) \<noteq> None"
  shows "\<exists>q T. q \<noteq> [] \<and> rev rp = tp @ q \<and> GetPath tree tp = Some T \<and> P (nname T) \<and>
    between (\<lambda>x. \<not> P x) T q"
  using assms
proof (induction P tree rp rule: findParentRev.induct)
  case (2 P tree i rp)
  obtain m where m: "GetPath tree (rev rp) = Some m" "i < length (nkids m)"
    using "2.prems"(2) by (auto simp: GetPath_append split: option.splits if_splits)
  show ?case
  proof (cases "P (nname m)")
    case True
    then show ?thesis using "2.prems" m by (auto simp: nameAt_eq)
  next
    case False
    then have found: "findParentRev P tree rp = Some tp" using "2.prems"(1) m by (simp add: nameAt_eq)
    have "\<exists>q T. q \<noteq> [] \<and> rev rp = tp @ q \<and> GetPath tree tp = Some T \<and> P (nname T) \<and>
        between (\<lambda>x. \<not> P x) T q"
      using "2.IH" found m False by (auto simp: nameAt_eq)
    then obtain q T where q: "q \<noteq> []" "rev rp = tp @ q" "GetPath tree tp = Some T" "P (nname T)"
      "between (\<lambda>x. \<not> P x) T q" by blast
    have "GetPath T q = Some m" using m(1) q by (simp add: GetPath_append)
    then have "between (\<lambda>x. \<not> P x) T (q @ [i])"
      using q(1,5) False
    proof (induction q arbitrary: T)
      case (Cons k q)
      then show ?case by (cases q) (auto split: if_splits)
    qed simp
    then show ?thesis using q by (intro exI [of _ "q @ [i]"] exI [of _ T]) simp
  qed
qed simp

lemma PathUpwardsUpto_suffix:
  assumes "q \<noteq> []"
  shows "ReversePath (PathUpwardsUpto (p @ q) p) = q"
  using assms
proof (induction q rule: rev_induct)
  case (snoc i q)
  then show ?case by (cases "q = []") (simp_all add: PathUpwardsUpto_def ReversePath_def)
qed simp

lemma DeepCopyWithReplacements_splice:
  assumes "GetPath tree p = Some n" and "GetPath n q = Some m" and "q \<noteq> []"
  shows "DeepCopyWithReplacements tree p (p @ q) ws = Inr (spliceAt q ws n)"
  using assms
  by (simp add: DeepCopyWithReplacements_def PathUpwardsUpto_suffix DeepCopy_def ReplaceWith_def)

section \<open>Every pass makes the tree lighter\<close>

text \<open>
  The weight of a tree: an ordinary node doubles the product of its children, a task raises two to
  that product, and a matrix adds up its items, each counted as itself or as the product of its
  children, whichever is larger. Replacing a matrix by one of its items in each copy of its task
  replaces a power of two by a product of powers whose exponents add up to less.
\<close>

function wt :: "node \<Rightarrow> nat" and wprod :: "node list \<Rightarrow> nat" and wsum :: "node list \<Rightarrow> nat" where
  "wt n = (if nname n = ''matrix'' then 2 + wsum (nkids n)
           else if isTaskLike (nname n) then 2 ^ wprod (nkids n)
           else 2 * wprod (nkids n))"
| "wprod [] = 1"
| "wprod (c # cs) = wt c * wprod cs"
| "wsum [] = 0"
| "wsum (c # cs) = max (wt c) (wprod (nkids c)) + wsum cs"
  by pat_completeness auto
termination
proof (relation "measure (case_sum (\<lambda>n. 2 * size n)
      (case_sum (\<lambda>cs. Suc (2 * size_list size cs)) (\<lambda>cs. Suc (2 * size_list size cs))))", goal_cases)
  case (2 n)
  then show ?case by (cases n) simp
next
  case (3 n)
  then show ?case by (cases n) simp
next
  case (4 n)
  then show ?case by (cases n) simp
next
  case (8 c cs)
  then show ?case by (cases c) simp
qed auto

declare wt.simps [simp del]

lemma wprod_append [simp]: "wprod (xs @ ys) = wprod xs * wprod ys"
  by (induction xs) auto

lemma wt_pos_wprod_pos: "2 \<le> wt n" "1 \<le> wprod cs" "0 \<le> wsum ds"
proof (induction n and cs and ds rule: wt_wprod_wsum.induct)
  case (1 n)
  show ?case
  proof (cases "nname n = ''matrix''")
    case True
    then show ?thesis by (simp add: wt.simps)
  next
    case False
    then have pos: "1 \<le> wprod (nkids n)" using 1 by (cases "isTaskLike (nname n)") auto
    then have "(2::nat) ^ 1 \<le> 2 ^ wprod (nkids n)" by (intro power_increasing) auto
    then show ?thesis using False pos by (simp add: wt.simps)
  qed
next
  case (3 c cs)
  then have "1 * 1 \<le> wt c * wprod cs" by (intro mult_le_mono) auto
  then show ?case by simp
qed auto

lemma wprod_pos [simp]: "0 < wprod cs"
  using wt_pos_wprod_pos(2) [of cs] by simp

lemma wt_pos [simp]: "0 < wt n"
  using wt_pos_wprod_pos(1) [of n] by simp

lemma wprod_nth: "i < length cs \<Longrightarrow> wprod cs = wprod (take i cs) * wt (cs ! i) * wprod (drop (Suc i) cs)"
  by (metis id_take_nth_drop mult.assoc wprod.simps(2) wprod_append)

lemma wprod_update:
  "i < length cs \<Longrightarrow> wprod (cs[i := c]) = wprod (take i cs) * wt c * wprod (drop (Suc i) cs)"
  by (simp add: upd_conv_take_nth_drop)

lemma splice_name [simp]: "nname (spliceAt q ws n) = nname n"
  by (cases "(q, ws, n)" rule: spliceAt.cases) auto

abbreviation ordinary :: "string \<Rightarrow> bool" where
  "ordinary x \<equiv> x \<noteq> ''matrix'' \<and> \<not> isTaskLike x"

lemma wprod_splice:
  assumes "GetPath n q = Some m" and "q \<noteq> []" and "between ordinary n q"
  shows "wprod (nkids (spliceAt q ws n)) * wt m = wprod (nkids n) * wprod ws"
  using assms
proof (induction q ws n rule: spliceAt.induct)
  case (2 i ws n)
  then have i: "i < length (nkids n)" "m = nkids n ! i" by (auto split: if_splits)
  show ?case using i(1) wprod_nth [OF i(1)] i(2) by simp
next
  case (3 i j p ws n)
  then have i: "i < length (nkids n)" by (auto split: if_splits)
  define c where "c = nkids n ! i"
  have c: "GetPath c (j # p) = Some m" "between ordinary c (j # p)" "ordinary (nname c)"
    using "3.prems" i by (auto simp: c_def)
  have IH: "wprod (nkids (spliceAt (j # p) ws c)) * wt m = wprod (nkids c) * wprod ws"
    using "3.IH" [OF i] c by (simp add: c_def)
  have "wt (spliceAt (j # p) ws c) * wt m = wt c * wprod ws"
    using c(3) IH by (simp add: wt.simps)
  then show ?case
    using i wprod_nth [OF i] by (simp add: wprod_update c_def [symmetric])
qed simp

lemma wprod_splice_less:
  assumes "GetPath n q = Some m" and "q \<noteq> []" and "between (\<lambda>x. x \<noteq> ''matrix'') n q"
    and "wprod ws < wt m"
  shows "wprod (nkids (spliceAt q ws n)) < wprod (nkids n)"
  using assms
proof (induction q ws n rule: spliceAt.induct)
  case (2 i ws n)
  then have i: "i < length (nkids n)" "m = nkids n ! i" by (auto split: if_splits)
  show ?case using i(1) wprod_nth [OF i(1)] i(2) "2.prems"(4) by simp
next
  case (3 i j p ws n)
  then have i: "i < length (nkids n)" by (auto split: if_splits)
  define c where "c = nkids n ! i"
  have c: "GetPath c (j # p) = Some m" "between (\<lambda>x. x \<noteq> ''matrix'') c (j # p)" "nname c \<noteq> ''matrix''"
    using "3.prems" i by (auto simp: c_def)
  have IH: "wprod (nkids (spliceAt (j # p) ws c)) < wprod (nkids c)"
    using "3.IH" [OF i] c "3.prems"(4) by (simp add: c_def)
  then have "wt (spliceAt (j # p) ws c) < wt c"
    using c(3) by (simp add: wt.simps)
  then show ?case
    using i wprod_nth [OF i] by (simp add: wprod_update c_def [symmetric])
qed simp

lemma wsum_ge:
  "list_all2 (\<lambda>c w. w \<le> max (wt c) (wprod (nkids c))) cs ws \<Longrightarrow> sum_list ws \<le> wsum cs"
  by (induction rule: list_all2_induct) auto

text \<open>The lists of nodes that replace the matrix, one per new task.\<close>

definition replacements :: "node \<Rightarrow> node list list" where
  "replacements matrixNode =
     (if nval matrixNode = MapValue then map (\<lambda>c. [c]) (nkids matrixNode)
      else map nkids (nkids matrixNode))"

lemma wprod_map_power: "(\<forall>t \<in> set ts. wt t = 2 ^ f t) \<Longrightarrow> wprod ts = 2 ^ sum_list (map f ts)"
  by (induction ts) (simp_all add: power_add)

lemma replacements_weight:
  assumes "nname m = ''matrix''"
  shows "sum_list (map wprod (replacements m)) < wt m"
proof -
  have "sum_list (map wprod (replacements m)) \<le> wsum (nkids m)"
    by (rule wsum_ge) (auto simp: replacements_def list_all2_conv_all_nth)
  then show ?thesis using assms by (simp add: wt.simps)
qed

lemma new_tasks_weight:
  assumes "GetPath T q = Some m" and "q \<noteq> []" and "between ordinary T q" and "nname m = ''matrix''"
    and T: "nname T \<noteq> ''matrix''" "isTaskLike (nname T)"
  shows "wprod (map (\<lambda>ws. spliceAt q ws T) (replacements m)) < wt T"
proof -
  let ?w = "\<lambda>ws. wprod (nkids (spliceAt q ws T))"
  have "sum_list (map ?w wss) * wt m = wprod (nkids T) * sum_list (map wprod wss)" for wss
    by (induction wss) (simp_all add: wprod_splice [OF assms(1-3)] add_mult_distrib add_mult_distrib2)
  then have "sum_list (map ?w (replacements m)) * wt m < wprod (nkids T) * wt m"
    using replacements_weight [OF assms(4)] by simp
  then have "sum_list (map ?w (replacements m)) < wprod (nkids T)" by simp
  moreover have "wprod (map (\<lambda>ws. spliceAt q ws T) (replacements m)) = 2 ^ sum_list (map ?w (replacements m))"
    using T wprod_map_power [of "map (\<lambda>ws. spliceAt q ws T) (replacements m)" "\<lambda>t. wprod (nkids t)"]
    by (simp add: wt.simps [of "spliceAt _ _ _"] comp_def)
  moreover have "wt T = 2 ^ wprod (nkids T)" using T by (simp add: wt.simps)
  ultimately show ?thesis by simp
qed

lemma newTasks_Inr:
  assumes "newTasks tree tp (tp @ q) m = Inr ts"
    and "GetPath tree tp = Some T" and "GetPath T q = Some m" and "q \<noteq> []"
  shows "ts = map (\<lambda>ws. spliceAt q ws T) (replacements m)"
proof (cases "nval m")
  case MapValue
  then have "mapE (\<lambda>c. Inr (spliceAt q [c] T) :: node res) (nkids m) = Inr ts"
    using assms(1) by (simp add: newTasks_def DeepCopyWithReplacements_splice [OF assms(2-)])
  then show ?thesis using MapValue mapE_total [of "nkids m" "\<lambda>c. Inr (spliceAt q [c] T) :: node res" "\<lambda>c. spliceAt q [c] T"]
    by (simp add: replacements_def comp_def)
next
  case ListValue
  note copy = DeepCopyWithReplacements_splice [OF assms(2-)]
  have "list_all2 (\<lambda>c t. (if nval c \<noteq> MapValue then
          Inl (ParserError c ''matrix with a list can only contain maps as it's items'' [])
        else DeepCopyWithReplacements tree tp (tp @ q) (nkids c)) = Inr t) (nkids m) ts"
    using assms(1) ListValue by (simp add: newTasks_def mapE_Inr_iff)
  then have "list_all2 (\<lambda>c t. t = spliceAt q (nkids c) T) (nkids m) ts"
    by (rule list_all2_mono) (auto simp: copy split: if_splits)
  then show ?thesis
    using ListValue by (auto simp: replacements_def list_all2_conv_all_nth intro: nth_equalityI)
qed (use assms(1) in \<open>simp_all add: newTasks_def\<close>)

text \<open>What a successful pass does.\<close>

lemma singlePass_Some:
  assumes "singlePass tree = Inr (Some tree')"
  obtains tp q T m where
    "DeepFindChild ''matrix'' tree = Some (tp @ q)" "tp \<noteq> []" "q \<noteq> []"
    "GetPath tree tp = Some T" "GetPath T q = Some m" "nname m = ''matrix''"
    "isTaskLike (nname T)" "nname T \<noteq> ''matrix''" "between ordinary T q"
    "between (\<lambda>x. x \<noteq> ''matrix'') tree tp"
    "tree' = spliceAt tp (map (\<lambda>ws. spliceAt q ws T) (replacements m)) tree"
proof -
  from assms obtain mp m tp ts where
    found: "DeepFindChild ''matrix'' tree = Some mp" and m: "GetPath tree mp = Some m"
    and parent: "FindParent isTaskLike tree mp = Some tp"
    and tasks: "newTasks tree tp mp m = Inr ts" and repl: "ReplaceWith tree tp ts = Inr tree'"
    by (auto simp: singlePass_def split: option.splits sum.splits)
  have mp: "between (\<lambda>x. x \<noteq> ''matrix'') tree mp" "nname m = ''matrix''"
    using DeepFindChild_found [OF found] m by auto
  obtain q T where q: "q \<noteq> []" "mp = tp @ q" "GetPath tree tp = Some T" "isTaskLike (nname T)"
    "between (\<lambda>x. \<not> isTaskLike x) T q"
    using findParentRev_found [of isTaskLike tree "rev mp" tp] parent m
    by (auto simp: FindParent_def)
  have tp: "tp \<noteq> []" "tree' = spliceAt tp ts tree" using repl by (auto simp: ReplaceWith_def split: if_splits)
  have Tm: "GetPath T q = Some m" using m q by (simp add: GetPath_append)
  have both: "between ordinary T q"
  proof -
    have "between (\<lambda>x. x \<noteq> ''matrix'') T q" using between_append [OF q(3)] mp(1) q(2) by blast
    then show ?thesis using q(5) by (induction q arbitrary: T rule: induct_list012) auto
  qed
  have "nname T \<noteq> ''matrix''" using between_inner [OF q(3)] mp(1) q(1,2) tp(1) by blast
  moreover have "ts = map (\<lambda>ws. spliceAt q ws T) (replacements m)"
    using newTasks_Inr [OF _ q(3) Tm q(1)] tasks q(2) by simp
  ultimately show ?thesis
    using that [of tp q T m] found q Tm tp mp both between_prefix by blast
qed

lemma singlePass_lighter:
  assumes "singlePass tree = Inr (Some tree')"
  shows "wprod (nkids tree') < wprod (nkids tree)"
  using assms
  by (rule singlePass_Some) (auto intro!: wprod_splice_less new_tasks_weight)

function ExpandMatrices :: "node \<Rightarrow> node res" where
  "ExpandMatrices tree =
     (case singlePass tree of
        Inl e \<Rightarrow> Inl e
      | Inr None \<Rightarrow> Inr tree
      | Inr (Some tree') \<Rightarrow> ExpandMatrices tree')"
  by pat_completeness auto
termination
  by (relation "measure (\<lambda>tree. wprod (nkids tree))") (auto simp: singlePass_lighter)

declare ExpandMatrices.simps [simp del]

section \<open>Properties\<close>

text \<open>The names of all the nodes below a node.\<close>

fun descNames :: "node \<Rightarrow> string set" where
  "descNames (Node _ _ cs _ _) = (\<Union>c \<in> set cs. insert (nname c) (descNames c))"

lemma descNames_kids: "descNames n = (\<Union>c \<in> set (nkids n). insert (nname c) (descNames c))"
  by (cases n) simp

lemma DeepFindChild_None:
  "DeepFindChild name n = None \<longleftrightarrow> name \<notin> descNames n"
  "deepFindKids name i cs = None \<longleftrightarrow> (\<forall>c \<in> set cs. nname c \<noteq> name \<and> name \<notin> descNames c)"
proof (induction name n and name i cs rule: DeepFindChild_deepFindKids.induct)
  case (1 name n)
  then show ?case by (auto simp: DeepFindChild.simps descNames_kids [of n])
qed (auto split: option.splits)

lemma singlePass_None: "singlePass tree = Inr None \<longleftrightarrow> ''matrix'' \<notin> descNames tree"
  by (auto simp: singlePass_def DeepFindChild_None(1) [symmetric] split: option.splits sum.splits)

inductive passes :: "node \<Rightarrow> node \<Rightarrow> bool" where
  finished: "passes tree tree"
| pass: "singlePass tree = Inr (Some tree') \<Longrightarrow> passes tree' tree'' \<Longrightarrow> passes tree tree''"

lemma ExpandMatrices_passes: "ExpandMatrices tree = Inr t \<Longrightarrow> passes tree t"
proof (induction tree rule: ExpandMatrices.induct)
  case (1 tree)
  then show ?case
    by (subst (asm) (2) ExpandMatrices.simps)
       (auto split: sum.splits option.splits intro: passes.intros)
qed

text \<open>
  C6. The matrix expansion always returns (\<open>ExpandMatrices\<close> is a total function although the code
  loops without a bound), and when it does not report an error it has been reached by single passes
  and no \<open>matrix\<close> node is left anywhere in the tree; a tree without one is returned unchanged.
\<close>

theorem ExpandMatrices_complete:
  "(case ExpandMatrices tree of
      Inl e \<Rightarrow> \<exists>t. passes tree t \<and> singlePass t = Inl e
    | Inr t \<Rightarrow> passes tree t \<and> ''matrix'' \<notin> descNames t) \<and>
   (''matrix'' \<in> descNames tree \<or> ExpandMatrices tree = Inr tree)"
proof (induction tree rule: ExpandMatrices.induct)
  case (1 tree)
  show ?case
  proof (cases "singlePass tree")
    case (Inl e)
    then show ?thesis
      using singlePass_None [of tree]
      by (auto simp: ExpandMatrices.simps [of tree] intro: passes.finished)
  next
    case (Inr r)
    show ?thesis
    proof (cases r)
      case None
      then show ?thesis
        using Inr singlePass_None [of tree]
        by (auto simp: ExpandMatrices.simps [of tree] intro: passes.finished)
    next
      case (Some t)
      then show ?thesis
        using Inr 1 [OF Inr Some] singlePass_None [of tree]
        by (auto simp: ExpandMatrices.simps [of tree] intro: passes.pass split: sum.splits)
    qed
  qed
qed

text \<open>
  C27. One pass replaces the task that the first matrix belongs to by one copy per item of the
  matrix, in the order of the items; in the copy the matrix node is replaced by the item (for a
  map) or by the fields of the item (for a list), and the rest of the tree stays as it is.
\<close>

theorem singlePass_expands:
  assumes "singlePass tree = Inr (Some tree')"
  shows "\<exists>tp q T m.
    DeepFindChild ''matrix'' tree = Some (tp @ q) \<and> GetPath tree tp = Some T \<and> GetPath T q = Some m \<and>
    isTaskLike (nname T) \<and> nname m = ''matrix'' \<and>
    tree' = spliceAt tp (map (\<lambda>ws. spliceAt q ws T) (replacements m)) tree"
  using assms by (rule singlePass_Some) blast

abbreviation exampleMatrix :: node where
  "exampleMatrix \<equiv> Node ''root'' MapValue
     [Node ''task'' MapValue
        [Node ''matrix'' MapValue
           [Node ''image'' (ScalarValue ''a'') [] 1 1, Node ''image'' (ScalarValue ''b'') [] 2 1] 1 1] 1 1] 0 0"

lemma singlePass_example:
  "singlePass exampleMatrix = Inr (Some (Node ''root'' MapValue
     [Node ''task'' MapValue [Node ''image'' (ScalarValue ''a'') [] 1 1] 1 1,
      Node ''task'' MapValue [Node ''image'' (ScalarValue ''b'') [] 2 1] 1 1] 0 0))"
  by (simp add: singlePass_def DeepFindChild.simps FindParent_def isTaskLike_def HasSuffix_def newTasks_def
      DeepCopyWithReplacements_def PathUpwardsUpto_def ReversePath_def DeepCopy_def ReplaceWith_def nameAt_def)

theorem singlePass_expands_witness:
  "\<exists>tp q T m.
    DeepFindChild ''matrix'' exampleMatrix = Some (tp @ q) \<and> GetPath exampleMatrix tp = Some T \<and>
    GetPath T q = Some m \<and> isTaskLike (nname T) \<and> nname m = ''matrix'' \<and>
    Node ''root'' MapValue
     [Node ''task'' MapValue [Node ''image'' (ScalarValue ''a'') [] 1 1] 1 1,
      Node ''task'' MapValue [Node ''image'' (ScalarValue ''b'') [] 2 1] 1 1] 0 0
    = spliceAt tp (map (\<lambda>ws. spliceAt q ws T) (replacements m)) exampleMatrix"
  by (rule singlePass_expands [OF singlePass_example])



end

