(* ===== verification/Boolevator.thy ===== *)
theory Boolevator
  imports Expander
begin

text \<open>
  Package \<open>pkg/parser/boolevator\<close>: the evaluator of boolean expressions (\<open>only_if\<close>, \<open>skip\<close> and
  others). The grammar is built with the third-party library gval: its \<open>Evaluate\<close> is an argument,
  given the language the code assembles. Matching of regular expressions is an argument too. A value
  of Go's type \<open>interface{}\<close> is a string, an error value or something else.
\<close>

datatype bval = VStr string | VErr err | VOther

type_synonym bfunction = "bval list \<Rightarrow> bval"
type_synonym regexMatch = "string \<Rightarrow> string \<Rightarrow> bool res"

section \<open>operator.go\<close>

fun handleError :: "bval list \<Rightarrow> err option" where
  "handleError [] = None"
| "handleError (VErr e # _) = Some e"
| "handleError (_ # args) = handleError args"

text \<open>The type assertion \<open>v.(string)\<close>.\<close>

fun asString :: "bval \<Rightarrow> string res" where
  "asString (VStr s) = Inr s"
| "asString _ = Inl (Panic ''interface conversion: interface {} is not string'')"

definition parseBoolArg :: "bval \<Rightarrow> bool res" where
  "parseBoolArg v = (case asString v of Inl e \<Rightarrow> Inl e | Inr s \<Rightarrow> ParseBool s)"

definition opNot :: "bval \<Rightarrow> bval res" where
  "opNot parameter =
     (case handleError [parameter] of
        Some e \<Rightarrow> Inl e
      | None \<Rightarrow> (case parseBoolArg parameter of
           Inl e \<Rightarrow> Inl e
         | Inr val \<Rightarrow> Inr (VStr (FormatBool (\<not> val)))))"

definition opIn :: "bval \<Rightarrow> bval \<Rightarrow> bval res" where
  "opIn a b =
     (case handleError [a, b] of
        Some e \<Rightarrow> Inl e
      | None \<Rightarrow> (case (asString b, asString a) of
           (Inl e, _) \<Rightarrow> Inl e
         | (_, Inl e) \<Rightarrow> Inl e
         | (Inr s, Inr sub) \<Rightarrow> Inr (VStr (FormatBool (Contains s sub)))))"

definition boolOp :: "(bool \<Rightarrow> bool \<Rightarrow> bool) \<Rightarrow> bval \<Rightarrow> bval \<Rightarrow> bval res" where
  "boolOp f a b =
     (case handleError [a, b] of
        Some e \<Rightarrow> Inl e
      | None \<Rightarrow> (case parseBoolArg a of
           Inl e \<Rightarrow> Inl e
         | Inr left \<Rightarrow> (case parseBoolArg b of
              Inl e \<Rightarrow> Inl e
            | Inr right \<Rightarrow> Inr (VStr (FormatBool (f left right))))))"

definition opAnd :: "bval \<Rightarrow> bval \<Rightarrow> bval res" where
  "opAnd = boolOp (\<and>)"

definition opOr :: "bval \<Rightarrow> bval \<Rightarrow> bval res" where
  "opOr = boolOp (\<or>)"

definition opEquals :: "bval \<Rightarrow> bval \<Rightarrow> bval res" where
  "opEquals a b =
     (case handleError [a, b] of Some e \<Rightarrow> Inl e | None \<Rightarrow> Inr (VStr (FormatBool (a = b))))"

definition opNotEquals :: "bval \<Rightarrow> bval \<Rightarrow> bval res" where
  "opNotEquals a b =
     (case handleError [a, b] of Some e \<Rightarrow> Inl e | None \<Rightarrow> Inr (VStr (FormatBool (a \<noteq> b))))"

definition PrepareRegexp :: "string \<Rightarrow> string" where
  "PrepareRegexp r = ''(?s)(?i)^'' @ r @ ''$''"

definition opRegexEquals :: "regexMatch \<Rightarrow> bval \<Rightarrow> bval \<Rightarrow> bval res" where
  "opRegexEquals matchString a b =
     (case handleError [a, b] of
        Some e \<Rightarrow> Inl e
      | None \<Rightarrow> (case (asString b, asString a) of
           (Inl e, _) \<Rightarrow> Inl e
         | (_, Inl e) \<Rightarrow> Inl e
         | (Inr r, Inr s) \<Rightarrow> (case matchString (PrepareRegexp r) s of
              Inl e \<Rightarrow> Inl e
            | Inr matches \<Rightarrow> Inr (VStr (FormatBool matches)))))"

text \<open>An error of the regular expression, unlike a panic, is dropped by the code.\<close>

definition opRegexNotEquals :: "regexMatch \<Rightarrow> bval \<Rightarrow> bval \<Rightarrow> bval res" where
  "opRegexNotEquals matchString a b =
     (case handleError [a, b] of
        Some e \<Rightarrow> Inl e
      | None \<Rightarrow> (case opRegexEquals matchString a b of
           Inl (Panic m) \<Rightarrow> Inl (Panic m)
         | Inl e \<Rightarrow> Inr (VStr [])
         | Inr result \<Rightarrow> Inr (VStr (FormatBool (result = VStr ''false'')))))"

section \<open>boolevator.go\<close>

function trimAllQuotes :: "string \<Rightarrow> string" where
  "trimAllQuotes text =
     (if length text < 2 then text
      else if hd text = last text \<and> (hd text = CHR 0x22 \<or> hd text = CHR 0x27)
           then trimAllQuotes (butlast (tl text))
           else text)"
  by pat_completeness auto
termination
  by (relation "measure length") auto

declare trimAllQuotes.simps [simp del]

definition WithExpandedArguments :: "bfunction \<Rightarrow> env \<Rightarrow> bfunction" where
  "WithExpandedArguments f env arguments =
     f (map (\<lambda>a. case a of VStr s \<Rightarrow> VStr (ExpandEnvironmentVariables s env) | _ \<Rightarrow> a) arguments)"

text \<open>
  The language handed to gval: the constants, the evaluation of string tokens and of \<open>$NAME\<close> and
  \<open>${NAME}\<close>, the prefix and infix operators with their precedences and the functions.
\<close>

record language =
  constants :: "(string \<times> bval) list"
  stringToken :: "string \<Rightarrow> bval"
  variable :: "string \<Rightarrow> bval"
  prefixOps :: "(string \<times> nat \<times> (bval \<Rightarrow> bval res)) list"
  infixOps :: "(string \<times> nat \<times> (bval \<Rightarrow> bval \<Rightarrow> bval res)) list"
  langFunctions :: "(string \<times> bfunction) list"

definition localEnv :: "env \<Rightarrow> env" where
  "localEnv env = map (\<lambda>(key, val). (key, ExpandEnvironmentVariables val env)) env"

definition evalLanguage :: "regexMatch \<Rightarrow> (string \<times> bfunction) list \<Rightarrow> env \<Rightarrow> language" where
  "evalLanguage matchString funs env =
     \<lparr>constants = [(''true'', VStr ''true''), (''false'', VStr ''false'')],
      stringToken = (\<lambda>text. VStr (trimAllQuotes text)),
      variable = (\<lambda>name. VStr (mget (localEnv env) name)),
      prefixOps = [(''!'', 14, opNot)],
      infixOps = [(''in'', 10, opIn), (''&&'', 4, opAnd), (''||'', 3, opOr),
        (''=='', 8, opEquals), (''!='', 8, opNotEquals),
        (''=~'', 8, opRegexEquals matchString), (''!=~'', 8, opRegexNotEquals matchString)],
      langFunctions = map (\<lambda>(name, f). (name, WithExpandedArguments f (localEnv env))) funs\<rparr>"

type_synonym gval = "language \<Rightarrow> string \<Rightarrow> bval res"

definition Eval :: "gval \<Rightarrow> regexMatch \<Rightarrow> (string \<times> bfunction) list \<Rightarrow> string \<Rightarrow> env \<Rightarrow> bool res" where
  "Eval evaluate matchString funs expr env =
     (case evaluate (evalLanguage matchString funs env) expr of
        Inl (Panic m) \<Rightarrow> Inl (Panic m)
      | Inl e \<Rightarrow> Inl (Plain ''internal boolevator error: %v'' [expr])
      | Inr result \<Rightarrow> (case asString result of
           Inl e \<Rightarrow> Inl e
         | Inr s \<Rightarrow> (case ParseBool s of
              Inl e \<Rightarrow> Inl (Plain ''internal boolevator error: %v'' [expr])
            | Inr b \<Rightarrow> Inr b)))"

section \<open>Facts\<close>

lemma trimAllQuotes_quoted:
  assumes "q \<in> {CHR 0x22, CHR 0x27}"
  shows "trimAllQuotes (q # s @ [q]) = trimAllQuotes s"
  using assms by (subst trimAllQuotes.simps) auto

lemma trimAllQuotes_fixed:
  "trimAllQuotes (trimAllQuotes s) = trimAllQuotes s"
proof (induction s rule: trimAllQuotes.induct)
  case (1 t)
  show ?case
  proof (cases "2 \<le> length t \<and> hd t = last t \<and> (hd t = CHR 0x22 \<or> hd t = CHR 0x27)")
    case True
    then have "trimAllQuotes t = trimAllQuotes (butlast (tl t))"
      by (subst trimAllQuotes.simps) auto
    then show ?thesis using 1 True by auto
  next
    case False
    then have "trimAllQuotes t = t" by (subst trimAllQuotes.simps) auto
    then show ?thesis by simp
  qed
qed

lemma trimAllQuotes_infix: "\<exists>a b. t = a @ trimAllQuotes t @ b \<and> length a = length b"
proof (induction t rule: trimAllQuotes.induct)
  case (1 t)
  show ?case
  proof (cases "2 \<le> length t \<and> hd t = last t \<and> (hd t = CHR 0x22 \<or> hd t = CHR 0x27)")
    case True
    then have eq: "trimAllQuotes t = trimAllQuotes (butlast (tl t))"
      by (subst trimAllQuotes.simps) auto
    obtain a b where ab: "butlast (tl t) = a @ trimAllQuotes (butlast (tl t)) @ b" "length a = length b"
      using 1 True by auto
    have "t = hd t # butlast (tl t) @ [last t]"
      using True by (cases t; cases "tl t" rule: rev_cases) auto
    then have "t = (hd t # a) @ trimAllQuotes t @ (b @ [last t])"
      using ab(1) eq by (metis append.assoc append_Cons)
    then show ?thesis using ab(2) by (metis length_Cons length_append_singleton)
  next
    case False
    then have "trimAllQuotes t = t" by (subst trimAllQuotes.simps) auto
    then show ?thesis by (intro exI [of _ "[]"]) simp
  qed
qed

lemma boolOp_error: "boolOp f (VErr e) b = Inl e" "boolOp f (VStr s) (VErr e) = Inl e"
  by (simp_all add: boolOp_def)

lemma boolOp_bool [simp]:
  "boolOp f (VStr (FormatBool x)) (VStr (FormatBool y)) = Inr (VStr (FormatBool (f x y)))"
  by (simp add: boolOp_def parseBoolArg_def)

lemma opNot_bool [simp]: "opNot (VStr (FormatBool x)) = Inr (VStr (FormatBool (\<not> x)))"
  by (simp add: opNot_def parseBoolArg_def)

lemma opRegexEquals_strings:
  "opRegexEquals matchString (VStr s) (VStr r) =
     (case matchString (PrepareRegexp r) s of Inl e \<Rightarrow> Inl e | Inr m \<Rightarrow> Inr (VStr (FormatBool m)))"
  by (simp add: opRegexEquals_def)

lemma map_of_localEnv: "map_of (localEnv env) k = map_option (\<lambda>v. ExpandEnvironmentVariables v env) (map_of env k)"
  by (simp add: localEnv_def map_of_map)

section \<open>Properties\<close>

text \<open>
  The operators compute the boolean connectives on the strings \<open>true\<close> and \<open>false\<close>, \<open>!=\<close> and
  \<open>!=~\<close> are the negations of \<open>==\<close> and \<open>=~\<close>, and an error value that a user function returned is
  propagated by every operator, the left operand's first.
\<close>

theorem operators_correct:
  "opNot (VStr (FormatBool x)) = Inr (VStr (FormatBool (\<not> x))) \<and>
   opAnd (VStr (FormatBool x)) (VStr (FormatBool y)) = Inr (VStr (FormatBool (x \<and> y))) \<and>
   opOr (VStr (FormatBool x)) (VStr (FormatBool y)) = Inr (VStr (FormatBool (x \<or> y))) \<and>
   opIn (VStr s) (VStr t) = Inr (VStr (FormatBool (\<exists>u v. t = u @ s @ v))) \<and>
   opEquals (VStr s) (VStr t) = Inr (VStr (FormatBool (s = t))) \<and>
   opNotEquals (VStr s) (VStr t) = Inr (VStr (FormatBool (s \<noteq> t))) \<and>
   (\<forall>m. matchString (PrepareRegexp r) s = Inr m \<longrightarrow>
      opRegexEquals matchString (VStr s) (VStr r) = Inr (VStr (FormatBool m)) \<and>
      opRegexNotEquals matchString (VStr s) (VStr r) = Inr (VStr (FormatBool (\<not> m)))) \<and>
   opNot (VErr e) = Inl e \<and>
   (\<forall>f \<in> {opIn, opAnd, opOr, opEquals, opNotEquals, opRegexEquals matchString, opRegexNotEquals matchString}.
      f (VErr e) v = Inl e \<and> f (VStr s) (VErr e) = Inl e)"
proof -
  have regex: "opRegexNotEquals matchString (VStr s) (VStr r) = Inr (VStr (FormatBool (\<not> m)))"
    if "matchString (PrepareRegexp r) s = Inr m" for m
    using that by (cases m) (simp_all add: opRegexNotEquals_def opRegexEquals_strings FormatBool_def)
  show ?thesis
    using regex
    by (auto simp: opAnd_def opOr_def opIn_def opEquals_def opNotEquals_def boolOp_error opNot_def
        parseBoolArg_def opRegexEquals_def opRegexNotEquals_def Contains_iff)
qed

theorem operators_correct_witness:
  "opRegexNotEquals (\<lambda>r s. Inr False) (VStr ''main'') (VStr ''dev'') = Inr (VStr ''true'')"
  using operators_correct [of True True "''main''" "''main''" "\<lambda>r s. Inr False" "''dev''" "Panic []" "VOther"]
  by (auto simp: FormatBool_def)

text \<open>
  \<open>trimAllQuotes\<close> removes all the matching pairs of outer quotes and nothing else: the result is
  the middle of the text, it is not quoted any more, and quoting a text does not change the result.
\<close>

theorem trimAllQuotes_correct:
  "(\<exists>a b. text = a @ trimAllQuotes text @ b \<and> length a = length b) \<and>
   trimAllQuotes (trimAllQuotes text) = trimAllQuotes text \<and>
   trimAllQuotes (CHR 0x22 # text @ [CHR 0x22]) = trimAllQuotes text \<and>
   trimAllQuotes (CHR 0x27 # text @ [CHR 0x27]) = trimAllQuotes text"
  by (simp add: trimAllQuotes_infix trimAllQuotes_fixed trimAllQuotes_quoted)

text \<open>
  A regular expression that does not compile makes \<open>=~\<close> fail, while \<open>!=~\<close> returns the empty string
  without an error.
\<close>

lemma opRegexNotEquals_drops_error:
  assumes "matchString (PrepareRegexp r) s = Inl (Plain m args)"
  shows "opRegexEquals matchString (VStr s) (VStr r) = Inl (Plain m args)"
    and "opRegexNotEquals matchString (VStr s) (VStr r) = Inr (VStr [])"
  using assms by (simp_all add: opRegexNotEquals_def opRegexEquals_strings)

end
