(* ===== verification/Accessor.thy ===== *)
theory Accessor
  imports Node Environ Expander Boolevator
begin

text \<open>
  Package \<open>pkg/parser/node\<close> (accessor.go, interface.go): the readers of a node's value. JSON
  marshalling, the parsing of floating-point numbers and the UTF-16/base64 encoding of PowerShell
  scripts are arguments; everything else is spelled out, every error with its position.
\<close>

datatype iface = IStr string | IList "iface list" | IMap "(string \<times> iface) list"

fun ToInterface :: "node \<Rightarrow> iface res" where
  "ToInterface (Node name v cs l c) =
     (case v of
        ScalarValue s \<Rightarrow> Inr (IStr s)
      | ListValue \<Rightarrow> (case mapE ToInterface cs of Inl e \<Rightarrow> Inl e | Inr is \<Rightarrow> Inr (IList is))
      | MapValue \<Rightarrow>
          (case mapE (\<lambda>child. case ToInterface child of Inl e \<Rightarrow> Inl e | Inr i \<Rightarrow> Inr (nname child, i)) cs of
             Inl e \<Rightarrow> Inl e
           | Inr kvs \<Rightarrow> Inr (IMap (mset_all [] kvs)))
      | NilValue \<Rightarrow> Inl (Rich l c ''unconvertible node of type %T'' []))"

definition GetStringValue :: "node \<Rightarrow> string res" where
  "GetStringValue node =
     (case nval node of ScalarValue s \<Rightarrow> Inr s | _ \<Rightarrow> Inl (ParserError node ''not a scalar value'' []))"

definition GetBoolValue :: "(string \<Rightarrow> env \<Rightarrow> bool res) \<Rightarrow> node \<Rightarrow> env \<Rightarrow> bool res" where
  "GetBoolValue eval node env =
     (case GetStringValue node of Inl e \<Rightarrow> Inl e | Inr expression \<Rightarrow> eval expression env)"

definition GetExpandedStringValue :: "node \<Rightarrow> env \<Rightarrow> string res" where
  "GetExpandedStringValue node env =
     (case nval node of
        ScalarValue s \<Rightarrow> Inr (ExpandEnvironmentVariables s env)
      | _ \<Rightarrow> Inl (ParserError node ''not a scalar value'' []))"

definition GetCredentials :: "(iface \<Rightarrow> string res) \<Rightarrow> node \<Rightarrow> env \<Rightarrow> string res" where
  "GetCredentials jsonMarshal node env =
     (case nval node of
        ScalarValue _ \<Rightarrow> GetExpandedStringValue node env
      | MapValue \<Rightarrow>
          (case ToInterface node of
             Inl e \<Rightarrow> Inl e
           | Inr i \<Rightarrow> (case jsonMarshal i of
                Inl e \<Rightarrow> Inl (ParserError node ''failed to marshal credentials as JSON: %v'' [])
              | Inr json \<Rightarrow> Inr json))
      | _ \<Rightarrow> Inl (ParserError node ''expected a scalar value or a list with scalar values'' []))"

definition GetSliceOfStrings :: "node \<Rightarrow> string list res" where
  "GetSliceOfStrings node =
     (case nval node of
        ListValue \<Rightarrow>
          mapE (\<lambda>child. case nval child of
              ScalarValue s \<Rightarrow> Inr s
            | _ \<Rightarrow> Inl (ParserError node ''list items should be scalars'' [])) (nkids node)
      | _ \<Rightarrow> Inl (ParserError node ''expected a list'' []))"

definition GetSliceOfNonEmptyStrings :: "node \<Rightarrow> string list res" where
  "GetSliceOfNonEmptyStrings node =
     (case nval node of
        ScalarValue s \<Rightarrow> Inr [s]
      | ListValue \<Rightarrow> GetSliceOfStrings node
      | _ \<Rightarrow> Inl (ParserError node ''expected a scalar value or a list with scalar values'' []))"

text \<open>One item of \<open>GetSliceOfExpandedStrings\<close>: a variable may expand to a flow sequence.\<close>

definition expandItem :: "env \<Rightarrow> string \<Rightarrow> string list" where
  "expandItem env s =
     (let e = ExpandEnvironmentVariables s env
      in if s \<noteq> e \<and> HasPrefix e ''['' \<and> HasSuffix e '']''
         then map TrimSpace (SplitC (CHR '','') (TrimSuffix (TrimPrefix e ''['') '']''))
         else [e])"

definition GetSliceOfExpandedStrings :: "node \<Rightarrow> env \<Rightarrow> string list res" where
  "GetSliceOfExpandedStrings node env =
     (case GetSliceOfNonEmptyStrings node of
        Inl e \<Rightarrow> Inl e
      | Inr ss \<Rightarrow> Inr (concat (map (expandItem env) ss)))"

definition FlattenedValue :: "node \<Rightarrow> string res" where
  "FlattenedValue node =
     (case nval node of
        ScalarValue s \<Rightarrow> Inr s
      | ListValue \<Rightarrow>
          (case mapE (\<lambda>child. case nval child of
               ScalarValue s \<Rightarrow> Inr s
             | _ \<Rightarrow> Inl (ParserError child ''list should only contain scalar values'' [])) (nkids node) of
             Inl e \<Rightarrow> Inl e
           | Inr ss \<Rightarrow> Inr (Join [CHR 0x0A] ss))
      | _ \<Rightarrow> Inl (ParserError node ''expected a scalar value or a list with scalar values'' []))"

definition GetStringMapping :: "node \<Rightarrow> env res" where
  "GetStringMapping node =
     (if nval node \<noteq> MapValue then Inl (ParserError node ''expected a map'' [])
      else foldE (\<lambda>child result. case FlattenedValue child of
              Inl e \<Rightarrow> Inl e
            | Inr v \<Rightarrow> Inr (mset_key (nname child) v result)) (nkids node) [])"

definition expandAll :: "env \<Rightarrow> env \<Rightarrow> env" where
  "expandAll env result = map (\<lambda>(k, v). (k, ExpandEnvironmentVariables v env)) result"

definition GetStringMappingWithExpansion :: "node \<Rightarrow> env \<Rightarrow> env res" where
  "GetStringMappingWithExpansion node env =
     (case GetStringMapping node of Inl e \<Rightarrow> Inl e | Inr result \<Rightarrow> Inr (expandAll env result))"

definition GetFloat64Mapping :: "(string \<Rightarrow> 'f res) \<Rightarrow> node \<Rightarrow> env \<Rightarrow> 'f gomap res" where
  "GetFloat64Mapping parseFloat node env =
     (if nval node \<noteq> MapValue then Inl (ParserError node ''expected a map'' [])
      else foldE (\<lambda>child result. case GetExpandedStringValue child env of
              Inl e \<Rightarrow> Inl e
            | Inr s \<Rightarrow> (case parseFloat s of
                Inl e \<Rightarrow> Inl (ParserError child ''failed to parse a floating-point value: %v'' [])
              | Inr f \<Rightarrow> Inr (mset_key (nname child) f result))) (nkids node) [])"

definition scriptChild :: "(string \<Rightarrow> string res) \<Rightarrow> node \<Rightarrow> string list res" where
  "scriptChild psEncode child =
     (case nval child of
        ScalarValue s \<Rightarrow> Inr (SplitC (CHR 0x0A) s)
      | MapValue \<Rightarrow>
          (case FindChild child ''ps'' of
             Some psNode \<Rightarrow>
               (case GetStringValue psNode of
                  Inl e \<Rightarrow> Inl e
                | Inr ps \<Rightarrow> (case psEncode ps of
                     Inl e \<Rightarrow> Inl (ParserError child ''failed to encode Powershell script: %v'' [])
                   | Inr enc \<Rightarrow> Inr [''powershell.exe -OutputFormat Text -NoLogo -EncodedCommand '' @ enc]))
           | None \<Rightarrow>
               mapE (\<lambda>subChild. case nval subChild of
                   ScalarValue s \<Rightarrow> Inr (nname subChild @ '': '' @ s)
                 | _ \<Rightarrow> Inl (ParserError subChild ''unsupported script syntax'' [])) (nkids child))
      | _ \<Rightarrow> Inr [])"

definition GetScript :: "(string \<Rightarrow> string res) \<Rightarrow> node \<Rightarrow> string list res" where
  "GetScript psEncode node =
     (case nval node of
        ScalarValue s \<Rightarrow> Inr (SplitC (CHR 0x0A) s)
      | ListValue \<Rightarrow>
          (case mapE (scriptChild psEncode) (nkids node) of Inl e \<Rightarrow> Inl e | Inr lss \<Rightarrow> Inr (concat lss))
      | _ \<Rightarrow> Inl (ParserError node ''expected a scalar value or a list with scalar values'' []))"

definition GetMapOrListOfMaps :: "node \<Rightarrow> env res" where
  "GetMapOrListOfMaps node =
     (case nval node of
        MapValue \<Rightarrow> GetStringMapping node
      | ListValue \<Rightarrow>
          foldE (\<lambda>child result. case GetStringMapping child of
              Inl e \<Rightarrow> Inl e
            | Inr childEnv \<Rightarrow> Inr (Merge [result, childEnv])) (nkids node) []
      | _ \<Rightarrow> Inl (ParserError node ''expected a map or a list of maps'' []))"

definition GetMapOrListOfMapsWithExpansion :: "node \<Rightarrow> env \<Rightarrow> env res" where
  "GetMapOrListOfMapsWithExpansion node env =
     (case GetMapOrListOfMaps node of Inl e \<Rightarrow> Inl e | Inr result \<Rightarrow> Inr (expandAll env result))"

section \<open>Facts\<close>

lemma wf_map_expandAll [simp]: "wf_map (expandAll env m) = wf_map m"
  by (simp add: wf_map_def expandAll_def comp_def case_prod_unfold)

lemma GetStringMapping_wf:
  assumes "GetStringMapping node = Inr m"
  shows "wf_map m"
proof -
  have "foldE (\<lambda>child result. case FlattenedValue child of
      Inl e \<Rightarrow> Inl e | Inr v \<Rightarrow> Inr (mset_key (nname child) v result)) (nkids node) [] = Inr m"
    using assms by (simp add: GetStringMapping_def split: if_splits)
  then show ?thesis
    by (rule foldE_invariant [where P = wf_map]) (auto split: sum.splits)
qed

lemma GetMapOrListOfMaps_wf:
  assumes "GetMapOrListOfMaps node = Inr m"
  shows "wf_map m"
proof (cases "nval node")
  case MapValue
  then show ?thesis using assms GetStringMapping_wf by (simp add: GetMapOrListOfMaps_def)
next
  case ListValue
  then have "foldE (\<lambda>child result. case GetStringMapping child of
      Inl e \<Rightarrow> Inl e | Inr childEnv \<Rightarrow> Inr (Merge [result, childEnv])) (nkids node) [] = Inr m"
    using assms by (simp add: GetMapOrListOfMaps_def)
  then show ?thesis
    by (rule foldE_invariant [where P = wf_map]) (auto simp: Merge_wf split: sum.splits)
qed (use assms in \<open>simp_all add: GetMapOrListOfMaps_def\<close>)

lemma FlattenedValue_scalar: "isScalar n \<Longrightarrow> FlattenedValue n = Inr (scalarOf (nval n))"
  by (auto simp: isScalar_def FlattenedValue_def)

lemma foldE_flat:
  assumes "\<forall>c \<in> set cs. isScalar c"
  shows "foldE (\<lambda>child result. case FlattenedValue child of
      Inl e \<Rightarrow> Inl e | Inr v \<Rightarrow> Inr (mset_key (nname child) v result)) cs m
    = Inr (mset_all m (map (\<lambda>c. (nname c, scalarOf (nval c))) cs))"
  using assms by (induction cs arbitrary: m) (simp_all add: FlattenedValue_scalar)

lemma wf_map_scalars: "flat n \<Longrightarrow> wf_map (scalars n)"
  by (simp add: flat_def scalars_def wf_map_def comp_def)

lemma GetStringMapping_flat:
  assumes "flat n"
  shows "\<exists>m. GetStringMapping n = Inr m \<and> wf_map m \<and> map_of m = map_of (scalars n)"
proof -
  have "GetStringMapping n = Inr (mset_all [] (scalars n))"
    using assms by (simp add: GetStringMapping_def foldE_flat flat_def scalars_def)
  then show ?thesis
    using map_of_mset_all [OF wf_map_scalars [OF assms], of "[]"] by auto
qed

lemma Merge_two: "wf_map a \<Longrightarrow> wf_map b \<Longrightarrow> map_of (Merge [a, b]) = map_of a ++ map_of b"
  by (simp add: Merge_lookup)

lemma foldE_merge_flat:
  assumes "\<forall>c \<in> set cs. flat c" and "wf_map m"
  shows "\<exists>r. foldE (\<lambda>child result. case GetStringMapping child of
      Inl e \<Rightarrow> Inl e | Inr childEnv \<Rightarrow> Inr (Merge [result, childEnv])) cs m = Inr r \<and> wf_map r \<and>
    map_of r = foldl (\<lambda>f c. f ++ map_of (scalars c)) (map_of m) cs"
  using assms
proof (induction cs arbitrary: m)
  case (Cons c cs)
  obtain e where e: "GetStringMapping c = Inr e" "wf_map e" "map_of e = map_of (scalars c)"
    using GetStringMapping_flat [of c] Cons.prems(1) by auto
  have merged: "map_of (Merge [m, e]) = map_of m ++ map_of (scalars c)"
    using Merge_two [OF Cons.prems(2) e(2)] e(3) by simp
  have "\<exists>r. foldE (\<lambda>child result. case GetStringMapping child of
      Inl e \<Rightarrow> Inl e | Inr childEnv \<Rightarrow> Inr (Merge [result, childEnv])) cs (Merge [m, e]) = Inr r \<and> wf_map r \<and>
    map_of r = foldl (\<lambda>f c. f ++ map_of (scalars c)) (map_of (Merge [m, e])) cs"
    using Cons.IH [of "Merge [m, e]"] Cons.prems(1) Merge_wf by simp
  then show ?case using e(1) by (simp add: merged)
qed simp

lemma mergeMaps_flat:
  assumes "flat v" and "\<forall>c \<in> set cs. flat c"
  shows "\<exists>w. mergeMaps MergeFrom2 v cs = (Some w, cs) \<and> flat w \<and>
    map_of (scalars w) = foldl (\<lambda>f c. f ++ map_of (scalars c)) (map_of (scalars v)) cs"
  using assms
proof (induction cs arbitrary: v)
  case (Cons c cs)
  have c: "flat c" "nval c = MapValue" using Cons.prems(2) by (auto simp: flat_def)
  have rec: "MergeFrom2 v c = (MergeFrom v c, c)"
    using merge_flat(2) [OF Cons.prems(1) c(1)] by (simp add: MergeFrom_def prod_eq_iff)
  show ?case
    using Cons.IH [OF merge_flat(1) [OF Cons.prems(1) c(1)]] Cons.prems(2) c rec
      merge_flat(3) [OF Cons.prems(1) c(1)]
    by auto
qed simp

lemma flat_rename: "flat v \<Longrightarrow> flat (Node n MapValue (nkids v) l c)"
  by (simp add: flat_def)

lemma scalars_rename [simp]: "scalars (Node n x (nkids v) l c) = scalars v"
  by (simp add: scalars_def)

section \<open>Properties\<close>

text \<open>
  An \<open>env\<close> field given as a list of maps means the same as the single map that merging makes of
  it: reading the list and reading the collapsed node give the same variables, a later map of the
  list overriding an earlier one.
\<close>

theorem env_list_equals_map:
  assumes "nval n = ListValue" and "nkids n \<noteq> []" and "\<forall>c \<in> set (nkids n). flat c"
  shows "\<exists>m m'. GetMapOrListOfMaps n = Inr m \<and>
    GetMapOrListOfMaps (MergeListOfMapsToSingleMap n) = Inr m' \<and> wf_map m \<and> wf_map m' \<and>
    map_of m = map_of m' \<and> map_of m = foldl (\<lambda>f c. f ++ map_of (scalars c)) Map.empty (nkids n)"
proof -
  obtain c cs where kids: "nkids n = c # cs" using assms(2) by (cases "nkids n") auto
  have c: "flat c" "nval c = MapValue" "\<forall>d \<in> set cs. flat d"
    using assms(3) kids by (auto simp: flat_def)
  obtain w where w: "mergeMaps MergeFrom2 c cs = (Some w, cs)" "flat w"
    "map_of (scalars w) = foldl (\<lambda>f c. f ++ map_of (scalars c)) (map_of (scalars c)) cs"
    using mergeMaps_flat [OF c(1,3)] by auto
  have collapsed: "MergeListOfMapsToSingleMap n = Node (nname n) MapValue (nkids w) (nline n) (ncol n)"
    using assms(1) kids c(2) w(1)
    by (simp add: MergeListOfMapsToSingleMap_def collapseWith_def merge_virtual_flat [OF c(1)])
  obtain m' where m': "GetMapOrListOfMaps (MergeListOfMapsToSingleMap n) = Inr m'" "wf_map m'"
    "map_of m' = map_of (scalars w)"
    using GetStringMapping_flat [OF flat_rename [OF w(2), of "nname n" "nline n" "ncol n"]]
    by (auto simp: GetMapOrListOfMaps_def collapsed)
  obtain m where m: "GetMapOrListOfMaps n = Inr m" "wf_map m"
    "map_of m = foldl (\<lambda>f c. f ++ map_of (scalars c)) Map.empty (nkids n)"
    using foldE_merge_flat [of "nkids n" "[]"] assms by (auto simp: GetMapOrListOfMaps_def)
  have "map_of m = map_of m'" using m(3) m'(3) w(3) kids by simp
  then show ?thesis using m m' by blast
qed

abbreviation exampleEnvList :: node where
  "exampleEnvList \<equiv> Node ''env'' ListValue
     [Node [] MapValue [Node ''A'' (ScalarValue ''1'') [] 0 0] 0 0,
      Node [] MapValue [Node ''A'' (ScalarValue ''2'') [] 0 0, Node ''B'' (ScalarValue ''3'') [] 0 0] 0 0] 0 0"

theorem env_list_equals_map_witness:
  "\<exists>m m'. GetMapOrListOfMaps exampleEnvList = Inr m \<and>
    GetMapOrListOfMaps (MergeListOfMapsToSingleMap exampleEnvList) = Inr m' \<and>
    map_of m = map_of m' \<and> map_of m ''A'' = Some ''2''"
proof -
  obtain m m' where "GetMapOrListOfMaps exampleEnvList = Inr m"
    "GetMapOrListOfMaps (MergeListOfMapsToSingleMap exampleEnvList) = Inr m'" "map_of m = map_of m'"
    and m: "map_of m = foldl (\<lambda>f c. f ++ map_of (scalars c)) Map.empty (nkids exampleEnvList)"
    using env_list_equals_map [of exampleEnvList] by (auto simp: flat_def)
  moreover have "map_of m ''A'' = Some ''2''" unfolding m by (simp add: scalars_def)
  ultimately show ?thesis by blast
qed

text \<open>
  The lines of a scalar script joined by line feeds are the script again, and none of them
  contains a line feed; a list script is the concatenation of the lines of its items in order.
\<close>

theorem GetScript_lines:
  "(\<forall>s. nval node = ScalarValue s \<longrightarrow>
      (\<exists>ls. GetScript psEncode node = Inr ls \<and> Join [CHR 0x0A] ls = s \<and> (\<forall>l \<in> set ls. CHR 0x0A \<notin> set l))) \<and>
   (nval node = ListValue \<and> (\<forall>c \<in> set (nkids node). isScalar c) \<longrightarrow>
      GetScript psEncode node = Inr (concat (map (\<lambda>c. SplitC (CHR 0x0A) (scalarOf (nval c))) (nkids node))))"
proof -
  have "mapE (scriptChild psEncode) cs = Inr (map (\<lambda>c. SplitC (CHR 0x0A) (scalarOf (nval c))) cs)"
    if "\<forall>c \<in> set cs. isScalar c" for cs
    using that by (intro mapE_total) (auto simp: scriptChild_def isScalar_def)
  then show ?thesis
    by (auto simp: GetScript_def Join_SplitC dest: SplitC_no_sep)
qed

theorem GetScript_lines_witness:
  "GetScript (\<lambda>_. Inl (Panic [])) (Node ''script'' ListValue
      [Node [] (ScalarValue ''make'') [] 0 0, Node [] (ScalarValue ''make test'') [] 0 0] 0 0)
     = Inr [''make'', ''make test'']"
  using GetScript_lines [of "Node ''script'' ListValue
      [Node [] (ScalarValue ''make'') [] 0 0, Node [] (ScalarValue ''make test'') [] 0 0] 0 0" "\<lambda>_. Inl (Panic [])"]
  by simp

end
