(* ===== verification/NodeYaml.thy ===== *)
theory NodeYaml
  imports Node
begin

text \<open>
  Package \<open>pkg/parser/node\<close> (yaml.go) and \<open>pkg/yamlhelper\<close>: the conversion between the nodes of the
  YAML library and the configuration tree, with anchors, aliases and merge keys. The pointer of an
  alias to its target is an index into the table of the anchored nodes. The conversion keeps the
  \<open>YAMLNode\<close> of every tree node under construction, from which the code reads the anchors of the
  ancestors: they are the argument \<open>anchors\<close>. (The option \<open>WithoutYAMLNode\<close>, which the tests use, is
  left out.)
\<close>

datatype ykind = DocumentNode | SequenceNode | MappingNode | ScalarNode | AliasNode | OtherKind nat

datatype ynode = YNode (ykindOf: ykind) (ytag: string) (yvalue: string) (yanchor: string)
  (ycontent: "ynode list") (yline: int) (ycol: int) (yalias: nat)

definition yamlKindToString :: "ykind \<Rightarrow> string" where
  "yamlKindToString kind =
     (case kind of DocumentNode \<Rightarrow> ''document'' | SequenceNode \<Rightarrow> ''sequence'' | MappingNode \<Rightarrow> ''mapping''
      | ScalarNode \<Rightarrow> ''scalar'' | AliasNode \<Rightarrow> ''alias'' | OtherKind n \<Rightarrow> ''element of kind '' @ FormatUint n)"

definition isEven :: "int \<Rightarrow> bool" where
  "isEven number = (number mod 2 = 0)"

section \<open>Writing\<close>

definition NewSeqNode :: "ynode list \<Rightarrow> ynode" where
  "NewSeqNode content = YNode SequenceNode ''!!seq'' [] [] content 0 0 0"

definition NewMapNode :: "ynode list \<Rightarrow> ynode" where
  "NewMapNode content = YNode MappingNode ''!!map'' [] [] content 0 0 0"

text \<open>\<open>setString\<close> is \<open>SetString\<close> of the YAML library, applied to a new node.\<close>

definition NewStringNode :: "(string \<Rightarrow> ynode) \<Rightarrow> string \<Rightarrow> ynode" where
  "NewStringNode setString t = setString t"

fun MarshalYAML :: "(string \<Rightarrow> ynode) \<Rightarrow> node \<Rightarrow> ynode res" where
  "MarshalYAML setString (Node name v cs l c) =
     (case v of
        MapValue \<Rightarrow>
          (case mapE (\<lambda>child. case MarshalYAML setString child of
                 Inl e \<Rightarrow> Inl e
               | Inr item \<Rightarrow> Inr [NewStringNode setString (nname child), item]) cs of
             Inl e \<Rightarrow> Inl e
           | Inr items \<Rightarrow> Inr (NewMapNode (concat items)))
      | ListValue \<Rightarrow>
          (case mapE (MarshalYAML setString) cs of Inl e \<Rightarrow> Inl e | Inr items \<Rightarrow> Inr (NewSeqNode items))
      | ScalarValue s \<Rightarrow> Inr (NewStringNode setString s)
      | NilValue \<Rightarrow> Inl (Plain ''failed to marshal to YAML: unknown node type: %T'' []))"

section \<open>Reading\<close>

text \<open>\<open>merge\<close>: the value of a merge key, already converted, is merged into the map.\<close>

definition mergeKey :: "(string \<Rightarrow> bool) list \<Rightarrow> ynode \<Rightarrow> node \<Rightarrow> ynode \<Rightarrow> node \<Rightarrow> node res" where
  "mergeKey mergeExemptions parent n val aliasValue =
     (case ykindOf val of
        AliasNode \<Rightarrow>
          (case nval aliasValue of
             MapValue \<Rightarrow> Inr (MergeFromMap n aliasValue mergeExemptions)
           | ListValue \<Rightarrow> Inr (OverwriteWith n aliasValue)
           | _ \<Rightarrow> Inl (Rich (yline parent) (ycol parent)
                ''merge key should either be associated with a mapping or a sequence'' []))
      | SequenceNode \<Rightarrow>
          foldE (\<lambda>aliasValueChild m.
              if \<not> IsMap aliasValueChild then
                Inl (Rich (yline parent) (ycol parent)
                  ''got a sequence as a merge key's value, but not all of it's entries are mappings (as required per spec)'' [])
              else Inr (MergeFromMap m aliasValueChild mergeExemptions))
            (nkids aliasValue) n
      | _ \<Rightarrow> Inr n)"

text \<open>The loop over the key/value pairs of a mapping, \<open>rec\<close> converting a value below the result.\<close>

fun convertPairs ::
  "(string \<Rightarrow> ynode \<Rightarrow> int \<Rightarrow> int \<Rightarrow> node res) \<Rightarrow> (string \<Rightarrow> bool) list \<Rightarrow> ynode \<Rightarrow> ynode list \<Rightarrow> node \<Rightarrow> node res" where
  "convertPairs rec ex parent (key # val # rest) n =
     (if ytag key = ''!!merge'' then
        (case rec [] val 0 0 of
           Inl e \<Rightarrow> Inl e
         | Inr aliasValue \<Rightarrow>
             (case mergeKey ex parent n val aliasValue of
                Inl e \<Rightarrow> Inl e
              | Inr n' \<Rightarrow> convertPairs rec ex parent rest n'))
      else if ytag key \<noteq> ''!!str'' then
        Inl (Rich (yline parent) (ycol parent) ''map key is not a string'' [])
      else
        (case rec (yvalue key) val (yline key) (ycol key) of
           Inl e \<Rightarrow> Inl e
         | Inr sub \<Rightarrow> convertPairs rec ex parent rest (set_kids (nkids n @ [sub]) n)))"
| "convertPairs rec ex parent _ n = Inr n"

definition convertBody ::
  "(string list \<Rightarrow> string \<Rightarrow> ynode \<Rightarrow> int \<Rightarrow> int \<Rightarrow> node res) \<Rightarrow> (string \<Rightarrow> bool) list \<Rightarrow> ynode list \<Rightarrow>
     string list \<Rightarrow> string \<Rightarrow> ynode \<Rightarrow> int \<Rightarrow> int \<Rightarrow> node res" where
  "convertBody rec ex table anchors name y line column =
     (case ykindOf y of
        SequenceNode \<Rightarrow>
          (case mapE (\<lambda>item. rec (yanchor y # anchors) [] item (yline item) (ycol item))
                  (filter (\<lambda>item. ytag item \<noteq> ''!!null'') (ycontent y)) of
             Inl e \<Rightarrow> Inl e
           | Inr kids \<Rightarrow> Inr (Node name ListValue kids line column))
      | MappingNode \<Rightarrow>
          if \<not> isEven (int (length (ycontent y))) then
            Inl (Rich (yline y) (ycol y) ''unbalanced map'' [])
          else
            convertPairs (rec (yanchor y # anchors)) ex y (ycontent y) (Node name MapValue [] line column)
      | ScalarNode \<Rightarrow> Inr (Node name (ScalarValue (yvalue y)) [] line column)
      | AliasNode \<Rightarrow>
          if yvalue y \<in> set anchors then
            Inl (Rich (yline y) (ycol y) (''recursive alias '' @ [CHR 0x27] @ ''%s'' @ [CHR 0x27]) [yvalue y])
          else if yalias y < length table then rec anchors name (table ! yalias y) 0 0
          else Inl (Panic ''invalid memory address or nil pointer dereference'')
      | kind \<Rightarrow> Inl (Rich (yline y) (ycol y) ''unexpected %s'' [yamlKindToString kind]))"

text \<open>
  The depth of the recursion is bounded by \<open>convertDepth\<close>; a deeper one would overflow the stack.
  \<open>convert_unfold\<close> below is the recursion of the code without the bound.
\<close>

fun convertF ::
  "nat \<Rightarrow> (string \<Rightarrow> bool) list \<Rightarrow> ynode list \<Rightarrow> string list \<Rightarrow> string \<Rightarrow> ynode \<Rightarrow> int \<Rightarrow> int \<Rightarrow> node res" where
  "convertF 0 ex table anchors name y line column = Inl (Panic ''stack overflow'')"
| "convertF (Suc fuel) ex table anchors name y line column =
     convertBody (convertF fuel ex table) ex table anchors name y line column"

fun yheight :: "ynode \<Rightarrow> nat" where
  "yheight (YNode _ _ _ _ content _ _ _) = Suc (foldr max (map yheight content) 0)"

definition tableHeight :: "ynode list \<Rightarrow> nat" where
  "tableHeight table = foldr max (map yheight table) 0"

definition convertDepth :: "ynode list \<Rightarrow> ynode \<Rightarrow> nat" where
  "convertDepth table y = yheight y + length table * Suc (tableHeight table)"

definition convert ::
  "(string \<Rightarrow> bool) list \<Rightarrow> ynode list \<Rightarrow> string list \<Rightarrow> string \<Rightarrow> ynode \<Rightarrow> int \<Rightarrow> int \<Rightarrow> node res" where
  "convert ex table anchors name y line column =
     convertF (convertDepth table y) ex table anchors name y line column"

definition NewFromNodeWithMergeExemptions :: "(string \<Rightarrow> bool) list \<Rightarrow> ynode list \<Rightarrow> ynode \<Rightarrow> node res" where
  "NewFromNodeWithMergeExemptions ex table y =
     (if ykindOf y = OtherKind 0 \<or> ycontent y = [] then Inr (Node ''root'' NilValue [] 0 0)
      else if ykindOf y \<noteq> DocumentNode then
        Inl (Rich (yline y) (ycol y) ''expected a YAML document, but got %s'' [yamlKindToString (ykindOf y)])
      else case ycontent y of
          _ # extraneous # _ \<Rightarrow>
            Inl (Rich (yline y) (ycol y) ''YAML document contains extraneous top-level elements, such as %s''
              [yamlKindToString (ykindOf extraneous)])
        | elem # _ \<Rightarrow>
            if ykindOf elem \<noteq> MappingNode then
              Inl (Rich (yline y) (ycol y)
                ''YAML document should contain a mapping as it top-level element, but found %s''
                [yamlKindToString (ykindOf y)])
            else convert ex table [] ''root'' elem (yline y) (ycol y))"

text \<open>\<open>unmarshal\<close> is the YAML library's \<open>Unmarshal\<close>: the document and its anchored nodes.\<close>

definition NewFromTextWithMergeExemptions ::
  "(string \<Rightarrow> (ynode \<times> ynode list) res) \<Rightarrow> string \<Rightarrow> (string \<Rightarrow> bool) list \<Rightarrow> node res" where
  "NewFromTextWithMergeExemptions unmarshal t ex =
     (case unmarshal t of
        Inl e \<Rightarrow> Inl e
      | Inr (y, table) \<Rightarrow> NewFromNodeWithMergeExemptions ex table y)"

definition NewFromText :: "(string \<Rightarrow> (ynode \<times> ynode list) res) \<Rightarrow> string \<Rightarrow> node res" where
  "NewFromText unmarshal t = NewFromTextWithMergeExemptions unmarshal t []"

section \<open>The recursion is bounded\<close>

text \<open>
  What the YAML library guarantees of an alias: it points to a node that carries its anchor, and an
  alias itself has no anchor.
\<close>

fun aliasOk :: "ynode list \<Rightarrow> ynode \<Rightarrow> bool" where
  "aliasOk table (YNode k t v a cs l c i) =
     ((k = AliasNode \<longrightarrow> i < length table \<and> yanchor (table ! i) = v) \<and> (\<forall>c \<in> set cs. aliasOk table c))"

definition tableOk :: "ynode list \<Rightarrow> bool" where
  "tableOk table = (\<forall>y \<in> set table. ykindOf y \<noteq> AliasNode \<and> aliasOk table y)"

definition free :: "ynode list \<Rightarrow> string list \<Rightarrow> nat" where
  "free table anchors = card (yanchor ` set table - set anchors)"

definition depth :: "ynode list \<Rightarrow> string list \<Rightarrow> ynode \<Rightarrow> nat" where
  "depth table anchors y =
     (if ykindOf y = AliasNode then 1 + free table anchors * Suc (tableHeight table)
      else yheight y + free table (yanchor y # anchors) * Suc (tableHeight table))"

lemma max_fold_ge: "n \<in> set ns \<Longrightarrow> n \<le> foldr max ns (0::nat)"
  by (induction ns) auto

lemma yheight_content: "c \<in> set (ycontent y) \<Longrightarrow> Suc (yheight c) \<le> yheight y"
  by (cases y) (simp add: max_fold_ge)

lemma yheight_table: "i < length table \<Longrightarrow> yheight (table ! i) \<le> tableHeight table"
  by (simp add: tableHeight_def max_fold_ge)

lemma free_Cons_le: "free table (a # as) \<le> free table as"
  unfolding free_def by (intro card_mono) auto

lemma free_Cons_less:
  assumes "a \<in> yanchor ` set table" and "a \<notin> set as"
  shows "Suc (free table (a # as)) \<le> free table as"
proof -
  have "yanchor ` set table - set (a # as) = (yanchor ` set table - set as) - {a}" by auto
  then have "free table (a # as) = free table as - 1" "0 < free table as"
    using assms by (auto simp: free_def card_gt_0_iff)
  then show ?thesis by simp
qed

lemma free_le_length: "free table as \<le> length table"
proof -
  have "free table as \<le> card (yanchor ` set table)" unfolding free_def by (intro card_mono) auto
  also have "\<dots> \<le> length table" by (metis card_length length_map set_map)
  finally show ?thesis .
qed

lemma depth_pos: "0 < depth table anchors y"
  by (cases y) (simp add: depth_def)

lemma depth_le_convertDepth: "depth table anchors y \<le> convertDepth table y"
proof -
  have "1 \<le> yheight y" by (cases y) simp
  moreover have "free table as * Suc (tableHeight table) \<le> length table * Suc (tableHeight table)" for as
    by (intro mult_le_mono1 free_le_length)
  from this [of anchors] this [of "yanchor y # anchors"] calculation show ?thesis
    unfolding depth_def convertDepth_def by auto
qed

lemma depth_content:
  assumes "c \<in> set (ycontent y)" and "ykindOf y \<noteq> AliasNode"
  shows "depth table (yanchor y # anchors) c < depth table anchors y"
proof -
  have "Suc (yheight c) \<le> yheight y" using yheight_content [OF assms(1)] .
  moreover have "1 \<le> yheight c" by (cases c) simp
  moreover have "free table (yanchor c # yanchor y # anchors) * Suc (tableHeight table)
      \<le> free table (yanchor y # anchors) * Suc (tableHeight table)"
    by (intro mult_le_mono1 free_Cons_le)
  ultimately show ?thesis using assms(2) unfolding depth_def by auto
qed

lemma depth_alias:
  assumes "ykindOf y = AliasNode" and "aliasOk table y" and "tableOk table" and "yvalue y \<notin> set anchors"
  shows "yalias y < length table" and "depth table anchors (table ! yalias y) < depth table anchors y"
    and "aliasOk table (table ! yalias y)"
proof -
  have i: "yalias y < length table" "yanchor (table ! yalias y) = yvalue y"
    using assms(1,2) by (cases y; simp)+
  then show "yalias y < length table" by simp
  have t: "ykindOf (table ! yalias y) \<noteq> AliasNode" "aliasOk table (table ! yalias y)"
    using assms(3) i(1) by (auto simp: tableOk_def)
  then show "aliasOk table (table ! yalias y)" by simp
  have "yvalue y \<in> yanchor ` set table" using i by (metis image_eqI nth_mem)
  then have "Suc (free table (yvalue y # anchors)) \<le> free table anchors"
    using assms(4) by (rule free_Cons_less)
  then have "Suc (free table (yvalue y # anchors)) * Suc (tableHeight table) \<le> free table anchors * Suc (tableHeight table)"
    by (intro mult_le_mono1)
  then show "depth table anchors (table ! yalias y) < depth table anchors y"
    using assms(1) t(1) i(2) yheight_table [OF i(1)] by (simp add: depth_def)
qed

lemma aliasOk_content: "aliasOk table y \<Longrightarrow> c \<in> set (ycontent y) \<Longrightarrow> aliasOk table c"
  by (cases y) simp

lemma convertPairs_cong:
  assumes "\<And>name y l c. y \<in> set ys \<Longrightarrow> rec name y l c = rec' name y l c"
  shows "convertPairs rec ex parent ys n = convertPairs rec' ex parent ys n"
  using assms
proof (induction rec ex parent ys n rule: convertPairs.induct)
  case (1 rec ex parent key val rest n)
  have "rec name val l c = rec' name val l c" for name l c using "1.prems" by simp
  then show ?case using 1 by (auto split: sum.splits)
qed simp_all

lemma convertBody_cong:
  assumes "\<And>name d l c. ykindOf y \<noteq> AliasNode \<Longrightarrow> d \<in> set (ycontent y) \<Longrightarrow>
      rec (yanchor y # anchors) name d l c = rec' (yanchor y # anchors) name d l c"
    and "ykindOf y = AliasNode \<Longrightarrow> yvalue y \<notin> set anchors \<Longrightarrow>
      rec anchors name (table ! yalias y) 0 0 = rec' anchors name (table ! yalias y) 0 0"
  shows "convertBody rec ex table anchors name y l c = convertBody rec' ex table anchors name y l c"
proof (cases "ykindOf y")
  case SequenceNode
  have "mapE (\<lambda>item. rec (yanchor y # anchors) [] item (yline item) (ycol item))
          (filter (\<lambda>item. ytag item \<noteq> ''!!null'') (ycontent y))
      = mapE (\<lambda>item. rec' (yanchor y # anchors) [] item (yline item) (ycol item))
          (filter (\<lambda>item. ytag item \<noteq> ''!!null'') (ycontent y))"
    using SequenceNode assms(1) by (intro mapE_cong) auto
  then show ?thesis using SequenceNode by (simp add: convertBody_def)
next
  case MappingNode
  have "convertPairs (rec (yanchor y # anchors)) ex y (ycontent y) n
      = convertPairs (rec' (yanchor y # anchors)) ex y (ycontent y) n" for n
    using MappingNode assms(1) by (intro convertPairs_cong) auto
  then show ?thesis using MappingNode by (simp add: convertBody_def)
qed (use assms(2) in \<open>simp_all add: convertBody_def\<close>)

lemma convertF_enough:
  assumes "tableOk table"
  shows "depth table anchors y \<le> fuel \<Longrightarrow> fuel \<le> fuel' \<Longrightarrow> aliasOk table y \<Longrightarrow>
    convertF fuel ex table anchors name y l c = convertF fuel' ex table anchors name y l c"
proof (induction fuel arbitrary: fuel' anchors name y l c)
  case 0
  then show ?case using depth_pos [of table anchors y] by simp
next
  case (Suc fuel)
  then obtain f where f: "fuel' = Suc f" "fuel \<le> f" by (cases fuel') auto
  have "convertF fuel ex table (yanchor y # anchors) name' d l' c'
      = convertF f ex table (yanchor y # anchors) name' d l' c'"
    if "ykindOf y \<noteq> AliasNode" "d \<in> set (ycontent y)" for name' d l' c'
    using depth_content [OF that(2,1), of table anchors] Suc.prems(1,3) that(2)
    by (intro Suc.IH [OF _ f(2)]) (auto intro: aliasOk_content)
  moreover have "convertF fuel ex table anchors name (table ! yalias y) 0 0
        = convertF f ex table anchors name (table ! yalias y) 0 0"
    if "ykindOf y = AliasNode" "yvalue y \<notin> set anchors"
    using depth_alias [OF that(1) Suc.prems(3) assms that(2)] Suc.prems(1) f(2) by (intro Suc.IH) auto
  ultimately show ?case by (simp add: f(1) cong: convertBody_cong)
qed

lemma convert_enough:
  assumes "tableOk table" and "aliasOk table y" and "depth table anchors y \<le> fuel"
  shows "convertF fuel ex table anchors name y l c = convert ex table anchors name y l c"
proof (cases "fuel \<le> convertDepth table y")
  case True
  then show ?thesis unfolding convert_def using assms by (intro convertF_enough) auto
next
  case False
  then show ?thesis unfolding convert_def
    using assms depth_le_convertDepth by (intro convertF_enough [symmetric]) auto
qed

text \<open>The recursion equation of the code: the conversion never runs out of stack.\<close>

lemma convert_unfold:
  assumes "tableOk table" and "aliasOk table y"
  shows "convert ex table anchors name y l c = convertBody (convert ex table) ex table anchors name y l c"
proof -
  define d where "d = depth table anchors y"
  have "convert ex table anchors name y l c = convertF (Suc d) ex table anchors name y l c"
    using assms by (simp only: convert_enough d_def le_SucI order_refl)
  also have "\<dots> = convertBody (convertF d ex table) ex table anchors name y l c" by simp
  also have "\<dots> = convertBody (convert ex table) ex table anchors name y l c"
  proof (rule convertBody_cong)
    fix name e l c
    assume "ykindOf y \<noteq> AliasNode" and "e \<in> set (ycontent y)"
    then show "convertF d ex table (yanchor y # anchors) name e l c = convert ex table (yanchor y # anchors) name e l c"
      using assms depth_content [of e y table anchors]
      by (intro convert_enough) (auto simp: d_def intro: aliasOk_content)
  next
    assume "ykindOf y = AliasNode" and "yvalue y \<notin> set anchors"
    then show "convertF d ex table anchors name (table ! yalias y) 0 0 = convert ex table anchors name (table ! yalias y) 0 0"
      using assms depth_alias [of y table anchors] by (intro convert_enough) (auto simp: d_def)
  qed
  finally show ?thesis .
qed

section \<open>Reading what was written\<close>

text \<open>Trees as they come from a document: scalars have no children, list items no name.\<close>

fun wfTree :: "node \<Rightarrow> bool" where
  "wfTree (Node _ v cs _ _) =
     ((\<forall>c \<in> set cs. wfTree c) \<and>
      (case v of MapValue \<Rightarrow> True | ListValue \<Rightarrow> \<forall>c \<in> set cs. nname c = [] | ScalarValue _ \<Rightarrow> cs = []
       | NilValue \<Rightarrow> False))"

fun zeroPos :: "node \<Rightarrow> node" where
  "zeroPos (Node n v cs _ _) = Node n v (map zeroPos cs) 0 0"

lemma convertPairs_strings:
  assumes "list_all2 (\<lambda>c y. rec (nname c) y 0 0 = Inr (zeroPos c)) cs ys"
  shows "convertPairs rec ex parent
      (concat (map2 (\<lambda>c y. [YNode ScalarNode ''!!str'' (nname c) [] [] 0 0 0, y]) cs ys)) n
    = Inr (set_kids (nkids n @ map zeroPos cs) n)"
  using assms by (induction arbitrary: n rule: list_all2_induct) (simp_all)

definition readsBack :: "(string \<Rightarrow> ynode) \<Rightarrow> (string \<Rightarrow> bool) list \<Rightarrow> node \<Rightarrow> ynode \<Rightarrow> bool" where
  "readsBack setString ex n y \<longleftrightarrow>
     MarshalYAML setString n = Inr y \<and> aliasOk [] y \<and> ytag y \<noteq> ''!!null'' \<and> yline y = 0 \<and> ycol y = 0 \<and>
     (\<forall>anchors. convert ex [] anchors (nname n) y 0 0 = Inr (zeroPos n))"

lemma readsBack_exists:
  assumes set: "\<And>s. setString s = YNode ScalarNode ''!!str'' s [] [] 0 0 0"
  shows "wfTree n \<Longrightarrow> \<exists>y. readsBack setString ex n y"
proof (induction n)
  case (Node name v cs l c)
  have ok: "tableOk []" by (simp add: tableOk_def)
  have "\<forall>k \<in> set cs. \<exists>y. readsBack setString ex k y" using Node by auto
  then obtain f where f: "\<And>k. k \<in> set cs \<Longrightarrow> readsBack setString ex k (f k)" by metis
  have marsh: "MarshalYAML setString k = Inr (f k)" "aliasOk [] (f k)" "ytag (f k) \<noteq> ''!!null''"
    "yline (f k) = 0" "ycol (f k) = 0" "convert ex [] anchors (nname k) (f k) 0 0 = Inr (zeroPos k)"
    if "k \<in> set cs" for k anchors
    using f [OF that] by (simp_all add: readsBack_def)
  show ?case
  proof (cases v)
    case NilValue
    then show ?thesis using Node.prems by simp
  next
    case (ScalarValue s)
    then show ?thesis using Node.prems set
      by (auto simp: readsBack_def NewStringNode_def convert_unfold [OF ok] convertBody_def)
  next
    case ListValue
    define y where "y = NewSeqNode (map f cs)"
    have "mapE (MarshalYAML setString) cs = Inr (map f cs)" using marsh(1) by (rule mapE_total)
    then have "MarshalYAML setString (Node name v cs l c) = Inr y" using ListValue by (simp add: y_def)
    moreover have al: "aliasOk [] y" using marsh(2) by (simp add: y_def NewSeqNode_def)
    moreover have "mapE (\<lambda>item. convert ex [] (yanchor y # anchors) [] item (yline item) (ycol item)) (map f cs)
        = Inr (map zeroPos cs)" for anchors
    proof -
      have "convert ex [] (yanchor y # anchors) [] (f k) (yline (f k)) (ycol (f k)) = Inr (zeroPos k)"
        if "k \<in> set cs" for k
      proof -
        have "nname k = []" using that Node.prems ListValue by simp
        then show ?thesis using marsh(4,5) [OF that] marsh(6) [OF that, of "yanchor y # anchors"] by simp
      qed
      then show ?thesis by (simp add: mapE_Inr_iff list_all2_conv_all_nth)
    qed
    moreover have "filter (\<lambda>item. ytag item \<noteq> ''!!null'') (map f cs) = map f cs"
      using marsh(3) by (auto simp: filter_map intro: filter_True)
    ultimately show ?thesis using ListValue
      by (auto simp: readsBack_def y_def NewSeqNode_def convert_unfold [OF ok] convertBody_def)
  next
    case MapValue
    define y where "y = NewMapNode (concat (map (\<lambda>k. [setString (nname k), f k]) cs))"
    have "mapE (\<lambda>child. case MarshalYAML setString child of Inl e \<Rightarrow> Inl e
        | Inr item \<Rightarrow> Inr [NewStringNode setString (nname child), item]) cs
      = Inr (map (\<lambda>k. [setString (nname k), f k]) cs)"
      using marsh(1) by (intro mapE_total) (simp add: NewStringNode_def)
    then have "MarshalYAML setString (Node name v cs l c) = Inr y" using MapValue by (simp add: y_def)
    moreover have al: "aliasOk [] y" using marsh(2) set by (auto simp: y_def NewMapNode_def)
    moreover have "convertPairs (convert ex [] (yanchor y # anchors)) ex y (ycontent y) n
        = Inr (set_kids (nkids n @ map zeroPos cs) n)" for anchors n
    proof -
      have "ycontent y = concat (map2 (\<lambda>c y. [YNode ScalarNode ''!!str'' (nname c) [] [] 0 0 0, y]) cs (map f cs))"
        by (simp add: y_def NewMapNode_def set zip_map2 zip_same_conv_map comp_def)
      then show ?thesis
        using marsh(6) by (simp add: convertPairs_strings list_all2_conv_all_nth)
    qed
    moreover have "isEven (int (length (ycontent y)))"
      by (simp add: y_def NewMapNode_def isEven_def length_concat comp_def sum_list_triv)
    ultimately show ?thesis using MapValue
      by (auto simp: readsBack_def y_def NewMapNode_def convert_unfold [OF ok] convertBody_def)
  qed
qed

section \<open>Properties\<close>





text \<open>
  A merge key whose value is written inline as a mapping is converted and then dropped, although
  the comments of \<open>merge\<close> call for merging a single mapping node.
\<close>

lemma inline_merge_dropped: "ykindOf val = MappingNode \<Longrightarrow> mergeKey ex parent n val aliasValue = Inr n"
  by (simp add: mergeKey_def)

end
