(* ===== verification/Parseable.thy ===== *)
theory Parseable
  imports Node
begin

text \<open>
  Packages \<open>pkg/parser/nameable\<close>, \<open>pkg/parser/issue\<close> and \<open>pkg/parser/parseable\<close>: the generic
  field parser that every task, command and instance parser is built from. A parser's closures mutate
  the object under construction; here they are functions on a state \<open>'s\<close>. A callback that fails may
  have changed the state already (errors of instance fields are delayed and may be forgiven), so it
  returns the new state together with an optional error. The JSON schema of a field is left out.
\<close>

section \<open>Names of fields\<close>

text \<open>
  Every regular expression in the sources has the form \<open>^(.*)suffix$\<close>; such a nameable is given by
  its suffix. The dot does not match a line feed.
\<close>

datatype nameable = SimpleNameable string | RegexNameable string

definition regexGroup :: "string \<Rightarrow> string \<Rightarrow> string option" where
  "regexGroup suf s =
     (if HasSuffix s suf \<and> CHR 0x0A \<notin> set (TrimSuffix s suf) then Some (TrimSuffix s suf) else None)"

fun Matches :: "nameable \<Rightarrow> string \<Rightarrow> bool" where
  "Matches (SimpleNameable name) s = (name = s)"
| "Matches (RegexNameable suf) s = (regexGroup suf s \<noteq> None)"

fun nameableString :: "nameable \<Rightarrow> string" where
  "nameableString (SimpleNameable name) = name"
| "nameableString (RegexNameable suf) = ''^(.*)'' @ suf @ ''$''"

fun MapKey :: "nameable \<Rightarrow> string" where
  "MapKey (SimpleNameable name) = ''SimpleNameable('' @ name @ '')''"
| "MapKey (RegexNameable suf) = ''RegexNameable('' @ nameableString (RegexNameable suf) @ '')''"

definition FirstGroupOrDefault :: "string \<Rightarrow> string \<Rightarrow> string \<Rightarrow> string" where
  "FirstGroupOrDefault suf s defaultValue =
     (case regexGroup suf s of
        None \<Rightarrow> defaultValue
      | Some g \<Rightarrow> if g = [] then defaultValue else TrimSuffix g ''_'')"

section \<open>Issues\<close>

datatype issue_level = INFO | WARNING | ERROR

record issue =
  issueLevel :: issue_level
  issueFormat :: string
  issueArgs :: "string list"
  issueLine :: int
  issueColumn :: int

section \<open>Parsers\<close>

type_synonym 's nodeFunc = "node \<Rightarrow> 's \<Rightarrow> err option \<times> 's"

record 's field =
  fieldName :: nameable
  required :: bool
  repeatable :: bool
  onFound :: "'s nodeFunc"

record 's collectibleField =
  cfName :: string
  DefinesInstance :: bool
  cfOnFound :: "'s nodeFunc"

text \<open>
  What a parser needs of the node it is applied to: the node itself, \<open>DeepFindCollectible\<close> from that
  node (which may change the tree, a part of the state) and the issue registry.
\<close>

record 's host =
  cur :: "'s \<Rightarrow> node"
  collect :: "string \<Rightarrow> 's \<Rightarrow> node option \<times> 's"
  registerIssue :: "issue \<Rightarrow> 's \<Rightarrow> 's"

definition OptionalField :: "nameable \<Rightarrow> 's nodeFunc \<Rightarrow> 's field" where
  "OptionalField name f = \<lparr>fieldName = name, required = False, repeatable = False, onFound = f\<rparr>"

definition OptionalRepeatableField :: "nameable \<Rightarrow> 's nodeFunc \<Rightarrow> 's field" where
  "OptionalRepeatableField name f = \<lparr>fieldName = name, required = False, repeatable = True, onFound = f\<rparr>"

definition RequiredField :: "nameable \<Rightarrow> 's nodeFunc \<Rightarrow> 's field" where
  "RequiredField name f = \<lparr>fieldName = name, required = True, repeatable = False, onFound = f\<rparr>"

definition CollectibleField :: "string \<Rightarrow> 's nodeFunc \<Rightarrow> 's collectibleField" where
  "CollectibleField name f = \<lparr>cfName = name, DefinesInstance = False, cfOnFound = f\<rparr>"

definition CollectibleInstanceField :: "string \<Rightarrow> 's nodeFunc \<Rightarrow> 's collectibleField" where
  "CollectibleInstanceField name f = \<lparr>cfName = name, DefinesInstance = True, cfOnFound = f\<rparr>"

definition FindFieldByName :: "'s field list \<Rightarrow> string \<Rightarrow> 's field option" where
  "FindFieldByName flds name = find (\<lambda>f. Matches (fieldName f) name) flds"

definition evaluateCollectible :: "'s host \<Rightarrow> 's collectibleField \<Rightarrow> 's \<Rightarrow> (bool \<times> err option) \<times> 's" where
  "evaluateCollectible h field s =
     (case collect h (cfName field) s of
        (None, s') \<Rightarrow> ((False, None), s')
      | (Some children, s') \<Rightarrow> (let (e, s'') = cfOnFound field children s' in ((True, e), s'')))"

text \<open>The first loop: the error of a field that defines an instance is kept for later.\<close>

fun evalCollectibles ::
  "'s host \<Rightarrow> 's collectibleField list \<Rightarrow> err option \<Rightarrow> bool \<Rightarrow> 's \<Rightarrow> (err + err option \<times> bool) \<times> 's" where
  "evalCollectibles h [] delayed matched s = (Inr (delayed, matched), s)"
| "evalCollectibles h (field # flds) delayed matched s =
     (case evaluateCollectible h field s of
        ((m, Some e), s') \<Rightarrow>
          if DefinesInstance field then evalCollectibles h flds (Some e) matched s' else (Inl e, s')
      | ((m, None), s') \<Rightarrow>
          evalCollectibles h flds delayed (matched \<or> (DefinesInstance field \<and> m)) s')"

text \<open>The second loop evaluates the collectible fields again that occur as children.\<close>

fun doubleCheck :: "'s host \<Rightarrow> 's collectibleField list \<Rightarrow> string list \<Rightarrow> 's \<Rightarrow> err option \<times> 's" where
  "doubleCheck h cfields [] s = (None, s)"
| "doubleCheck h cfields (name # names) s =
     (case find (\<lambda>cf. cfName cf = name) cfields of
        None \<Rightarrow> doubleCheck h cfields names s
      | Some cf \<Rightarrow>
          (case evaluateCollectible h cf s of
             ((_, Some e), s') \<Rightarrow> (Some e, s')
           | ((_, None), s') \<Rightarrow> doubleCheck h cfields names s'))"

text \<open>
  The loop over the ordinary fields: a child is skipped when no field has its name, or when its field
  is not repeatable and a later child has the same name. The result carries the keys of the fields seen.
\<close>

fun parseFields ::
  "'s field list \<Rightarrow> node list \<Rightarrow> string list \<Rightarrow> 's \<Rightarrow> (err + string list) \<times> 's" where
  "parseFields flds [] seen s = (Inr seen, s)"
| "parseFields flds (child # later) seen s =
     (case FindFieldByName flds (nname child) of
        None \<Rightarrow> parseFields flds later seen s
      | Some field \<Rightarrow>
          if \<not> repeatable field \<and> nname child \<in> nname ` set later then parseFields flds later seen s
          else (case onFound field child s of
                  (Some e, s') \<Rightarrow> (Inl e, s')
                | (None, s') \<Rightarrow> parseFields flds later (MapKey (fieldName field) # seen) s'))"

fun checkRequired :: "node \<Rightarrow> string list \<Rightarrow> 's field list \<Rightarrow> err option" where
  "checkRequired n seen [] = None"
| "checkRequired n seen (field # flds) =
     (if required field \<and> MapKey (fieldName field) \<notin> set seen
      then Some (ParserError n ''required field %q was not set'' [nameableString (fieldName field)])
      else checkRequired n seen flds)"

definition warnNotMap :: "'s host \<Rightarrow> 's \<Rightarrow> 's" where
  "warnNotMap h s =
     (let n = cur h s
      in if nval n \<noteq> MapValue \<and> \<not> ValueIsEmpty n
         then registerIssue h \<lparr>issueLevel = WARNING, issueFormat = ''expected a map, found %s'',
                issueArgs = [ValueTypeAsString n], issueLine = nline n, issueColumn = ncol n\<rparr> s
         else s)"

definition Parse :: "'s host \<Rightarrow> 's field list \<Rightarrow> 's collectibleField list \<Rightarrow> 's \<Rightarrow> err option \<times> 's" where
  "Parse h flds cfields s =
     (case evalCollectibles h cfields None False (warnNotMap h s) of
        (Inl e, s1) \<Rightarrow> (Some e, s1)
      | (Inr (delayed, matched), s1) \<Rightarrow>
          if \<not> matched \<and> delayed \<noteq> None then (delayed, s1)
          else (case doubleCheck h cfields (map nname (nkids (cur h s1))) s1 of
                  (Some e, s2) \<Rightarrow> (Some e, s2)
                | (None, s2) \<Rightarrow>
                    (case parseFields flds (nkids (cur h s2)) [] s2 of
                       (Inl e, s3) \<Rightarrow> (Some e, s3)
                     | (Inr seen, s3) \<Rightarrow> (checkRequired (cur h s2) seen flds, s3))))"

section \<open>A host for a node of a tree\<close>

text \<open>The state of a parser whose node is at a path of the configuration tree.\<close>

record 'a treeState =
  tree :: node
  path :: path
  issues :: "issue list"
  val :: 'a

definition treeHost :: "'a treeState host" where
  "treeHost = \<lparr>cur = (\<lambda>s. case GetPath (tree s) (path s) of Some n \<Rightarrow> n | None \<Rightarrow> virtualNode),
     collect = (\<lambda>name s. let (v, t) = DeepFindCollectible name (tree s) (path s) in (v, s\<lparr>tree := t\<rparr>)),
     registerIssue = (\<lambda>i s. s\<lparr>issues := issues s @ [i]\<rparr>)\<rparr>"

section \<open>Invariants of a parser\<close>

text \<open>
  The contract between the generic parser and the parsers built on it: callbacks, the lookup of
  collectible fields and the registration of issues keep an invariant of the state.
\<close>

locale parser_invariant =
  fixes h :: "'s host" and flds :: "'s field list" and cfields :: "'s collectibleField list"
    and I :: "'s \<Rightarrow> bool"
  assumes field_keeps: "f \<in> set flds \<Longrightarrow> I s \<Longrightarrow> I (snd (onFound f n s))"
    and cfield_keeps: "cf \<in> set cfields \<Longrightarrow> I s \<Longrightarrow> I (snd (cfOnFound cf n s))"
    and collect_keeps: "cf \<in> set cfields \<Longrightarrow> I s \<Longrightarrow> I (snd (collect h (cfName cf) s))"
    and issue_keeps: "I s \<Longrightarrow> I (registerIssue h i s)"
begin

lemma evaluateCollectible_keeps:
  assumes "cf \<in> set cfields" and "I s"
  shows "I (snd (evaluateCollectible h cf s))"
proof -
  obtain v s' where c: "collect h (cfName cf) s = (v, s')" by fastforce
  then have "I s'" using collect_keeps [OF assms] by (metis snd_conv)
  then show ?thesis
    using c cfield_keeps [OF assms(1)] by (cases v) (auto simp: evaluateCollectible_def case_prod_unfold Let_def)
qed

lemma evalCollectibles_keeps:
  "set cfs \<subseteq> set cfields \<Longrightarrow> I s \<Longrightarrow> I (snd (evalCollectibles h cfs d m s))"
proof (induction cfs arbitrary: d m s)
  case (Cons cf cfs)
  obtain k e s' where ev: "evaluateCollectible h cf s = ((k, e), s')" by (metis prod.exhaust)
  then have "I s'" using evaluateCollectible_keeps [of cf s] Cons.prems by simp
  then show ?case using Cons ev by (cases e) auto
qed simp

lemma doubleCheck_keeps: "I s \<Longrightarrow> I (snd (doubleCheck h cfields names s))"
proof (induction names arbitrary: s)
  case (Cons name names)
  show ?case
  proof (cases "find (\<lambda>cf. cfName cf = name) cfields")
    case None
    then show ?thesis using Cons by simp
  next
    case (Some cf)
    then have "cf \<in> set cfields" by (auto simp: find_Some_iff)
    obtain k e s' where ev: "evaluateCollectible h cf s = ((k, e), s')" by (metis prod.exhaust)
    then have "I s'" using evaluateCollectible_keeps [OF \<open>cf \<in> set cfields\<close> Cons.prems] by simp
    then show ?thesis using Cons.IH Some ev by (cases e) auto
  qed
qed simp

lemma parseFields_keeps: "I s \<Longrightarrow> I (snd (parseFields flds cs seen s))"
proof (induction cs arbitrary: seen s)
  case (Cons c cs)
  show ?case
  proof (cases "FindFieldByName flds (nname c)")
    case None
    then show ?thesis using Cons by simp
  next
    case (Some f)
    then have "f \<in> set flds" by (auto simp: FindFieldByName_def find_Some_iff)
    obtain e s' where ev: "onFound f c s = (e, s')" by fastforce
    then have "I s'" using field_keeps [OF \<open>f \<in> set flds\<close> Cons.prems, of c] by simp
    then show ?thesis using Cons Some ev by (cases e) auto
  qed
qed simp

lemma Parse_keeps:
  assumes "I s"
  shows "I (snd (Parse h flds cfields s))"
proof -
  have "I (warnNotMap h s)" using assms by (simp add: warnNotMap_def Let_def issue_keeps)
  moreover obtain r s1 where r: "evalCollectibles h cfields None False (warnNotMap h s) = (r, s1)" by fastforce
  ultimately have s1: "I s1" using evalCollectibles_keeps [of cfields] by (metis snd_conv subset_refl)
  obtain e s2 where e: "doubleCheck h cfields (map nname (nkids (cur h s1))) s1 = (e, s2)" by fastforce
  then have s2: "I s2" using doubleCheck_keeps [OF s1] by (metis snd_conv)
  obtain q s3 where q: "parseFields flds (nkids (cur h s2)) [] s2 = (q, s3)" by fastforce
  then have "I s3" using parseFields_keeps [OF s2] by (metis snd_conv)
  then show ?thesis
    using s1 s2 r e q by (auto simp: Parse_def split: sum.splits prod.splits option.splits)
qed

end

section \<open>Which callbacks run\<close>

text \<open>
  The reference for the ordinary fields: the positions of the children that have a field and are
  either repeatable or the last child of their name.
\<close>

definition selected :: "'s field list \<Rightarrow> node list \<Rightarrow> nat list" where
  "selected flds cs =
     filter (\<lambda>i. case FindFieldByName flds (nname (cs ! i)) of
         None \<Rightarrow> False
       | Some f \<Rightarrow> repeatable f \<or> nname (cs ! i) \<notin> nname ` set (drop (Suc i) cs))
       [0..<length cs]"

fun runCallbacks :: "('s field \<times> node) list \<Rightarrow> 's \<Rightarrow> err option \<times> 's" where
  "runCallbacks [] s = (None, s)"
| "runCallbacks ((f, c) # rest) s =
     (case onFound f c s of (Some e, s') \<Rightarrow> (Some e, s') | (None, s') \<Rightarrow> runCallbacks rest s')"

definition calls :: "'s field list \<Rightarrow> node list \<Rightarrow> ('s field \<times> node) list" where
  "calls flds cs = map (\<lambda>i. (the (FindFieldByName flds (nname (cs ! i))), cs ! i)) (selected flds cs)"

lemma calls_Nil [simp]: "calls flds [] = []"
  by (simp add: calls_def selected_def)

lemma calls_Cons:
  "calls flds (c # cs) =
     (case FindFieldByName flds (nname c) of
        None \<Rightarrow> calls flds cs
      | Some f \<Rightarrow> if \<not> repeatable f \<and> nname c \<in> nname ` set cs then calls flds cs else (f, c) # calls flds cs)"
proof -
  have upt: "[0..<length (c # cs)] = 0 # map Suc [0..<length cs]"
    by (metis length_Cons map_Suc_upt upt_conv_Cons zero_less_Suc)
  show ?thesis
    unfolding calls_def selected_def upt
    by (simp add: filter_map comp_def split: option.splits)
qed

lemma parseFields_calls:
  "parseFields flds cs seen s =
     (case runCallbacks (calls flds cs) s of
        (Some e, s') \<Rightarrow> (Inl e, s')
      | (None, s') \<Rightarrow> (Inr (rev (map (\<lambda>(f, _). MapKey (fieldName f)) (calls flds cs)) @ seen), s'))"
proof (induction cs arbitrary: seen s)
  case (Cons c cs)
  then show ?case
    by (auto simp: calls_Cons split: option.splits prod.splits)
qed simp

lemma checkRequired_None:
  "checkRequired n seen flds = None \<longleftrightarrow> (\<forall>f \<in> set flds. required f \<longrightarrow> MapKey (fieldName f) \<in> set seen)"
  by (induction flds) auto

lemma Parse_no_collectibles:
  "Parse h flds [] s =
     (let s0 = warnNotMap h s
      in case runCallbacks (calls flds (nkids (cur h s0))) s0 of
           (Some e, s') \<Rightarrow> (Some e, s')
         | (None, s') \<Rightarrow>
             (checkRequired (cur h s0) (rev (map (\<lambda>(f, _). MapKey (fieldName f)) (calls flds (nkids (cur h s0))))) flds, s'))"
proof -
  have "doubleCheck h [] names u = (None, u)" for names u
    by (induction names) auto
  then show ?thesis by (simp add: Parse_def parseFields_calls Let_def split: prod.splits option.splits)
qed

lemma calls_mem:
  assumes "(f, c) \<in> set (calls flds cs)"
  shows "c \<in> set cs \<and> FindFieldByName flds (nname c) = Some f"
  using assms by (auto simp: calls_def selected_def split: option.splits)

text \<open>The names of the children of the node, which nothing but the configuration itself decides.\<close>

definition kidNames :: "'s host \<Rightarrow> 's \<Rightarrow> string list" where
  "kidNames h s = map nname (nkids (cur h s))"

definition stableNames :: "'s host \<Rightarrow> 's collectibleField list \<Rightarrow> bool" where
  "stableNames h cfields \<longleftrightarrow>
     (\<forall>cf \<in> set cfields. \<forall>s n. kidNames h (snd (collect h (cfName cf) s)) = kidNames h s \<and>
        kidNames h (snd (cfOnFound cf n s)) = kidNames h s) \<and>
     (\<forall>i s. kidNames h (registerIssue h i s) = kidNames h s)"

section \<open>Properties\<close>

text \<open>
  C30. The ordinary fields of a configuration node are evaluated in document order, exactly once per
  child that has a field; a child whose field is not repeatable is evaluated only when no later child
  has the same name, so the last definition of a field wins and the earlier ones have no effect.
\<close>

theorem parse_calls_last_definition:
  "parseFields flds cs [] s =
     (case runCallbacks (map (\<lambda>i. (the (FindFieldByName flds (nname (cs ! i))), cs ! i)) (selected flds cs)) s of
        (Some e, s') \<Rightarrow> (Inl e, s')
      | (None, s') \<Rightarrow>
          (Inr (rev (map (\<lambda>i. MapKey (fieldName (the (FindFieldByName flds (nname (cs ! i)))))) (selected flds cs))), s')) \<and>
   sorted (selected flds cs) \<and> distinct (selected flds cs)"
proof (intro conjI)
  have keys: "map (\<lambda>(f, _). MapKey (fieldName f)) (calls flds cs)
      = map (\<lambda>i. MapKey (fieldName (the (FindFieldByName flds (nname (cs ! i)))))) (selected flds cs)"
    by (simp add: calls_def)
  show "parseFields flds cs [] s =
     (case runCallbacks (map (\<lambda>i. (the (FindFieldByName flds (nname (cs ! i))), cs ! i)) (selected flds cs)) s of
        (Some e, s') \<Rightarrow> (Inl e, s')
      | (None, s') \<Rightarrow>
          (Inr (rev (map (\<lambda>i. MapKey (fieldName (the (FindFieldByName flds (nname (cs ! i)))))) (selected flds cs))), s'))"
    unfolding parseFields_calls [of flds cs "[]" s] keys append_Nil2 by (simp only: calls_def)
qed (simp_all add: selected_def sorted_wrt_filter)



end
