(* ===== verification/Commands.thy ===== *)
theory Commands
  imports Parseable Accessor
begin

text \<open>
  Packages \<open>pkg/parser/task/command\<close>, \<open>pkg/parser/task\<close> (behavior.go, handler.go, seconds.go, the
  instructions of base.go), \<open>pkg/parser/instance/resources\<close> and \<open>pkg/parser/instance/volume\<close>: the
  commands of a task. The messages of the protocol (\<open>pkg/api\<close>, generated code) are records and
  datatypes with the fields the parser sets.
\<close>

section \<open>Protocol messages\<close>

record cacheInstruction =
  Folders :: "string list"
  FingerprintScripts :: "string list"
  FingerprintKey :: string
  PopulateScripts :: "string list"
  ReuploadOnChanges :: bool
  OptimisticallyRestoreOnMiss :: bool

record artifactsInstruction =
  Paths :: "string list"
  ArtifactType :: string
  ArtifactFormat :: string

datatype fileSource = FromEnvironmentVariable string | FromContents string

record fileInstruction =
  DestinationPath :: string
  Source :: "fileSource option"

datatype instruction =
    ScriptInstruction "string list"
  | BackgroundScriptInstruction "string list"
  | CacheInstruction cacheInstruction
  | UploadCacheInstruction string
  | ArtifactsInstruction artifactsInstruction
  | FileInstruction fileInstruction
  | CloneInstruction
  | ExitInstruction
  | OtherInstruction

datatype behavior = ON_SUCCESS | ON_FAILURE | ALWAYS | ON_TIMEOUT

record command =
  cmdName :: string
  cmdInstruction :: instruction
  cmdBehavior :: behavior
  cmdProperties :: env

definition mkCommand :: "string \<Rightarrow> instruction \<Rightarrow> command" where
  "mkCommand name i = \<lparr>cmdName = name, cmdInstruction = i, cmdBehavior = ON_SUCCESS, cmdProperties = []\<rparr>"

text \<open>
  The services a parser is given: the boolean evaluator and the encoding of PowerShell scripts.
\<close>

record parserKit =
  boolEval :: "string \<Rightarrow> env \<Rightarrow> bool res"
  psEncoder :: "string \<Rightarrow> string res"

section \<open>Durations, sizes and volumes\<close>

text \<open>The two parts of a string, cut after its last digit.\<close>

definition digitsPart :: "string \<Rightarrow> string" where
  "digitsPart s = rev (dropWhile (\<lambda>c. \<not> isDigit c) (rev s))"

definition suffixPart :: "string \<Rightarrow> string" where
  "suffixPart s = rev (takeWhile (\<lambda>c. \<not> isDigit c) (rev s))"

definition ParseSeconds :: "string \<Rightarrow> 32 word res" where
  "ParseSeconds s =
     (let sLower = ToLower s
      in case ParseUint (digitsPart sLower) 32 of
           Inl e \<Rightarrow> Inl e
         | Inr n \<Rightarrow>
             (let parsed = (of_nat n :: 32 word); suf = suffixPart sLower
              in if suf = ''h'' then Inr (parsed * 3600)
                 else if suf = [] \<or> suf = ''m'' then Inr (parsed * 60)
                 else if suf = ''s'' then Inr parsed
                 else Inl (Plain ''unsupported time unit suffix: %q'' [suf])))"

definition ParseMegaBytes :: "string \<Rightarrow> 64 word res" where
  "ParseMegaBytes s =
     (let sLower = ToLower s
      in case ParseUint (digitsPart sLower) 32 of
           Inl e \<Rightarrow> Inl e
         | Inr n \<Rightarrow>
             (let parsed = (of_nat n :: 64 word); suf = suffixPart sLower
              in if suf = [] then Inr (if parsed < 100 then parsed * 1024 else parsed)
                 else if suf \<in> {''mb'', ''mi'', ''m''} then Inr parsed
                 else if suf \<in> {''gb'', ''gi'', ''g''} then Inr (parsed * 1024)
                 else Inl (Plain ''unsupported digital information unit suffix: %q'' [suf])))"

record volume =
  volSource :: string
  volTarget :: string
  volReadOnly :: bool

definition ParseVolume :: "node \<Rightarrow> string \<Rightarrow> volume res" where
  "ParseVolume node vol =
     (case SplitC (CHR '':'') vol of
        [src, dst] \<Rightarrow> Inr \<lparr>volSource = src, volTarget = dst, volReadOnly = False\<rparr>
      | [src, dst, flags] \<Rightarrow>
          if flags \<noteq> ''ro'' then Inl (ParserError node ''only \"ro\" volume flag is currently supported'' [])
          else Inr \<lparr>volSource = src, volTarget = dst, volReadOnly = True\<rparr>
      | _ \<Rightarrow> Inl (ParserError node ''only source:target[:ro] volume specification is currently supported'' []))"

section \<open>Callbacks\<close>

text \<open>A callback that reads a value and stores it in the object under construction.\<close>

definition setValue :: "(node \<Rightarrow> 'v res) \<Rightarrow> ('v \<Rightarrow> 'a \<Rightarrow> 'a) \<Rightarrow> 'a treeState nodeFunc" where
  "setValue get upd n s =
     (case get n of Inl e \<Rightarrow> (Some e, s) | Inr v \<Rightarrow> (None, s\<lparr>val := upd v (val s)\<rparr>))"

definition parseOwn :: "'a treeState field list \<Rightarrow> node \<Rightarrow> issue list \<Rightarrow> 'a \<Rightarrow> err option \<times> 'a treeState" where
  "parseOwn flds n is a = Parse treeHost flds [] \<lparr>tree = n, path = [], issues = is, val = a\<rparr>"

section \<open>Artifacts\<close>

record artifactsState =
  artName :: string
  artInstruction :: artifactsInstruction

definition artifactsFields :: "env \<Rightarrow> artifactsState treeState field list" where
  "artifactsFields mergedEnv =
     [OptionalField (SimpleNameable ''name'')
        (setValue (\<lambda>n. GetExpandedStringValue n mergedEnv) (\<lambda>v a. a\<lparr>artName := v\<rparr>)),
      OptionalField (SimpleNameable ''paths'')
        (setValue (\<lambda>n. GetSliceOfExpandedStrings n mergedEnv)
          (\<lambda>v a. a\<lparr>artInstruction := (artInstruction a)\<lparr>Paths := v\<rparr>\<rparr>)),
      OptionalField (SimpleNameable ''path'')
        (setValue (\<lambda>n. GetExpandedStringValue n mergedEnv)
          (\<lambda>v a. a\<lparr>artInstruction := (artInstruction a)\<lparr>Paths := [v]\<rparr>\<rparr>)),
      OptionalField (SimpleNameable ''type'')
        (setValue (\<lambda>n. GetExpandedStringValue n mergedEnv)
          (\<lambda>v a. a\<lparr>artInstruction := (artInstruction a)\<lparr>ArtifactType := v\<rparr>\<rparr>)),
      OptionalField (SimpleNameable ''format'')
        (setValue (\<lambda>n. GetExpandedStringValue n mergedEnv)
          (\<lambda>v a. a\<lparr>artInstruction := (artInstruction a)\<lparr>ArtifactFormat := v\<rparr>\<rparr>))]"

definition parseArtifacts :: "env \<Rightarrow> node \<Rightarrow> issue list \<Rightarrow> command res \<times> issue list" where
  "parseArtifacts mergedEnv n is =
     (case parseOwn (artifactsFields mergedEnv) n is
             \<lparr>artName = [], artInstruction = \<lparr>Paths = [], ArtifactType = [], ArtifactFormat = []\<rparr>\<rparr> of
        (Some e, s) \<Rightarrow> (Inl e, issues s)
      | (None, s) \<Rightarrow>
          (let name = (if artName (val s) = [] then FirstGroupOrDefault ''artifacts'' (nname n) ''binary''
                       else artName (val s))
           in (Inr (mkCommand name (ArtifactsInstruction (artInstruction (val s)))), issues s)))"

section \<open>Files\<close>

record fileState =
  fileName :: string
  fileInstr :: fileInstruction

definition fileFields :: "env \<Rightarrow> fileState treeState field list" where
  "fileFields mergedEnv =
     [OptionalField (SimpleNameable ''name'')
        (setValue (\<lambda>n. GetExpandedStringValue n mergedEnv) (\<lambda>v a. a\<lparr>fileName := v\<rparr>)),
      RequiredField (SimpleNameable ''path'')
        (setValue (\<lambda>n. GetExpandedStringValue n mergedEnv)
          (\<lambda>v a. a\<lparr>fileInstr := (fileInstr a)\<lparr>DestinationPath := v\<rparr>\<rparr>)),
      OptionalField (SimpleNameable ''variable_name'')
        (setValue GetStringValue
          (\<lambda>v a. a\<lparr>fileInstr := (fileInstr a)\<lparr>Source := Some (FromEnvironmentVariable (TrimPrefix v ''$''))\<rparr>\<rparr>)),
      OptionalField (SimpleNameable ''from_contents'')
        (setValue (\<lambda>n. GetExpandedStringValue n mergedEnv)
          (\<lambda>v a. a\<lparr>fileInstr := (fileInstr a)\<lparr>Source := Some (FromContents v)\<rparr>\<rparr>))]"

definition parseFile :: "env \<Rightarrow> node \<Rightarrow> issue list \<Rightarrow> command res \<times> issue list" where
  "parseFile mergedEnv n is =
     (case parseOwn (fileFields mergedEnv) n is
             \<lparr>fileName = [], fileInstr = \<lparr>DestinationPath = [], Source = None\<rparr>\<rparr> of
        (Some e, s) \<Rightarrow> (Inl e, issues s)
      | (None, s) \<Rightarrow>
          (let name = (if fileName (val s) = [] then FirstGroupOrDefault ''file'' (nname n) ''file''
                       else fileName (val s))
           in if Source (fileInstr (val s)) = None
              then (Inl (ParserError n ''either \"variable_name\" or \"from_contents\" field should be set'' []), issues s)
              else (Inr (mkCommand name (FileInstruction (fileInstr (val s)))), issues s)))"

section \<open>Caches\<close>

record cacheState =
  cacheName :: string
  cacheInstr :: cacheInstruction
  reuploadOnChangesExplicitlySet :: bool
  folder :: string
  folders :: "string list"

definition newCacheState :: cacheState where
  "newCacheState =
     \<lparr>cacheName = [],
      cacheInstr = \<lparr>Folders = [], FingerprintScripts = [], FingerprintKey = [], PopulateScripts = [],
        ReuploadOnChanges = True, OptimisticallyRestoreOnMiss = False\<rparr>,
      reuploadOnChangesExplicitlySet = False, folder = [], folders = []\<rparr>"

definition disableReupload :: "cacheState \<Rightarrow> cacheState" where
  "disableReupload a =
     (if reuploadOnChangesExplicitlySet a then a
      else a\<lparr>cacheInstr := (cacheInstr a)\<lparr>ReuploadOnChanges := False\<rparr>\<rparr>)"

definition cacheFields :: "parserKit \<Rightarrow> env \<Rightarrow> cacheState treeState field list" where
  "cacheFields kit mergedEnv =
     [OptionalField (SimpleNameable ''name'')
        (setValue (\<lambda>n. GetExpandedStringValue n mergedEnv) (\<lambda>v a. a\<lparr>cacheName := v\<rparr>)),
      OptionalField (SimpleNameable ''folder'')
        (setValue (\<lambda>n. GetExpandedStringValue n mergedEnv) (\<lambda>v a. a\<lparr>folder := v\<rparr>)),
      OptionalField (SimpleNameable ''folders'')
        (setValue (\<lambda>n. GetSliceOfExpandedStrings n mergedEnv) (\<lambda>v a. a\<lparr>folders := v\<rparr>)),
      OptionalField (SimpleNameable ''fingerprint_script'')
        (setValue (GetScript (psEncoder kit))
          (\<lambda>v a. disableReupload (a\<lparr>cacheInstr := (cacheInstr a)\<lparr>FingerprintScripts := v\<rparr>\<rparr>))),
      OptionalField (SimpleNameable ''fingerprint_key'')
        (setValue (\<lambda>n. GetExpandedStringValue n mergedEnv)
          (\<lambda>v a. disableReupload (a\<lparr>cacheInstr := (cacheInstr a)\<lparr>FingerprintKey := v\<rparr>\<rparr>))),
      OptionalField (SimpleNameable ''populate_script'')
        (setValue (GetScript (psEncoder kit))
          (\<lambda>v a. a\<lparr>cacheInstr := (cacheInstr a)\<lparr>PopulateScripts := v\<rparr>\<rparr>)),
      OptionalField (SimpleNameable ''reupload_on_changes'')
        (setValue (\<lambda>n. GetBoolValue (boolEval kit) n mergedEnv)
          (\<lambda>v a. a\<lparr>cacheInstr := (cacheInstr a)\<lparr>ReuploadOnChanges := v\<rparr>,
                  reuploadOnChangesExplicitlySet := True\<rparr>)),
      OptionalField (SimpleNameable ''optimistically_restore_on_miss'')
        (setValue (\<lambda>n. GetBoolValue (boolEval kit) n mergedEnv)
          (\<lambda>v a. a\<lparr>cacheInstr := (cacheInstr a)\<lparr>OptimisticallyRestoreOnMiss := v\<rparr>\<rparr>))]"

definition fixFolders :: "string list \<Rightarrow> string list" where
  "fixFolders fs =
     map (\<lambda>f. let f' = TrimSpace f
              in if HasPrefix f' ''~/'' then ''$HOME/'' @ TrimPrefix f' ''~/'' else f') fs"

text \<open>The part of \<open>CacheCommand.Parse\<close> after the fields have been read.\<close>

definition finishCache :: "node \<Rightarrow> cacheState \<Rightarrow> command res" where
  "finishCache n c =
     (let name = (if cacheName c = [] then FirstGroupOrDefault ''cache'' (nname n) ''main'' else cacheName c)
      in if folder c = [] \<and> folders c = [] then
           Inl (ParserError n ''please specify the folders to cache, with either folder: or folders:'' [])
         else if folder c \<noteq> [] \<and> folders c \<noteq> [] then
           Inl (ParserError n ''please specify either folder: or folders: but not both, to avoid ambiguity'' [])
         else if FingerprintScripts (cacheInstr c) \<noteq> [] \<and> FingerprintKey (cacheInstr c) \<noteq> [] then
           Inl (ParserError n (''please either use fingerprint_script: or fingerprint_key, since otherwise '' @
             ''there's ambiguity about which one to prefer for cache key calculation'') [])
         else
           Inr (mkCommand name (CacheInstruction ((cacheInstr c)\<lparr>Folders :=
             fixFolders (if folder c \<noteq> [] then [folder c] else folders c)\<rparr>))))"

definition parseCache :: "parserKit \<Rightarrow> env \<Rightarrow> node \<Rightarrow> issue list \<Rightarrow> command res \<times> issue list" where
  "parseCache kit mergedEnv n is =
     (case parseOwn (cacheFields kit mergedEnv) n is newCacheState of
        (Some e, s) \<Rightarrow> (Inl e, issues s)
      | (None, s) \<Rightarrow> (finishCache n (val s), issues s))"

definition uploadName :: "string \<Rightarrow> string" where
  "uploadName name = ''Upload '' @ [CHR 0x27] @ name @ [CHR 0x27] @ '' cache''"

fun isUpload :: "instruction \<Rightarrow> bool" where
  "isUpload (UploadCacheInstruction _) = True"
| "isUpload _ = False"

fun isCache :: "instruction \<Rightarrow> bool" where
  "isCache (CacheInstruction _) = True"
| "isCache _ = False"

definition GenUploadCacheCmds :: "command list \<Rightarrow> command list" where
  "GenUploadCacheCmds commands =
     (if \<exists>c \<in> set commands. isUpload (cmdInstruction c) then []
      else map (\<lambda>c. \<lparr>cmdName = uploadName (cmdName c),
                      cmdInstruction = UploadCacheInstruction (cmdName c), cmdBehavior = cmdBehavior c,
                      cmdProperties = []\<rparr>)
             (filter (\<lambda>c. isCache (cmdInstruction c)) commands))"

definition UploadCachesHelper :: "env \<Rightarrow> command list \<Rightarrow> node \<Rightarrow> command list res" where
  "UploadCachesHelper env previousCommands n =
     (case GetSliceOfExpandedStrings n env of
        Inl e \<Rightarrow> Inl e
      | Inr cacheNames \<Rightarrow>
          mapE (\<lambda>cname.
              if cname \<notin> cmdName ` set previousCommands then
                Inl (ParserError n ''no cache with name %q is defined'' [cname])
              else if uploadName cname \<in> cmdName ` set previousCommands then
                Inl (ParserError n (''the cache with name %q is already scheduled to be uploaded in one '' @
                  ''of the previous upload_caches instructions'') [uploadName cname])
              else Inr (mkCommand (uploadName cname) (UploadCacheInstruction cname)))
            cacheNames)"

section \<open>Scripts\<close>

definition handleBackgroundScript :: "parserKit \<Rightarrow> node \<Rightarrow> command res" where
  "handleBackgroundScript kit n =
     (case GetScript (psEncoder kit) n of
        Inl e \<Rightarrow> Inl e
      | Inr scripts \<Rightarrow> Inr (mkCommand (FirstGroupOrDefault ''background_script'' (nname n) ''main'')
          (BackgroundScriptInstruction scripts)))"

definition handleScript :: "parserKit \<Rightarrow> node \<Rightarrow> command res" where
  "handleScript kit n =
     (case GetScript (psEncoder kit) n of
        Inl e \<Rightarrow> Inl e
      | Inr scripts \<Rightarrow> Inr (mkCommand (FirstGroupOrDefault ''script'' (nname n) ''main'')
          (ScriptInstruction scripts)))"

definition handleTimeoutIn :: "node \<Rightarrow> env \<Rightarrow> string res" where
  "handleTimeoutIn n mergedEnv =
     (case GetExpandedStringValue n mergedEnv of
        Inl e \<Rightarrow> Inl e
      | Inr t \<Rightarrow> (case ParseSeconds t of Inl e \<Rightarrow> Inl e | Inr secs \<Rightarrow> Inr (FormatUint (unat secs))))"

section \<open>Behaviors and the instructions of a task\<close>

text \<open>A callback that appends commands to the list under construction.\<close>

definition addCommand :: "(node \<Rightarrow> 'a \<Rightarrow> issue list \<Rightarrow> command list res \<times> issue list) \<Rightarrow>
    (command list \<Rightarrow> 'a \<Rightarrow> 'a) \<Rightarrow> 'a treeState nodeFunc" where
  "addCommand parse add n s =
     (case parse n (val s) (issues s) of
        (Inl e, is) \<Rightarrow> (Some e, s\<lparr>issues := is\<rparr>)
      | (Inr cs, is) \<Rightarrow> (None, s\<lparr>issues := is, val := add cs (val s)\<rparr>))"

definition single :: "command res \<times> issue list \<Rightarrow> command list res \<times> issue list" where
  "single r = (case r of (Inl e, is) \<Rightarrow> (Inl e, is) | (Inr c, is) \<Rightarrow> (Inr [c], is))"

text \<open>
  The six kinds of instructions that a task and a behavior share; \<open>env\<close> and \<open>previous\<close> read the
  environment and the commands defined before from the state.
\<close>

definition instructionFields ::
  "parserKit \<Rightarrow> ('a \<Rightarrow> env) \<Rightarrow> ('a \<Rightarrow> command list) \<Rightarrow> (command list \<Rightarrow> 'a \<Rightarrow> 'a) \<Rightarrow> 'a treeState field list" where
  "instructionFields kit envOf previous add =
     [OptionalField (RegexNameable ''background_script'')
        (addCommand (\<lambda>n a is. single (handleBackgroundScript kit n, is)) add),
      OptionalField (RegexNameable ''script'')
        (addCommand (\<lambda>n a is. single (handleScript kit n, is)) add),
      OptionalField (RegexNameable ''cache'')
        (addCommand (\<lambda>n a is. single (parseCache kit (envOf a) n is)) add),
      OptionalRepeatableField (SimpleNameable ''upload_caches'')
        (addCommand (\<lambda>n a is. (UploadCachesHelper (envOf a) (previous a) n, is)) add),
      OptionalField (RegexNameable ''artifacts'')
        (addCommand (\<lambda>n a is. single (parseArtifacts (envOf a) n is)) add),
      OptionalField (RegexNameable ''file'')
        (addCommand (\<lambda>n a is. single (parseFile (envOf a) n is)) add)]"

definition behaviorFields :: "parserKit \<Rightarrow> env \<Rightarrow> command list \<Rightarrow> command list treeState field list" where
  "behaviorFields kit mergedEnv previousCommands =
     instructionFields kit (\<lambda>_. mergedEnv) (\<lambda>cs. previousCommands @ cs) (\<lambda>new cs. cs @ new)"

definition parseBehavior ::
  "parserKit \<Rightarrow> env \<Rightarrow> command list \<Rightarrow> node \<Rightarrow> issue list \<Rightarrow> command list res \<times> issue list" where
  "parseBehavior kit mergedEnv previousCommands n is =
     (case parseOwn (behaviorFields kit mergedEnv previousCommands) n is [] of
        (Some e, s) \<Rightarrow> (Inl e, issues s)
      | (None, s) \<Rightarrow> (Inr (val s), issues s))"

fun behaviorName :: "behavior \<Rightarrow> string" where
  "behaviorName ON_SUCCESS = ''on_success''"
| "behaviorName ON_FAILURE = ''on_failure''"
| "behaviorName ALWAYS = ''always''"
| "behaviorName ON_TIMEOUT = ''on_timeout''"

definition withBehavior :: "behavior \<Rightarrow> command list res \<times> issue list \<Rightarrow> command list res \<times> issue list" where
  "withBehavior b r =
     (case r of (Inl e, is) \<Rightarrow> (Inl e, is) | (Inr cs, is) \<Rightarrow> (Inr (map (\<lambda>c. c\<lparr>cmdBehavior := b\<rparr>) cs), is))"

text \<open>
  \<open>AttachBaseTaskInstructions\<close>: the fields that add commands to a task. The names of the behaviors
  are distinct, so the order in which the code ranges over them does not matter.
\<close>

definition AttachBaseTaskInstructions ::
  "parserKit \<Rightarrow> ('a \<Rightarrow> env) \<Rightarrow> ('a \<Rightarrow> command list) \<Rightarrow> (command list \<Rightarrow> 'a \<Rightarrow> 'a) \<Rightarrow> 'a treeState field list" where
  "AttachBaseTaskInstructions kit envOf cmds add =
     instructionFields kit envOf cmds add @
     map (\<lambda>b. OptionalRepeatableField (SimpleNameable (behaviorName b))
           (addCommand (\<lambda>n a is. withBehavior b (parseBehavior kit (envOf a) (cmds a) n is)) add))
       [ON_SUCCESS, ON_FAILURE, ALWAYS, ON_TIMEOUT]"

section \<open>Facts\<close>

lemma lowerC_digit: "isDigit c \<Longrightarrow> lowerC c = c"
  by (auto simp: lowerC_def isDigit_def isUpper_def less_eq_char_def)

lemma FormatUint_digits: "c \<in> set (FormatUint n) \<Longrightarrow> isDigit c"
proof (induction n rule: FormatUint.induct)
  case (1 n)
  then show ?case
    by (auto simp: FormatUint.simps [of n] digitChar_digit split: if_splits)
qed

lemma ToLower_FormatUint [simp]: "ToLower (FormatUint n @ u) = FormatUint n @ ToLower u"
  using FormatUint_digits lowerC_digit by (simp add: ToLower_def map_idI)

lemma cut_after_digits:
  assumes "\<forall>c \<in> set ds. isDigit c" and "ds \<noteq> []" and "\<forall>c \<in> set u. \<not> isDigit c"
  shows "digitsPart (ds @ u) = ds" and "suffixPart (ds @ u) = u"
proof -
  obtain d es where ds: "rev ds = d # es" using assms(2) by (metis list.exhaust rev_is_Nil_conv)
  then have d: "isDigit d" using assms(1) by (metis list.set_intros(1) set_rev)
  have "dropWhile (\<lambda>c. \<not> isDigit c) (rev u @ d # es) = d # es"
    using assms(3) d by (subst dropWhile_append2) auto
  moreover have "takeWhile (\<lambda>c. \<not> isDigit c) (rev u @ d # es) = rev u"
    using assms(3) d by (subst takeWhile_append2) auto
  ultimately show "digitsPart (ds @ u) = ds" "suffixPart (ds @ u) = u"
    using ds rev_rev_ident [of ds] by (simp_all add: digitsPart_def suffixPart_def)
qed

lemma unit_chars: "\<forall>c \<in> set ''hmsgbiHMSGBI''. \<not> isDigit c"
  by code_simp

lemma unit_not_digit: "\<forall>c \<in> set u. c \<in> set ''hmsgbiHMSGBI'' \<Longrightarrow> \<forall>c \<in> set u. \<not> isDigit c"
  using unit_chars by blast

lemma cut_FormatUint:
  assumes "\<forall>c \<in> set u. c \<in> set ''hmsgbiHMSGBI''"
  shows "digitsPart (FormatUint n @ u) = FormatUint n" and "suffixPart (FormatUint n @ u) = u"
  using cut_after_digits [of "FormatUint n" u] FormatUint_digits unit_not_digit [OF assms] by auto

lemma unat_of_nat_mult: "unat (of_nat n * of_nat k :: 'a :: len word) = n * k mod 2 ^ LENGTH('a)"
  by (metis of_nat_mult unat_of_nat)

subsection \<open>Callbacks of the selected fields\<close>

lemma runCallbacks_keeps:
  assumes "\<And>f c u. (f, c) \<in> set fcs \<Longrightarrow> I u \<Longrightarrow> I (snd (onFound f c u))" and "I s"
  shows "I (snd (runCallbacks fcs s))"
  using assms
proof (induction fcs s rule: runCallbacks.induct)
  case (2 f c rest s)
  obtain e s' where ev: "onFound f c s = (e, s')" by fastforce
  have "I s'" using "2.prems"(1) [of f c s] "2.prems"(2) ev by simp
  then show ?case using 2 ev by (cases e) auto
qed simp

lemma warnNotMap_treeHost [simp]:
  "tree (warnNotMap treeHost s) = tree s" "path (warnNotMap treeHost s) = path s" "val (warnNotMap treeHost s) = val s"
  by (simp_all add: warnNotMap_def treeHost_def Let_def)

lemma cur_treeHost [simp]: "cur treeHost \<lparr>tree = n, path = [], issues = is, val = a\<rparr> = n"
  by (simp add: treeHost_def)

lemma cur_warnNotMap [simp]: "cur treeHost (warnNotMap treeHost \<lparr>tree = n, path = [], issues = is, val = a\<rparr>) = n"
  by (simp add: treeHost_def warnNotMap_def Let_def)

lemma parseOwn_keeps:
  fixes flds :: "'a treeState field list"
  assumes "\<And>f c u. c \<in> set (nkids n) \<Longrightarrow> FindFieldByName flds (nname c) = Some f \<Longrightarrow>
      I (val u) \<Longrightarrow> I (val (snd (onFound f c u)))"
    and "I a"
  shows "I (val (snd (parseOwn flds n is a)))"
proof -
  let ?s = "warnNotMap treeHost \<lparr>tree = n, path = [], issues = is, val = a\<rparr>"
  have "I (val (snd (runCallbacks (calls flds (nkids n)) ?s)))"
  proof (rule runCallbacks_keeps [where I = "\<lambda>u. I (val u)"])
    fix f c and u :: "'a treeState"
    assume "(f, c) \<in> set (calls flds (nkids n))" and "I (val u)"
    then show "I (val (snd (onFound f c u)))"
      using assms(1) [of c f u] calls_mem [of f c flds "nkids n"] by simp
  qed (simp add: assms(2))
  then show ?thesis
    by (auto simp: parseOwn_def Parse_no_collectibles Let_def split: prod.splits option.splits)
qed

subsection \<open>Caches\<close>

definition cacheInv :: "cacheState \<Rightarrow> bool" where
  "cacheInv a \<longleftrightarrow> reuploadOnChangesExplicitlySet a \<or> \<not> ReuploadOnChanges (cacheInstr a) \<or>
     FingerprintScripts (cacheInstr a) = [] \<and> FingerprintKey (cacheInstr a) = []"

interpretation cache: parser_invariant treeHost "cacheFields kit mergedEnv" "[]" "\<lambda>s. cacheInv (val s)" for kit mergedEnv
proof unfold_locales
  fix f :: "cacheState treeState field" and s :: "cacheState treeState" and n
  assume "f \<in> set (cacheFields kit mergedEnv)" and "cacheInv (val s)"
  then show "cacheInv (val (snd (onFound f n s)))"
    by (auto simp: cacheFields_def OptionalField_def setValue_def disableReupload_def cacheInv_def
        split: sum.splits if_splits)
qed (simp_all add: treeHost_def)

lemma cacheFields_not_explicit:
  assumes "FindFieldByName (cacheFields kit mergedEnv) name = Some f" and "name \<noteq> ''reupload_on_changes''"
    and "\<not> reuploadOnChangesExplicitlySet (val u)"
  shows "\<not> reuploadOnChangesExplicitlySet (val (snd (onFound f c u)))"
proof -
  have "f \<in> set (cacheFields kit mergedEnv)" "Matches (fieldName f) name"
    using assms(1) by (auto simp: FindFieldByName_def find_Some_iff)
  then show ?thesis
    using assms(2,3)
    by (auto simp: cacheFields_def OptionalField_def setValue_def disableReupload_def split: sum.splits)
qed

lemma parseCache_state:
  assumes "parseCache kit mergedEnv n is = (Inr c, is')"
  obtains st where "finishCache n st = Inr c" "cacheInv st"
    "''reupload_on_changes'' \<in> nname ` set (nkids n) \<or> \<not> reuploadOnChangesExplicitlySet st"
proof -
  obtain e s where s: "parseOwn (cacheFields kit mergedEnv) n is newCacheState = (e, s)" by fastforce
  then have "e = None" "finishCache n (val s) = Inr c"
    using assms by (auto simp: parseCache_def split: option.splits)
  moreover have "cacheInv newCacheState" by (simp add: cacheInv_def newCacheState_def)
  then have "cacheInv (val (snd (parseOwn (cacheFields kit mergedEnv) n is newCacheState)))"
    unfolding parseOwn_def by (intro cache.Parse_keeps) simp
  moreover have "\<not> reuploadOnChangesExplicitlySet (val (snd (parseOwn (cacheFields kit mergedEnv) n is newCacheState)))"
    if "''reupload_on_changes'' \<notin> nname ` set (nkids n)"
  proof (rule parseOwn_keeps [where I = "\<lambda>a. \<not> reuploadOnChangesExplicitlySet a"])
    fix f c and u :: "cacheState treeState"
    assume "c \<in> set (nkids n)" and "FindFieldByName (cacheFields kit mergedEnv) (nname c) = Some f"
      and "\<not> reuploadOnChangesExplicitlySet (val u)"
    moreover from this(1) have "nname c \<noteq> ''reupload_on_changes''" using that by force
    ultimately show "\<not> reuploadOnChangesExplicitlySet (val (snd (onFound f c u)))"
      using cacheFields_not_explicit by blast
  qed (simp add: newCacheState_def)
  ultimately show ?thesis using that [of "val s"] s by auto
qed

section \<open>Properties\<close>


abbreviation exampleCache :: node where
  "exampleCache \<equiv> Node ''gems_cache'' MapValue
     [Node ''fingerprint_key'' (ScalarValue ''v1'') [] 1 1, Node ''folder'' (ScalarValue ''gems'') [] 2 1] 0 0"

lemma exampleCache_parses:
  "parseCache \<lparr>boolEval = (\<lambda>e env. ParseBool e), psEncoder = Inr\<rparr> [] exampleCache [] =
     (Inr (mkCommand ''gems'' (CacheInstruction \<lparr>Folders = [''gems''], FingerprintScripts = [], FingerprintKey = ''v1'',
        PopulateScripts = [], ReuploadOnChanges = False, OptimisticallyRestoreOnMiss = False\<rparr>)), [])"
  by code_simp


text \<open>
  C33. A duration is its number times the seconds of its unit (minutes by default), modulo \<open>2^32\<close>;
  a memory size is its number times 1024 for gibibytes (and for small numbers without a unit), which
  never overflows.
\<close>

theorem duration_and_size:
  assumes "n < 2 ^ 32"
  shows "(\<exists>r. ParseSeconds (FormatUint n @ ''h'') = Inr r \<and> unat r = n * 3600 mod 2 ^ 32) \<and>
    (\<exists>r. ParseSeconds (FormatUint n @ ''m'') = Inr r \<and> unat r = n * 60 mod 2 ^ 32) \<and>
    (\<exists>r. ParseSeconds (FormatUint n) = Inr r \<and> unat r = n * 60 mod 2 ^ 32) \<and>
    (\<exists>r. ParseSeconds (FormatUint n @ ''s'') = Inr r \<and> unat r = n) \<and>
    (\<exists>r. ParseMegaBytes (FormatUint n @ ''G'') = Inr r \<and> unat r = n * 1024) \<and>
    (\<exists>r. ParseMegaBytes (FormatUint n @ ''Mb'') = Inr r \<and> unat r = n) \<and>
    (\<exists>r. ParseMegaBytes (FormatUint n) = Inr r \<and> unat r = (if n < 100 then n * 1024 else n))"
proof -
  have low: "ToLower ''h'' = ''h''" "ToLower ''m'' = ''m''" "ToLower ''s'' = ''s''" "ToLower ''G'' = ''g''"
    "ToLower ''Mb'' = ''mb''" "ToLower [] = []"
    by code_simp+
  have cut: "digitsPart (FormatUint n @ u) = FormatUint n" "suffixPart (FormatUint n @ u) = u"
    if "u \<in> {[], ''h'', ''m'', ''s'', ''g'', ''mb''}" for u
    using that by (auto intro!: cut_FormatUint)
  have parse: "ParseUint (FormatUint n) 32 = Inr n" using assms by (rule ParseUint_FormatUint)
  have small: "n * 1024 mod 2 ^ 64 = n * 1024" "n mod 2 ^ 64 = n" "n mod 2 ^ 32 = n" using assms by simp_all
  have k32: "unat (of_nat n * 3600 :: 32 word) = n * 3600 mod 2 ^ 32" "unat (of_nat n * 60 :: 32 word) = n * 60 mod 2 ^ 32"
    using unat_of_nat_mult [where 'a = 32, of n 3600] unat_of_nat_mult [where 'a = 32, of n 60] by simp_all
  have k64: "unat (of_nat n * 1024 :: 64 word) = n * 1024" "unat (of_nat n :: 64 word) = n" "unat (of_nat n :: 32 word) = n"
    using unat_of_nat_mult [where 'a = 64, of n 1024] small by (simp_all add: unat_of_nat)
  have border: "(of_nat n :: 64 word) < 100 \<longleftrightarrow> n < 100"
    using k64(2) by (simp add: word_less_nat_alt)
  show ?thesis
    using cut low parse k32 k64 border cut [of "[]"] ToLower_FormatUint [of n "[]"]
    by (simp add: ParseSeconds_def ParseMegaBytes_def Let_def)
qed

theorem duration_and_size_witness:
  "\<exists>r. ParseSeconds (FormatUint 1193047 @ ''h'') = Inr r \<and> unat r = 1904"
  using duration_and_size [of 1193047] by auto

text \<open>
  \<open>upload_caches\<close> produces one upload command per listed cache, in order, and only for commands
  that are already defined and not already scheduled; the implicit uploads are one per cache
  instruction, with its behavior, and none once an upload was scheduled explicitly.
\<close>

theorem uploads_correct:
  "(\<forall>cs. UploadCachesHelper env previous n = Inr cs \<longrightarrow>
      (\<exists>names. GetSliceOfExpandedStrings n env = Inr names \<and>
         cs = map (\<lambda>name. mkCommand (uploadName name) (UploadCacheInstruction name)) names \<and>
         set names \<subseteq> cmdName ` set previous \<and> uploadName ` set names \<inter> cmdName ` set previous = {})) \<and>
   (if \<exists>c \<in> set previous. isUpload (cmdInstruction c) then GenUploadCacheCmds previous = []
    else map cmdName (GenUploadCacheCmds previous) =
           map (\<lambda>c. uploadName (cmdName c)) (filter (\<lambda>c. isCache (cmdInstruction c)) previous) \<and>
         map cmdBehavior (GenUploadCacheCmds previous) =
           map cmdBehavior (filter (\<lambda>c. isCache (cmdInstruction c)) previous))"
proof -
  have one: "list_all2 (\<lambda>name c. (if name \<notin> cmdName ` set previous then
          Inl (ParserError n ''no cache with name %q is defined'' [name])
        else if uploadName name \<in> cmdName ` set previous then
          Inl (ParserError n (''the cache with name %q is already scheduled to be uploaded in one '' @
            ''of the previous upload_caches instructions'') [uploadName name])
        else Inr (mkCommand (uploadName name) (UploadCacheInstruction name))) = Inr c) names cs \<Longrightarrow>
      cs = map (\<lambda>name. mkCommand (uploadName name) (UploadCacheInstruction name)) names \<and>
      set names \<subseteq> cmdName ` set previous \<and> uploadName ` set names \<inter> cmdName ` set previous = {}" for names cs
    by (induction names cs rule: list_all2_induct) (auto split: if_splits)
  have "\<exists>names. GetSliceOfExpandedStrings n env = Inr names \<and>
      cs = map (\<lambda>name. mkCommand (uploadName name) (UploadCacheInstruction name)) names \<and>
      set names \<subseteq> cmdName ` set previous \<and> uploadName ` set names \<inter> cmdName ` set previous = {}"
    if "UploadCachesHelper env previous n = Inr cs" for cs
    using that one by (auto simp: UploadCachesHelper_def mapE_Inr_iff split: sum.splits)
  then show ?thesis by (auto simp: GenUploadCacheCmds_def)
qed

theorem uploads_correct_witness:
  "\<exists>names. GetSliceOfExpandedStrings (Node ''upload_caches'' ListValue [Node [] (ScalarValue ''gems'') [] 1 1] 0 0) [] = Inr names \<and>
     [mkCommand (uploadName ''gems'') (UploadCacheInstruction ''gems'')]
       = map (\<lambda>name. mkCommand (uploadName name) (UploadCacheInstruction name)) names"
proof -
  have "UploadCachesHelper [] [mkCommand ''gems'' OtherInstruction]
      (Node ''upload_caches'' ListValue [Node [] (ScalarValue ''gems'') [] 1 1] 0 0)
    = Inr [mkCommand (uploadName ''gems'') (UploadCacheInstruction ''gems'')]"
    by code_simp
  from uploads_correct [THEN conjunct1, rule_format, OF this]
  show ?thesis by (elim exE conjE) (intro exI conjI)
qed

end
