(* ===== verification/Deps.thy ===== *)
theory Deps
  imports Commands
begin

text \<open>
  Package \<open>pkg/parser\<close> (validate.go and the dependency resolution of parser.go): names of
  dependencies are resolved to task identifiers, and the dependency graph is validated. A task-like
  object is a record of what the code reads through the interface \<open>ParseableTaskLike\<close>.
\<close>

record taskLike =
  tlID :: int
  tlName :: string
  tlAlias :: string
  tlFallbackName :: string
  tlDependsOnNames :: "string list"
  tlDependsOnIDs :: "int list"
  tlOnlyIf :: string
  tlLine :: int
  tlColumn :: int

section \<open>Commands of a task\<close>

fun commandInstructionType :: "instruction \<Rightarrow> string" where
  "commandInstructionType ExitInstruction = ''exit''"
| "commandInstructionType (ScriptInstruction _) = ''script''"
| "commandInstructionType (BackgroundScriptInstruction _) = ''background script''"
| "commandInstructionType (CacheInstruction _) = ''cache''"
| "commandInstructionType (UploadCacheInstruction _) = ''upload cache''"
| "commandInstructionType CloneInstruction = ''clone''"
| "commandInstructionType (FileInstruction _) = ''file''"
| "commandInstructionType (ArtifactsInstruction _) = ''artifacts''"
| "commandInstructionType OtherInstruction = ''unknown''"

definition duplicateError :: "string \<Rightarrow> string \<Rightarrow> command \<Rightarrow> err" where
  "duplicateError taskName seenType c =
     (let t = commandInstructionType (cmdInstruction c)
      in Basic (''task '%s' has %s with an identical name '' @ [CHR 0x27] @ ''%s'' @ [CHR 0x27])
           [taskName,
            if seenType = t then ''two '' @ seenType @ '' instructions''
            else seenType @ '' and '' @ t @ '' instructions'',
            cmdName c])"

fun validateCommands :: "string \<Rightarrow> (string \<times> string) list \<Rightarrow> command list \<Rightarrow> err option" where
  "validateCommands taskName seen [] = None"
| "validateCommands taskName seen (c # cs) =
     (case map_of seen (cmdName c) of
        Some seenType \<Rightarrow> Some (duplicateError taskName seenType c)
      | None \<Rightarrow> validateCommands taskName ((cmdName c, commandInstructionType (cmdInstruction c)) # seen) cs)"

definition validateTask :: "string \<Rightarrow> command list \<Rightarrow> err option" where
  "validateTask taskName commands = validateCommands taskName [] commands"

section \<open>Resolution of names\<close>

definition unbalancedOnlyIfIssue :: "taskLike \<Rightarrow> string \<Rightarrow> issue" where
  "unbalancedOnlyIfIssue dependent dependeeName =
     \<lparr>issueLevel = WARNING,
      issueFormat = ''task \"%s\" depends on task \"%s\", but their only_if conditions are different'',
      issueArgs = [tlName dependent, dependeeName], issueLine = tlLine dependent, issueColumn = tlColumn dependent\<rparr>"

definition namedTasks :: "taskLike list \<Rightarrow> string \<Rightarrow> taskLike list" where
  "namedTasks tasks name = filter (\<lambda>t. tlName t = name \<or> tlAlias t = name) tasks"

text \<open>The loop over the names of one task; \<open>disabled\<close> are the names of the tasks cut by \<open>only_if\<close>.\<close>

fun resolveNames ::
  "string list \<Rightarrow> taskLike list \<Rightarrow> taskLike \<Rightarrow> string list \<Rightarrow> int list \<Rightarrow> issue list \<Rightarrow> (int list res) \<times> issue list" where
  "resolveNames disabled tasks task [] ids is = (Inr ids, is)"
| "resolveNames disabled tasks task (name # names) ids is =
     (let found = namedTasks tasks name
      in if found \<noteq> [] then resolveNames disabled tasks task names (ids @ map tlID found) is
         else if name \<in> set disabled then
           resolveNames disabled tasks task names ids (is @ [unbalancedOnlyIfIssue task name])
         else if name \<in> tlFallbackName ` set tasks then
           (Inl (Basic (''task '%s' depends on task '%s', which name was overridden by '' @
              ''a name: field inside of that task'') [tlName task, name]), is)
         else
           (Inl (Basic ''there's no task '%s', but task '%s' depends on it'' [name, tlName task]), is))"

text \<open>
  The outer loop. The tasks resolved so far are changed in place; names, aliases, fallback names and
  identifiers, which the inner loop reads, stay as they are.
\<close>

fun resolveTasks ::
  "string list \<Rightarrow> taskLike list \<Rightarrow> taskLike list \<Rightarrow> issue list \<Rightarrow> (taskLike list res) \<times> issue list" where
  "resolveTasks disabled tasks [] is = (Inr [], is)"
| "resolveTasks disabled tasks (t # ts) is =
     (case resolveNames disabled tasks t (tlDependsOnNames t) [] is of
        (Inl e, is') \<Rightarrow> (Inl e, is')
      | (Inr ids, is') \<Rightarrow>
          (case resolveTasks disabled tasks ts is' of
             (Inl e, is'') \<Rightarrow> (Inl e, is'')
           | (Inr ts', is'') \<Rightarrow> (Inr (t\<lparr>tlDependsOnIDs := sort ids\<rparr> # ts'), is'')))"

definition resolveDependenciesShallow ::
  "string list \<Rightarrow> taskLike list \<Rightarrow> issue list \<Rightarrow> (taskLike list res) \<times> issue list" where
  "resolveDependenciesShallow disabled tasks is = resolveTasks disabled tasks tasks is"

text \<open>\<open>searchForUnbalancedOnlyIfs\<close>: the last task of an identifier is the one in the index.\<close>

definition searchForUnbalancedOnlyIfs :: "taskLike list \<Rightarrow> issue list" where
  "searchForUnbalancedOnlyIfs tasks =
     concat (map (\<lambda>task. concat (map (\<lambda>i.
         case map_of (rev (map (\<lambda>t. (tlID t, t)) tasks)) i of
           None \<Rightarrow> []
         | Some dependent \<Rightarrow>
             if tlOnlyIf dependent \<noteq> [] \<and> tlOnlyIf task \<noteq> tlOnlyIf dependent
             then [unbalancedOnlyIfIssue task (tlName dependent)] else [])
       (tlDependsOnIDs task))) tasks)"

section \<open>Validation of the graph\<close>

definition newlySatisfied :: "taskLike list \<Rightarrow> int list \<Rightarrow> taskLike list" where
  "newlySatisfied tasks sat =
     filter (\<lambda>t. \<forall>d \<in> set (tlDependsOnIDs t). d \<in> set sat) (filter (\<lambda>t. tlID t \<notin> set sat) tasks)"

function satisfiedIDs :: "taskLike list \<Rightarrow> int list \<Rightarrow> int list" where
  "satisfiedIDs tasks sat =
     (let new = newlySatisfied tasks sat
      in if new = [] then sat else satisfiedIDs tasks (map tlID new @ sat))"
  by pat_completeness auto
termination
proof (relation "measure (\<lambda>(tasks, sat). card (tlID ` set tasks - set sat))", goal_cases)
  case (2 tasks sat new)
  obtain t where "t \<in> set new" using 2(2) by (cases new) auto
  then have t: "t \<in> set tasks" "tlID t \<notin> set sat" "t \<in> set new"
    using 2(1) by (auto simp: newlySatisfied_def)
  have "tlID ` set tasks - set (map tlID new @ sat) \<subset> tlID ` set tasks - set sat"
    using t by auto
  then show ?case by (auto intro!: psubset_card_mono)
qed simp

declare satisfiedIDs.simps [simp del]

definition validateDependenciesDeep :: "taskLike list \<Rightarrow> err option" where
  "validateDependenciesDeep tasks =
     (let sat = satisfiedIDs tasks []
      in if card (set sat) \<noteq> length tasks then
           Some (Basic ''error in dependencies between tasks: %v''
             [Join '', '' (map tlName (filter (\<lambda>t. tlID t \<notin> set sat) tasks))])
         else None)"

section \<open>What can be satisfied\<close>

inductive satisfiable :: "taskLike list \<Rightarrow> int \<Rightarrow> bool" for tasks where
  step: "t \<in> set tasks \<Longrightarrow> (\<And>d. d \<in> set (tlDependsOnIDs t) \<Longrightarrow> satisfiable tasks d) \<Longrightarrow> satisfiable tasks (tlID t)"

lemma satisfiedIDs_sound:
  "\<forall>i \<in> set sat. satisfiable tasks i \<Longrightarrow> \<forall>i \<in> set (satisfiedIDs tasks sat). satisfiable tasks i"
proof (induction tasks sat rule: satisfiedIDs.induct)
  case (1 tasks sat)
  show ?case
  proof (cases "newlySatisfied tasks sat = []")
    case True
    then show ?thesis using "1.prems" by (simp add: satisfiedIDs.simps [of tasks sat])
  next
    case False
    have "satisfiable tasks (tlID t)" if "t \<in> set (newlySatisfied tasks sat)" for t
      using that "1.prems" by (auto simp: newlySatisfied_def intro: satisfiable.step)
    then have "\<forall>i \<in> set (map tlID (newlySatisfied tasks sat) @ sat). satisfiable tasks i"
      using "1.prems" by auto
    then show ?thesis
      using "1.IH" [OF refl False] False by (simp add: satisfiedIDs.simps [of tasks sat])
  qed
qed

lemma satisfiedIDs_closed: "newlySatisfied tasks (satisfiedIDs tasks sat) = []"
proof (induction tasks sat rule: satisfiedIDs.induct)
  case (1 tasks sat)
  then show ?case
    by (cases "newlySatisfied tasks sat = []") (simp_all add: satisfiedIDs.simps [of tasks sat] Let_def)
qed

lemma satisfiedIDs_complete: "satisfiable tasks i \<Longrightarrow> i \<in> set (satisfiedIDs tasks sat)"
proof (induction rule: satisfiable.induct)
  case (step t)
  then show ?case
    using satisfiedIDs_closed [of tasks sat] by (auto simp: newlySatisfied_def filter_empty_conv)
qed

lemma set_satisfiedIDs: "set (satisfiedIDs tasks []) = {i. satisfiable tasks i}"
  using satisfiedIDs_sound [of "[]" tasks] satisfiedIDs_complete [of tasks _ "[]"] by auto

lemma satisfiable_task: "satisfiable tasks i \<Longrightarrow> i \<in> tlID ` set tasks"
  by (induction rule: satisfiable.induct) simp

definition dependencies :: "taskLike list \<Rightarrow> (int \<times> int) set" where
  "dependencies tasks = {(d, tlID t) | d t. t \<in> set tasks \<and> d \<in> set (tlDependsOnIDs t)}"

lemma finite_dependencies: "finite (dependencies tasks)"
proof -
  have "dependencies tasks \<subseteq> (\<Union>t \<in> set tasks. set (tlDependsOnIDs t)) \<times> tlID ` set tasks"
    by (auto simp: dependencies_def)
  then show ?thesis by (rule finite_subset) simp
qed

lemma acyclic_satisfiable:
  assumes "acyclic (dependencies tasks)" and "\<forall>t \<in> set tasks. set (tlDependsOnIDs t) \<subseteq> tlID ` set tasks"
    and "t \<in> set tasks"
  shows "satisfiable tasks (tlID t)"
proof -
  have "wf (dependencies tasks)" using finite_dependencies assms(1) by (rule finite_acyclic_wf)
  then have "\<forall>u \<in> set tasks. tlID u = i \<longrightarrow> satisfiable tasks i" for i
  proof (induction i rule: wf_induct_rule)
    case (less i)
    have "satisfiable tasks (tlID u)" if u: "u \<in> set tasks" "tlID u = i" for u
    proof (rule satisfiable.step [OF u(1)])
      fix d
      assume d: "d \<in> set (tlDependsOnIDs u)"
      then obtain v where "v \<in> set tasks" "tlID v = d" using assms(2) u(1) by auto
      moreover have "(d, i) \<in> dependencies tasks" using d u by (auto simp: dependencies_def)
      ultimately show "satisfiable tasks d" using less by blast
    qed
    then show ?case by blast
  qed
  then show ?thesis using assms(3) by blast
qed

lemma satisfiable_deps:
  assumes "distinct (map tlID tasks)" and "satisfiable tasks (tlID t)" and "t \<in> set tasks"
    and "d \<in> set (tlDependsOnIDs t)"
  shows "satisfiable tasks d"
  using assms(2)
proof cases
  case (step u)
  then have "u = t" using assms(1,3) by (auto simp: distinct_map dest: inj_onD)
  then show ?thesis using step assms(4) by simp
qed

lemma satisfiable_acyclic:
  assumes "distinct (map tlID tasks)" and "\<forall>t \<in> set tasks. satisfiable tasks (tlID t)"
  shows "acyclic (dependencies tasks)"
proof -
  have ids: "t = u" if "t \<in> set tasks" "u \<in> set tasks" "tlID t = tlID u" for t u
    using assms(1) that by (auto simp: distinct_map dest: inj_onD)
  have task: "i \<in> Wellfounded.acc (dependencies tasks)" if "satisfiable tasks i" for i
    using that
  proof (induction rule: satisfiable.induct)
    case (step t)
    show ?case
    proof (rule accI)
      fix d
      assume "(d, tlID t) \<in> dependencies tasks"
      then obtain u where "u \<in> set tasks" "tlID u = tlID t" "d \<in> set (tlDependsOnIDs u)"
        by (auto simp: dependencies_def)
      then show "d \<in> Wellfounded.acc (dependencies tasks)" using ids [of u t] step by auto
    qed
  qed
  have "i \<in> Wellfounded.acc (dependencies tasks)" for i
  proof (cases "i \<in> tlID ` set tasks")
    case True
    then show ?thesis using assms(2) task by auto
  next
    case False
    show ?thesis by (rule accI) (use False in \<open>auto simp: dependencies_def\<close>)
  qed
  then have "\<forall>i. i \<in> Wellfounded.acc (dependencies tasks)" ..
  then have "wf (dependencies tasks)" by (rule acc_wfI)
  then show ?thesis by (rule wf_acyclic)
qed

section \<open>Facts about resolution\<close>

lemma resolveNames_Inr:
  assumes "resolveNames disabled tasks task names ids is = (Inr ids', is')"
  shows "ids' = ids @ concat (map (\<lambda>n. map tlID (namedTasks tasks n)) names) \<and>
    (\<forall>n \<in> set names. namedTasks tasks n \<noteq> [] \<or> n \<in> set disabled)"
  using assms
proof (induction disabled tasks task names ids "is" rule: resolveNames.induct)
  case (2 disabled tasks task name names ids "is")
  then show ?case by (auto simp: Let_def split: if_splits)
qed simp

lemma resolveTasks_Inr:
  assumes "resolveTasks disabled tasks ts is = (Inr ts', is')"
  shows "list_all2 (\<lambda>t t'. t' = t\<lparr>tlDependsOnIDs :=
        sort (concat (map (\<lambda>n. map tlID (namedTasks tasks n)) (tlDependsOnNames t)))\<rparr> \<and>
      (\<forall>n \<in> set (tlDependsOnNames t). namedTasks tasks n \<noteq> [] \<or> n \<in> set disabled)) ts ts'"
  using assms
proof (induction ts arbitrary: "is" ts' is')
  case (Cons t ts)
  obtain r is1 where r: "resolveNames disabled tasks t (tlDependsOnNames t) [] is = (r, is1)" by fastforce
  with Cons.prems obtain ids where ids: "r = Inr ids" by (cases r) auto
  obtain q is2 where q: "resolveTasks disabled tasks ts is1 = (q, is2)" by fastforce
  with Cons.prems r ids obtain us where us: "q = Inr us" "ts' = t\<lparr>tlDependsOnIDs := sort ids\<rparr> # us"
    by (cases q) auto
  show ?case
    using us Cons.IH [of is1 us is2] q resolveNames_Inr [of disabled tasks t "tlDependsOnNames t" "[]" "is" ids is1] r ids
    by simp
qed simp

lemma validateCommands_None:
  "validateCommands taskName seen cs = None \<longleftrightarrow>
     distinct (map cmdName cs) \<and> fst ` set seen \<inter> cmdName ` set cs = {}"
proof (induction cs arbitrary: seen)
  case (Cons c cs)
  then show ?case
    using map_of_eq_None_iff [of seen "cmdName c"] by (cases "map_of seen (cmdName c)") auto
qed simp

lemma validateDependenciesDeep_None:
  assumes "distinct (map tlID tasks)"
  shows "validateDependenciesDeep tasks = None \<longleftrightarrow>
    (\<forall>t \<in> set tasks. set (tlDependsOnIDs t) \<subseteq> tlID ` set tasks) \<and> acyclic (dependencies tasks)"
proof -
  have sub: "{i. satisfiable tasks i} \<subseteq> tlID ` set tasks" using satisfiable_task by auto
  have len: "card (tlID ` set tasks) = length tasks"
    using assms distinct_card [of "map tlID tasks"] by simp
  have "card {i. satisfiable tasks i} = length tasks \<longleftrightarrow> {i. satisfiable tasks i} = tlID ` set tasks"
    using len card_subset_eq [OF finite_imageI [OF finite_set] sub] by (metis (no_types))
  also have "\<dots> \<longleftrightarrow> (\<forall>t \<in> set tasks. satisfiable tasks (tlID t))"
    using sub by auto
  also have "\<dots> \<longleftrightarrow> (\<forall>t \<in> set tasks. set (tlDependsOnIDs t) \<subseteq> tlID ` set tasks) \<and> acyclic (dependencies tasks)"
  proof
    assume all: "\<forall>t \<in> set tasks. satisfiable tasks (tlID t)"
    have "d \<in> tlID ` set tasks" if "t \<in> set tasks" "d \<in> set (tlDependsOnIDs t)" for t d
      using satisfiable_deps [OF assms _ that] satisfiable_task all that by blast
    then show "(\<forall>t \<in> set tasks. set (tlDependsOnIDs t) \<subseteq> tlID ` set tasks) \<and> acyclic (dependencies tasks)"
      using satisfiable_acyclic [OF assms all] by blast
  next
    assume "(\<forall>t \<in> set tasks. set (tlDependsOnIDs t) \<subseteq> tlID ` set tasks) \<and> acyclic (dependencies tasks)"
    then show "\<forall>t \<in> set tasks. satisfiable tasks (tlID t)"
      using acyclic_satisfiable by blast
  qed
  finally show ?thesis
    by (simp add: validateDependenciesDeep_def set_satisfiedIDs)
qed

text \<open>A graph that was accepted can be ranked: a task ranks by the number of tasks it needs.\<close>

definition rankOf :: "taskLike list \<Rightarrow> int \<Rightarrow> nat" where
  "rankOf tasks i = card {j. (j, i) \<in> (dependencies tasks)\<^sup>+}"

lemma rankOf_less:
  assumes "acyclic (dependencies tasks)" and "(d, i) \<in> dependencies tasks"
  shows "rankOf tasks d < rankOf tasks i"
proof -
  have "{j. (j, i) \<in> (dependencies tasks)\<^sup>+} \<subseteq> Domain (dependencies tasks)"
    using trancl_domain [of "dependencies tasks"] by blast
  then have "finite {j. (j, i) \<in> (dependencies tasks)\<^sup>+}"
    by (rule finite_subset) (simp add: finite_Domain finite_dependencies)
  moreover have "{j. (j, d) \<in> (dependencies tasks)\<^sup>+} \<subset> {j. (j, i) \<in> (dependencies tasks)\<^sup>+}"
  proof
    show "{j. (j, d) \<in> (dependencies tasks)\<^sup>+} \<subseteq> {j. (j, i) \<in> (dependencies tasks)\<^sup>+}"
      using trancl_into_trancl [OF _ assms(2)] by blast
    show "{j. (j, d) \<in> (dependencies tasks)\<^sup>+} \<noteq> {j. (j, i) \<in> (dependencies tasks)\<^sup>+}"
      using assms r_into_trancl unfolding acyclic_def by blast
  qed
  ultimately show ?thesis unfolding rankOf_def by (rule psubset_card_mono)
qed

section \<open>Properties\<close>

text \<open>
  C5. The deep validation accepts a configuration exactly when every dependency is a task of the
  configuration and the dependency graph has no cycle; the loop of the code always ends, and its
  error names exactly the tasks that can never start.
\<close>

theorem validateDependenciesDeep_correct:
  assumes "distinct (map tlID tasks)"
  shows "(validateDependenciesDeep tasks = None \<longleftrightarrow>
      (\<forall>t \<in> set tasks. set (tlDependsOnIDs t) \<subseteq> tlID ` set tasks) \<and> acyclic (dependencies tasks)) \<and>
    (\<forall>e. validateDependenciesDeep tasks = Some e \<longrightarrow>
      e = Basic ''error in dependencies between tasks: %v''
            [Join '', '' (map tlName (filter (\<lambda>t. \<not> satisfiable tasks (tlID t)) tasks))])"
  using validateDependenciesDeep_None [OF assms] by (simp add: validateDependenciesDeep_def Let_def set_satisfiedIDs)

abbreviation exampleTask :: "int \<Rightarrow> string \<Rightarrow> int list \<Rightarrow> taskLike" where
  "exampleTask i name deps \<equiv> \<lparr>tlID = i, tlName = name, tlAlias = [], tlFallbackName = name,
     tlDependsOnNames = [], tlDependsOnIDs = deps, tlOnlyIf = [], tlLine = 0, tlColumn = 0\<rparr>"

theorem validateDependenciesDeep_correct_witness:
  "acyclic (dependencies [exampleTask 0 ''a'' [1], exampleTask 1 ''b'' []])"
proof -
  have "validateDependenciesDeep [exampleTask 0 ''a'' [1], exampleTask 1 ''b'' []] = None" by code_simp
  then show ?thesis
    using validateDependenciesDeep_correct [of "[exampleTask 0 ''a'' [1], exampleTask 1 ''b'' []]"] by simp
qed

text \<open>
  A successful resolution changes nothing of a task but the identifiers of its dependencies:
  they are, in ascending order, those of all the tasks that a dependency names, by name or by alias,
  and every name that no task has was the name of a task disabled by its \<open>only_if\<close>.
\<close>

theorem resolveDependenciesShallow_correct:
  assumes "resolveDependenciesShallow disabled tasks is = (Inr tasks', is')"
  shows "list_all2 (\<lambda>t t'. t' = t\<lparr>tlDependsOnIDs := tlDependsOnIDs t'\<rparr> \<and> sorted (tlDependsOnIDs t') \<and>
      set (tlDependsOnIDs t') = {tlID u | u n. u \<in> set tasks \<and> n \<in> set (tlDependsOnNames t) \<and>
          (tlName u = n \<or> tlAlias u = n)} \<and>
      (\<forall>n \<in> set (tlDependsOnNames t). n \<in> set disabled \<or> (\<exists>u \<in> set tasks. tlName u = n \<or> tlAlias u = n)))
    tasks tasks'"
  using resolveTasks_Inr [OF assms [unfolded resolveDependenciesShallow_def]]
  by (rule list_all2_mono) (fastforce simp: namedTasks_def filter_empty_conv)

theorem resolveDependenciesShallow_correct_witness:
  "list_all2 (\<lambda>t t'. sorted (tlDependsOnIDs t'))
     [exampleTask 0 ''a'' [], (exampleTask 1 ''b'' [])\<lparr>tlDependsOnNames := [''a'']\<rparr>]
     [exampleTask 0 ''a'' [], (exampleTask 1 ''b'' [0])\<lparr>tlDependsOnNames := [''a'']\<rparr>]"
  using resolveDependenciesShallow_correct [of "[]"
      "[exampleTask 0 ''a'' [], (exampleTask 1 ''b'' [])\<lparr>tlDependsOnNames := [''a'']\<rparr>]" "[]"
      "[exampleTask 0 ''a'' [], (exampleTask 1 ''b'' [0])\<lparr>tlDependsOnNames := [''a'']\<rparr>]" "[]"]
  by (simp add: resolveDependenciesShallow_def namedTasks_def)

text \<open>
  A task validates exactly when its commands have pairwise distinct names.
\<close>

theorem validateTask_correct: "validateTask taskName cs = None \<longleftrightarrow> distinct (map cmdName cs)"
  by (simp add: validateTask_def validateCommands_None)

end
