(* ===== verification/Proto.thy ===== *)
theory Proto
  imports Commands
begin

text \<open>
  The task message of the protocol (\<open>pkg/api\<close>, generated code) with the fields that the parser
  writes and the executor reads. The instance is kept unpacked from its \<open>Any\<close> wrapper:
  \<open>UnknownInst\<close> stands for a type that is not registered, \<open>BrokenInst\<close> for one that does not
  unmarshal.
\<close>

datatype platform = LINUX | WINDOWS | DARWIN

record containerInst =
  ciImage :: string
  ciDockerfile :: string
  ciDockerArguments :: env
  ciPlatform :: platform
  ciOsVersion :: string
  ciAdditional :: "(string \<times> string) list"

record prebuiltInst =
  piRepository :: string
  piReference :: string
  piPlatform :: platform
  piDockerfile :: string
  piArguments :: env

datatype inst =
    ContainerInst containerInst
  | PersistentWorkerInst "containerInst option"
  | PrebuiltInst prebuiltInst
  | PipeInst
  | OtherInst
  | UnknownInst
  | BrokenInst

record metadata =
  mdProperties :: env
  mdUniqueLabels :: "string list"

datatype apiStatus = CREATED | SKIPPED | OtherStatus

record ptask =
  ptName :: string
  ptID :: int
  ptInstance :: "inst option"
  ptCommands :: "command list"
  ptEnvironment :: env
  ptMetadata :: "metadata option"
  ptRequired :: "int list"
  ptStatus :: apiStatus

end
