(* ===== verification/TaskFilter.thy ===== *)
theory TaskFilter
  imports Proto
begin

text \<open>
  Package \<open>internal/executor/taskfilter\<close>: the selection of the tasks to run by name, alias and
  labels, with or without their dependencies.
\<close>

definition taskAlias :: "ptask \<Rightarrow> string" where
  "taskAlias t = (case ptMetadata t of None \<Rightarrow> [] | Some m \<Rightarrow> mget (mdProperties m) ''alias'')"

definition extractLabels :: "string \<Rightarrow> string list" where
  "extractLabels s = filter (\<lambda>l. TrimSpace l \<noteq> []) (SplitC (CHR '' '') s)"

definition EqualFold :: "string \<Rightarrow> string \<Rightarrow> bool" where
  "EqualFold a b = (ToLower a = ToLower b)"

definition containsAll :: "string list \<Rightarrow> string list \<Rightarrow> bool" where
  "containsAll actual desired =
     (length (filter (\<lambda>d. \<exists>a \<in> set actual. EqualFold d a) desired) = length desired)"

definition matchTask :: "string \<Rightarrow> string \<Rightarrow> metadata option \<Rightarrow> bool" where
  "matchTask desired nameOrAlias md =
     (if nameOrAlias = [] then False
      else if \<not> HasPrefix (ToLower desired) (ToLower nameOrAlias) then False
      else containsAll (case md of None \<Rightarrow> [] | Some m \<Rightarrow> mdUniqueLabels m)
             (extractLabels (TrimPrefix (ToLower desired) (ToLower nameOrAlias))))"

definition taskByID :: "ptask list \<Rightarrow> int \<Rightarrow> ptask option" where
  "taskByID tasks i = map_of (rev (map (\<lambda>t. (ptID t, t)) tasks)) i"

definition dependencyTasks :: "ptask list \<Rightarrow> ptask \<Rightarrow> ptask list" where
  "dependencyTasks tasks t = List.map_filter (taskByID tasks) (ptRequired t)"

lemma taskByID_Some: "taskByID tasks i = Some t \<Longrightarrow> t \<in> set tasks \<and> ptID t = i"
  unfolding taskByID_def by (drule map_of_SomeD) auto

lemma set_dependencyTasks: "set (dependencyTasks tasks t) = {u. \<exists>i \<in> set (ptRequired t). taskByID tasks i = Some u}"
  by (auto simp: dependencyTasks_def List.map_filter_def) force

lemma dependencyTasks_subset: "set (dependencyTasks tasks t) \<subseteq> set tasks"
  using taskByID_Some by (auto simp: set_dependencyTasks)

text \<open>
  The depth-first traversal of \<open>collectDependencies\<close>, with the pending calls as a stack: a call
  that visits a task is followed by the calls for its dependencies, before the calls that were
  pending already.
\<close>

function collectDependencies :: "ptask list \<Rightarrow> ptask list \<Rightarrow> int list \<Rightarrow> ptask list" where
  "collectDependencies tasks [] visited = []"
| "collectDependencies tasks (t # stack) visited =
     (if ptID t \<in> set visited then collectDependencies tasks stack visited
      else t # collectDependencies tasks (dependencyTasks tasks t @ stack) (ptID t # visited))"
  by pat_completeness auto
termination
proof (relation "measures [\<lambda>(tasks, stack, visited). card (ptID ` (set tasks \<union> set stack) - set visited),
    \<lambda>(tasks, stack, visited). length stack]", goal_cases)
  case (2 tasks t stack visited)
  have "card (ptID ` (set tasks \<union> set stack) - set visited) \<le> card (ptID ` (set tasks \<union> set (t # stack)) - set visited)"
    by (intro card_mono) auto
  then show ?case by auto
next
  case (3 tasks t stack visited)
  have "ptID ` (set tasks \<union> set (dependencyTasks tasks t @ stack)) - set (ptID t # visited)
      \<subset> ptID ` (set tasks \<union> set (t # stack)) - set visited"
    using 3 dependencyTasks_subset [of tasks t] by auto
  then have "card (ptID ` (set tasks \<union> set (dependencyTasks tasks t @ stack)) - set (ptID t # visited))
      < card (ptID ` (set tasks \<union> set (t # stack)) - set visited)"
    by (intro psubset_card_mono) auto
  then show ?case by simp
qed simp

definition isMatch :: "string \<Rightarrow> ptask \<Rightarrow> bool" where
  "isMatch desired t =
     (matchTask desired (ptName t) (ptMetadata t) \<or> matchTask desired (taskAlias t) (ptMetadata t))"

definition MatchAnyTask :: "ptask list \<Rightarrow> ptask list res" where
  "MatchAnyTask tasks = Inr tasks"

definition MatchExactTaskWithOptions :: "string \<Rightarrow> bool \<Rightarrow> ptask list \<Rightarrow> ptask list res" where
  "MatchExactTaskWithOptions desired includeDependencies tasks =
     (let matched = concat (map (\<lambda>t.
            if \<not> isMatch desired t then []
            else if includeDependencies then collectDependencies tasks [t] []
            else [t\<lparr>ptRequired := []\<rparr>]) tasks)
      in if matched = [] then
           Inl (Plain ''task filter yielded no matches: none of the %d task(s) were matched using a %q filter''
             [FormatUint (length tasks), desired])
         else Inr matched)"

definition MatchExactTask :: "string \<Rightarrow> ptask list \<Rightarrow> ptask list res" where
  "MatchExactTask desired = MatchExactTaskWithOptions desired False"

section \<open>What the traversal collects\<close>

inductive requires :: "ptask list \<Rightarrow> ptask \<Rightarrow> ptask \<Rightarrow> bool" for tasks t where
  self: "requires tasks t t"
| dep: "requires tasks t u \<Longrightarrow> i \<in> set (ptRequired u) \<Longrightarrow> taskByID tasks i = Some v \<Longrightarrow> requires tasks t v"

lemma collect_ids:
  "distinct (map ptID (collectDependencies tasks stack visited)) \<and>
   ptID ` set (collectDependencies tasks stack visited) \<inter> set visited = {}"
proof (induction tasks stack visited rule: collectDependencies.induct)
  case (2 tasks t stack visited)
  then show ?case by auto
qed simp

lemma collect_sound:
  "u \<in> set (collectDependencies tasks stack visited) \<Longrightarrow> \<exists>t \<in> set stack. requires tasks t u"
proof (induction tasks stack visited rule: collectDependencies.induct)
  case (2 tasks t stack visited)
  show ?case
  proof (cases "ptID t \<in> set visited")
    case True
    then show ?thesis using 2 by auto
  next
    case False
    then consider "u = t" | "u \<in> set (collectDependencies tasks (dependencyTasks tasks t @ stack) (ptID t # visited))"
      using "2.prems" by auto
    then show ?thesis
    proof cases
      case 1
      then show ?thesis by (auto intro: requires.self)
    next
      case 2
      then obtain w where w: "w \<in> set (dependencyTasks tasks t @ stack)" "requires tasks w u"
        using "2.IH"(2) [OF False] by blast
      have "requires tasks t u" if "w \<in> set (dependencyTasks tasks t)"
      proof -
        have "requires tasks t w"
          using that by (auto simp: set_dependencyTasks intro: requires.dep [OF requires.self])
        with w(2) show ?thesis
          by (induction rule: requires.induct) (auto intro: requires.dep)
      qed
      then show ?thesis using w by auto
    qed
  qed
qed simp

lemma collect_complete:
  assumes "\<forall>u. ptID u \<in> set visited \<longrightarrow> u \<in> set tasks \<longrightarrow>
      ptID ` set (dependencyTasks tasks u) \<subseteq> set visited \<union> ptID ` set stack"
    and "set stack \<subseteq> set tasks" and "distinct (map ptID tasks)"
  shows "ptID ` set stack \<subseteq> set visited \<union> ptID ` set (collectDependencies tasks stack visited) \<and>
    (\<forall>u \<in> set tasks. ptID u \<in> set visited \<union> ptID ` set (collectDependencies tasks stack visited) \<longrightarrow>
      ptID ` set (dependencyTasks tasks u) \<subseteq> set visited \<union> ptID ` set (collectDependencies tasks stack visited))"
  using assms
proof (induction tasks stack visited rule: collectDependencies.induct)
  case (1 tasks visited)
  then show ?case by auto
next
  case (2 tasks t stack visited)
  show ?case
  proof (cases "ptID t \<in> set visited")
    case True
    then have "\<forall>u. ptID u \<in> set visited \<longrightarrow> u \<in> set tasks \<longrightarrow>
        ptID ` set (dependencyTasks tasks u) \<subseteq> set visited \<union> ptID ` set stack"
      using "2.prems"(1) True by (simp add: insert_absorb)
    then show ?thesis using "2.IH"(1) [OF True] "2.prems"(2,3) True by auto
  next
    case False
    have eq: "u = t" if "u \<in> set tasks" "ptID u = ptID t" for u
      using that "2.prems"(2,3) by (auto simp: distinct_map dest: inj_onD)
    have "\<forall>u. ptID u \<in> set (ptID t # visited) \<longrightarrow> u \<in> set tasks \<longrightarrow>
        ptID ` set (dependencyTasks tasks u) \<subseteq> set (ptID t # visited) \<union> ptID ` set (dependencyTasks tasks t @ stack)"
      using "2.prems"(1) eq by fastforce
    then show ?thesis
      using "2.IH"(2) [OF False] "2.prems"(2,3) dependencyTasks_subset [of tasks t] False by auto
  qed
qed

lemma set_collectDependencies:
  assumes "t \<in> set tasks" and "distinct (map ptID tasks)"
  shows "set (collectDependencies tasks [t] []) = {u. requires tasks t u}"
proof -
  let ?r = "set (collectDependencies tasks [t] [])"
  have complete: "ptID t \<in> ptID ` ?r"
    "\<forall>u \<in> set tasks. ptID u \<in> ptID ` ?r \<longrightarrow> ptID ` set (dependencyTasks tasks u) \<subseteq> ptID ` ?r"
    using collect_complete [of "[]" tasks "[t]"] assms by auto
  have req: "u \<in> set tasks" if "requires tasks t u" for u
    using that by (induction rule: requires.induct) (use assms(1) taskByID_Some in auto)
  have sub: "?r \<subseteq> {u. requires tasks t u}" using collect_sound [of _ tasks "[t]" "[]"] by auto
  have ids: "ptID u \<in> ptID ` ?r" if "requires tasks t u" for u
    using that
  proof (induction rule: requires.induct)
    case self
    then show ?case using complete(1) .
  next
    case (dep u i v)
    then have "v \<in> set (dependencyTasks tasks u)" by (auto simp: set_dependencyTasks)
    then show ?case using complete(2) req [OF dep.hyps(1)] dep.IH by blast
  qed
  have "u \<in> ?r" if u: "requires tasks t u" for u
  proof -
    obtain w where "w \<in> ?r" "ptID w = ptID u" using ids [OF u] by force
    moreover have "w \<in> set tasks" using sub req calculation(1) by auto
    ultimately show ?thesis using req [OF u] assms(2) by (auto simp: distinct_map dest: inj_onD)
  qed
  then show ?thesis using sub by auto
qed

section \<open>Properties\<close>

text \<open>
  C34. Selecting a task together with its dependencies yields the task and everything it needs,
  directly or not, each exactly once and the task itself first; nothing else is selected. The
  traversal ends on cyclic graphs, too.
\<close>

theorem collectDependencies_correct:
  assumes "t \<in> set tasks" and "distinct (map ptID tasks)"
  shows "set (collectDependencies tasks [t] []) = {u. requires tasks t u} \<and>
    distinct (map ptID (collectDependencies tasks [t] [])) \<and> hd (collectDependencies tasks [t] []) = t"
  using set_collectDependencies [OF assms] collect_ids [of tasks "[t]" "[]"] by simp

abbreviation examplePTask :: "int \<Rightarrow> int list \<Rightarrow> ptask" where
  "examplePTask i deps \<equiv> \<lparr>ptName = ''t'', ptID = i, ptInstance = None, ptCommands = [], ptEnvironment = [],
     ptMetadata = None, ptRequired = deps, ptStatus = CREATED\<rparr>"

theorem collectDependencies_correct_witness:
  "set (collectDependencies [examplePTask 0 [1], examplePTask 1 [0], examplePTask 2 []] [examplePTask 0 [1]] [])
     = {u. requires [examplePTask 0 [1], examplePTask 1 [0], examplePTask 2 []] (examplePTask 0 [1]) u}"
  using collectDependencies_correct [of "examplePTask 0 [1]" "[examplePTask 0 [1], examplePTask 1 [0], examplePTask 2 []]"]
  by simp

text \<open>
  Without dependencies the filter returns the matching tasks in their order with their
  dependencies cleared, and it is an error that nothing matches; a task that is matched by its full
  name is always selected.
\<close>

theorem MatchExactTask_correct:
  "MatchExactTask desired tasks =
     (if \<exists>t \<in> set tasks. isMatch desired t
      then Inr (map (\<lambda>t. t\<lparr>ptRequired := []\<rparr>) (filter (isMatch desired) tasks))
      else Inl (Plain ''task filter yielded no matches: none of the %d task(s) were matched using a %q filter''
             [FormatUint (length tasks), desired])) \<and>
   (\<forall>t \<in> set tasks. ptName t \<noteq> [] \<and> EqualFold desired (ptName t) \<longrightarrow> isMatch desired t)"
proof -
  have "concat (map (\<lambda>t. if \<not> isMatch desired t then []
        else if False then collectDependencies tasks [t] [] else [t\<lparr>ptRequired := []\<rparr>]) ts)
      = map (\<lambda>t. t\<lparr>ptRequired := []\<rparr>) (filter (isMatch desired) ts)" for ts
    by (induction ts) auto
  moreover have "isMatch desired t" if "ptName t \<noteq> []" "EqualFold desired (ptName t)" for t
  proof -
    have "matchTask desired (ptName t) (ptMetadata t)"
      using that by (simp add: matchTask_def EqualFold_def HasPrefix_def TrimPrefix_def extractLabels_def
          containsAll_def TrimSpace_def TrimLeft_def TrimRight_def)
    then show ?thesis by (simp add: isMatch_def)
  qed
  ultimately show ?thesis
    by (auto simp: MatchExactTask_def MatchExactTaskWithOptions_def filter_empty_conv)
qed

theorem MatchExactTask_correct_witness:
  "isMatch ''T'' (examplePTask 3 [])"
proof -
  have "EqualFold ''T'' (ptName (examplePTask 3 []))" by code_simp
  then show ?thesis
    using MatchExactTask_correct [of "''T''" "[examplePTask 3 []]", THEN conjunct2] by simp
qed

text \<open>Dependencies that two matching tasks share are selected once per matching task.\<close>

lemma shared_dependency_selected_twice:
  "MatchExactTaskWithOptions ''t'' True [examplePTask 0 [1], examplePTask 1 []]
     = Inr [examplePTask 0 [1], examplePTask 1 [], examplePTask 1 []]"
  by code_simp

end
