(* ===== verification/ServiceTasks.thy ===== *)
theory ServiceTasks
  imports Proto Deps
begin

text \<open>
  Package \<open>pkg/parser\<close> (parser.go, labels.go, bfunc.go) and \<open>pkg/parser/abstractcontainer\<close>: the tasks
  that build Docker images, the implicit clone instruction, the labels that tell tasks of the same
  name apart, and the functions on the changed files.
\<close>

section \<open>Containers with a Dockerfile\<close>

text \<open>\<open>AbstractContainer\<close>: the container of an instance, and the instance with another container.\<close>

fun abstractContainer :: "inst \<Rightarrow> containerInst option" where
  "abstractContainer (ContainerInst c) = Some c"
| "abstractContainer (PersistentWorkerInst (Some c)) = Some c"
| "abstractContainer _ = None"

fun SetImage :: "string \<Rightarrow> inst \<Rightarrow> inst" where
  "SetImage img (ContainerInst c) = ContainerInst (c\<lparr>ciImage := img\<rparr>)"
| "SetImage img (PersistentWorkerInst (Some c)) = PersistentWorkerInst (Some (c\<lparr>ciImage := img\<rparr>))"
| "SetImage img i = i"

definition DefaultTaskProperties :: env where
  "DefaultTaskProperties =
     [(''allow_failures'', ''false''), (''experimental'', ''false''), (''timeout_in'', ''3600''),
      (''trigger_type'', ''AUTOMATIC'')]"

definition taskProperty :: "ptask \<Rightarrow> string \<Rightarrow> string" where
  "taskProperty t key = (case ptMetadata t of None \<Rightarrow> [] | Some m \<Rightarrow> mget (mdProperties m) key)"

definition quoted :: "string \<Rightarrow> string" where
  "quoted s = [CHR 0x22] @ s @ [CHR 0x22]"

text \<open>The numbering of the parser: \<open>NextTaskID\<close> and \<open>NextTaskLocalIndex\<close>.\<close>

record numbering =
  idNumbering :: int
  indexNumbering :: int

definition createServiceTask ::
  "string \<Rightarrow> ptask \<Rightarrow> containerInst \<Rightarrow> string \<Rightarrow> string \<Rightarrow> numbering \<Rightarrow> ptask \<times> numbering" where
  "createServiceTask dockerfileHash protoTask c registry repository num =
     (let repo = repository @ ''/'' @ dockerfileHash;
          prebuilt = \<lparr>piRepository = repo, piReference = ''latest'', piPlatform = ciPlatform c,
            piDockerfile = ciDockerfile c, piArguments = ciDockerArguments c\<rparr>;
          buildArgs = concat (map (\<lambda>a. '' '' @ a) (sort (map (\<lambda>(k, v). k @ ''='' @ v) (ciDockerArguments c))));
          dockerBuildArgs = concat (map (\<lambda>a. '' --build-arg '' @ a)
            (sort (map (\<lambda>(k, v). k @ ''='' @ quoted v) (ciDockerArguments c))));
          img = registry @ ''/'' @ repo @ '':latest'';
          script = ''docker build --tag '' @ img @ '' --file '' @ ciDockerfile c @ dockerBuildArgs @ '' '' @
            (if ciPlatform c = WINDOWS then ''.'' else ''${CIRRUS_DOCKER_CONTEXT:-$CIRRUS_WORKING_DIR}'');
          pushScript = (if registry = ''gcr.io'' then ''gcloud docker -- push '' @ img else ''docker push '' @ img);
          props = mset_key ''timeout_in'' (taskProperty protoTask ''timeout_in'')
            (mset_key ''indexWithinBuild'' (FormatInt (indexNumbering num))
              (Merge [DefaultTaskProperties, [(''skip_notifications'', ''true'')]]))
      in (\<lparr>ptName = ''Prebuild '' @ ciDockerfile c @ buildArgs, ptID = idNumbering num,
           ptInstance = Some (PrebuiltInst prebuilt),
           ptCommands = [mkCommand ''build'' (ScriptInstruction [script]), mkCommand ''push'' (ScriptInstruction [pushScript])],
           ptEnvironment = ptEnvironment protoTask,
           ptMetadata = Some \<lparr>mdProperties = props, mdUniqueLabels = []\<rparr>,
           ptRequired = [], ptStatus = CREATED\<rparr>,
          \<lparr>idNumbering = idNumbering num + 1, indexNumbering = indexNumbering num + 1\<rparr>))"

text \<open>
  What \<open>createServiceTasks\<close> reads from its surroundings: whether tasks without an instance are
  allowed, and the registry and repository that the GitHub Actions mode selects.
\<close>

record serviceConfig =
  missingInstancesAllowed :: bool
  dockerfileRegistry :: string
  dockerfileRepository :: string

definition serviceConfigOf :: "bool \<Rightarrow> bool \<Rightarrow> string \<Rightarrow> string \<Rightarrow> serviceConfig" where
  "serviceConfigOf missing isGitHubActions registry repository =
     (if isGitHubActions
      then \<lparr>missingInstancesAllowed = missing, dockerfileRegistry = registry, dockerfileRepository = ToLower repository\<rparr>
      else \<lparr>missingInstancesAllowed = missing, dockerfileRegistry = ''gcr.io'', dockerfileRepository = ''cirrus-ci-community''\<rparr>)"

datatype serviceNeed = NoService | ServiceError err | NeedsService containerInst string

definition serviceNeed :: "serviceConfig \<Rightarrow> ptask \<Rightarrow> serviceNeed" where
  "serviceNeed cfg t =
     (case ptInstance t of
        None \<Rightarrow> if missingInstancesAllowed cfg then NoService
                else ServiceError (Internal ''failed to unmarshal task's instance: %v'' [ptName t])
      | Some BrokenInst \<Rightarrow> ServiceError (Internal ''failed to unmarshal task's instance: %v'' [ptName t])
      | Some i \<Rightarrow>
          (case abstractContainer i of
             None \<Rightarrow> NoService
           | Some c \<Rightarrow>
               if ciDockerfile c = [] then NoService
               else (case ptMetadata t of
                       None \<Rightarrow> ServiceError (Panic ''nil pointer dereference'')
                     | Some m \<Rightarrow>
                         (case map_of (mdProperties m) ''dockerfile_hash'' of
                            None \<Rightarrow> ServiceError (Internal
                              ''%q is missing it's Dockerfile hash which should've been pre-calculated'' [ptName t])
                          | Some h \<Rightarrow> NeedsService c h))))"

definition useService :: "serviceConfig \<Rightarrow> string \<Rightarrow> int \<Rightarrow> ptask \<Rightarrow> ptask" where
  "useService cfg h i t =
     t\<lparr>ptRequired := ptRequired t @ [i],
       ptInstance := map_option (SetImage (dockerfileRegistry cfg @ ''/'' @ dockerfileRepository cfg @ ''/'' @ h @ '':latest''))
         (ptInstance t)\<rparr>"

text \<open>
  The loop over the tasks; \<open>services\<close> is the map from Dockerfile hashes to service tasks. The result
  is the changed tasks, the service tasks in the unspecified order of the map, and the numbering.
\<close>

fun createServices ::
  "serviceConfig \<Rightarrow> ptask list \<Rightarrow> (string \<times> ptask) list \<Rightarrow> numbering \<Rightarrow> (ptask list \<times> (string \<times> ptask) list \<times> numbering) res" where
  "createServices cfg [] services num = Inr ([], services, num)"
| "createServices cfg (t # ts) services num =
     (case serviceNeed cfg t of
        ServiceError e \<Rightarrow> Inl e
      | NoService \<Rightarrow>
          (case createServices cfg ts services num of
             Inl e \<Rightarrow> Inl e | Inr (ts', s, n) \<Rightarrow> Inr (t # ts', s, n))
      | NeedsService c h \<Rightarrow>
          (let (service, services', num') =
             (case map_of services h of
                Some s \<Rightarrow> (s, services, num)
              | None \<Rightarrow> (let (s, num') = createServiceTask h t c (dockerfileRegistry cfg) (dockerfileRepository cfg) num
                         in (s, (h, s) # services, num')))
           in case createServices cfg ts services' num' of
                Inl e \<Rightarrow> Inl e
              | Inr (ts', s, n) \<Rightarrow> Inr (useService cfg h (ptID service) t # ts', s, n)))"

definition createServiceTasks :: "serviceConfig \<Rightarrow> ptask list \<Rightarrow> numbering \<Rightarrow> (ptask list \<times> ptask list \<times> numbering) res" where
  "createServiceTasks cfg tasks num =
     (case createServices cfg tasks [] num of
        Inl e \<Rightarrow> Inl e | Inr (ts, services, n) \<Rightarrow> Inr (ts, map snd services, n))"

section \<open>The clone instruction\<close>

definition ensureCloneInstruction :: "ptask \<Rightarrow> ptask" where
  "ensureCloneInstruction t =
     (if \<exists>c \<in> set (ptCommands t). cmdName c = ''clone'' then t
      else
        (let (props, cmds) =
           (case ptCommands t of
              [] \<Rightarrow> ([], [])
            | c # cs \<Rightarrow>
                (case map_of (cmdProperties c) ''image'' of
                   None \<Rightarrow> ([], c # cs)
                 | Some img \<Rightarrow>
                     ([(''image'', img)], c\<lparr>cmdProperties := AList.delete ''image'' (cmdProperties c)\<rparr> # cs)))
         in t\<lparr>ptCommands := (mkCommand ''clone'' CloneInstruction)\<lparr>cmdProperties := props\<rparr> # cmds\<rparr>))"

section \<open>Labels\<close>

definition removeEmptyLabels :: "string list \<Rightarrow> string list" where
  "removeEmptyLabels labels = filter (\<lambda>l. \<not> HasSuffix l '':'') labels"

definition pairLabel :: "string \<times> string \<Rightarrow> string" where
  "pairLabel p = fst p @ '':'' @ snd p"

text \<open>
  \<open>instanceLabels\<close> for the built-in instances; \<open>additional\<close> yields the labels of an instance whose type
  was registered by an additional instance (read through protobuf reflection).
\<close>

definition instanceLabels :: "(inst \<Rightarrow> string list res option) \<Rightarrow> inst \<Rightarrow> string list res" where
  "instanceLabels additional i =
     (case additional i of
        Some r \<Rightarrow> r
      | None \<Rightarrow>
          (case i of
             BrokenInst \<Rightarrow> Inl (Plain ''proto: cannot parse'' [])
           | ContainerInst c \<Rightarrow>
               Inr ((if ciDockerfile c = [] then
                       (''container:'' @ ciImage c) # (if ciOsVersion c \<noteq> [] then [''os:'' @ ciOsVersion c] else [])
                     else (''Dockerfile:'' @ ciDockerfile c) # map pairLabel (ciDockerArguments c))
                    @ map pairLabel (ciAdditional c))
           | PipeInst \<Rightarrow> Inr [''pipe'']
           | _ \<Rightarrow> Inr []))"

definition isEncrypted :: "string \<Rightarrow> bool" where
  "isEncrypted v = (HasPrefix v ''ENCRYPTED['' \<and> HasSuffix v '']'')"

definition taskLabels :: "bool \<Rightarrow> (inst \<Rightarrow> string list res option) \<Rightarrow> ptask \<Rightarrow> string list res" where
  "taskLabels missingAllowed additional t =
     (case ptInstance t of
        None \<Rightarrow> if missingAllowed then Inr [] else Inl (Plain ''mismatched message type'' [])
      | Some i \<Rightarrow>
          (case instanceLabels additional i of
             Inl e \<Rightarrow> Inl e
           | Inr labels \<Rightarrow>
               Inr (removeEmptyLabels labels @
                 map pairLabel (filter (\<lambda>(k, v). \<not> isEncrypted v) (ptEnvironment t)))))"

definition uniqueLabels :: "bool \<Rightarrow> (inst \<Rightarrow> string list res option) \<Rightarrow> ptask \<Rightarrow> ptask list \<Rightarrow> string list res" where
  "uniqueLabels missingAllowed additional t tasks =
     (let similar = filter (\<lambda>u. ptName t = ptName u) tasks
      in if length similar = 1 then Inr []
         else (case mapE (taskLabels missingAllowed additional) similar of
                 Inl e \<Rightarrow> Inl e
               | Inr lss \<Rightarrow>
                   (case taskLabels missingAllowed additional t of
                      Inl e \<Rightarrow> Inl e
                    | Inr labels \<Rightarrow>
                        Inr (sort (filter (\<lambda>l. l \<notin> set (concat lss) \<or> count_list (concat lss) l \<noteq> length similar) labels)))))"

section \<open>Functions on the changed files\<close>

text \<open>\<open>glob\<close> compiles a pattern with the third-party library go-java-glob.\<close>

definition CountMatchingAffectedFiles ::
  "(string \<Rightarrow> (string \<Rightarrow> bool) res) \<Rightarrow> string list \<Rightarrow> string list \<Rightarrow> nat res" where
  "CountMatchingAffectedFiles glob affectedFiles patterns =
     (case foldE (\<lambda>pattern marks. case glob pattern of
             Inl e \<Rightarrow> Inl e
           | Inr re \<Rightarrow> Inr (map2 (\<lambda>m f. m \<or> re f) marks affectedFiles))
           patterns (replicate (length affectedFiles) False) of
        Inl e \<Rightarrow> Inl e
      | Inr marks \<Rightarrow> Inr (length (filter (\<lambda>m. m) marks)))"

definition bfuncArgsToStrings :: "bval list \<Rightarrow> string list res" where
  "bfuncArgsToStrings arguments =
     mapE (\<lambda>a. case a of VStr s \<Rightarrow> Inr s | _ \<Rightarrow> Inl (Plain ''argument should be a string'' [])) arguments"

definition bfuncChanges ::
  "(string \<Rightarrow> (string \<Rightarrow> bool) res) \<Rightarrow> string list \<Rightarrow> (nat \<Rightarrow> bool) \<Rightarrow> bval list \<Rightarrow> bval" where
  "bfuncChanges glob affectedFiles accept arguments =
     (if arguments = [] then VErr (Plain ''no arguments provided'' [])
      else case bfuncArgsToStrings arguments of
          Inl e \<Rightarrow> VErr e
        | Inr patterns \<Rightarrow>
            (case CountMatchingAffectedFiles glob affectedFiles patterns of
               Inl e \<Rightarrow> VErr e
             | Inr n \<Rightarrow> VStr (if accept n then ''true'' else ''false'')))"

definition bfuncChangesInclude :: "(string \<Rightarrow> (string \<Rightarrow> bool) res) \<Rightarrow> string list \<Rightarrow> bval list \<Rightarrow> bval" where
  "bfuncChangesInclude glob affectedFiles = bfuncChanges glob affectedFiles (\<lambda>n. 0 < n)"

definition bfuncChangesIncludeOnly :: "(string \<Rightarrow> (string \<Rightarrow> bool) res) \<Rightarrow> string list \<Rightarrow> bval list \<Rightarrow> bval" where
  "bfuncChangesIncludeOnly glob affectedFiles =
     bfuncChanges glob affectedFiles (\<lambda>n. 0 < n \<and> n = length affectedFiles)"

section \<open>What the service tasks guarantee\<close>

text \<open>
  A service task for a hash in a configuration: the image it builds and pushes is the one that
  \<open>useService\<close> writes into the tasks with this hash.
\<close>

definition serviceImage :: "serviceConfig \<Rightarrow> string \<Rightarrow> string" where
  "serviceImage cfg h = dockerfileRegistry cfg @ ''/'' @ dockerfileRepository cfg @ ''/'' @ h @ '':latest''"

definition pushesImage :: "ptask \<Rightarrow> string \<Rightarrow> bool" where
  "pushesImage s img =
     (\<exists>c \<in> set (ptCommands s). cmdName c = ''push'' \<and>
        (cmdInstruction c = ScriptInstruction [''docker push '' @ img] \<or>
         cmdInstruction c = ScriptInstruction [''gcloud docker -- push '' @ img]))"

lemma createServiceTask_fst:
  "pushesImage (fst (createServiceTask h t c (dockerfileRegistry cfg) (dockerfileRepository cfg) num)) (serviceImage cfg h)"
  "ptID (fst (createServiceTask h t c r p num)) = idNumbering num"
  "ptRequired (fst (createServiceTask h t c r p num)) = []"
  "idNumbering (snd (createServiceTask h t c r p num)) = idNumbering num + 1"
  by (simp_all add: createServiceTask_def Let_def pushesImage_def serviceImage_def mkCommand_def)

text \<open>The invariant of the map of service tasks.\<close>

definition servicesInv :: "serviceConfig \<Rightarrow> int \<Rightarrow> (string \<times> ptask) list \<Rightarrow> numbering \<Rightarrow> bool" where
  "servicesInv cfg first services num =
     (distinct (map fst services) \<and> distinct (map (ptID \<circ> snd) services) \<and> first \<le> idNumbering num \<and>
      (\<forall>(h, s) \<in> set services. first \<le> ptID s \<and> ptID s < idNumbering num \<and>
         pushesImage s (serviceImage cfg h) \<and> ptRequired s = []))"

definition served :: "serviceConfig \<Rightarrow> (string \<times> ptask) list \<Rightarrow> ptask \<Rightarrow> ptask \<Rightarrow> bool" where
  "served cfg services t t' =
     (case serviceNeed cfg t of
        NoService \<Rightarrow> t' = t
      | ServiceError e \<Rightarrow> False
      | NeedsService c h \<Rightarrow> (\<exists>s. (h, s) \<in> set services \<and> t' = useService cfg h (ptID s) t))"

definition neededHashes :: "serviceConfig \<Rightarrow> ptask list \<Rightarrow> string set" where
  "neededHashes cfg tasks = {h. \<exists>t \<in> set tasks. \<exists>c. serviceNeed cfg t = NeedsService c h}"

lemma servicesInv_new:
  assumes "servicesInv cfg first services num" and "map_of services h = None"
    and "createServiceTask h t c (dockerfileRegistry cfg) (dockerfileRepository cfg) num = (s, num')"
  shows "servicesInv cfg first ((h, s) # services) num'"
proof -
  have s: "pushesImage s (serviceImage cfg h)" "ptID s = idNumbering num" "ptRequired s = []"
    "idNumbering num' = idNumbering num + 1"
    using createServiceTask_fst(1) [of h t c cfg num]
      createServiceTask_fst(2-4) [of h t c "dockerfileRegistry cfg" "dockerfileRepository cfg" num] assms(3) by auto
  have "h \<notin> fst ` set services" using assms(2) by (simp add: map_of_eq_None_iff)
  then show ?thesis using assms(1) s by (fastforce simp: servicesInv_def)
qed

lemma createServices_correct:
  assumes "createServices cfg ts services num = Inr (ts', services', num')"
    and "servicesInv cfg first services num"
  shows "servicesInv cfg first services' num' \<and> set services \<subseteq> set services' \<and>
    list_all2 (served cfg services') ts ts' \<and>
    fst ` set services' = fst ` set services \<union> neededHashes cfg ts"
  using assms
proof (induction cfg ts services num arbitrary: ts' rule: createServices.induct)
  case (1 cfg services num)
  then show ?case by (auto simp: neededHashes_def)
next
  case (2 cfg t ts services num)
  show ?case
  proof (cases "serviceNeed cfg t")
    case NoService
    then obtain us where "createServices cfg ts services num = Inr (us, services', num')" "ts' = t # us"
      using "2.prems"(1) by (auto split: sum.splits)
    then show ?thesis
      using "2.IH"(1) [OF NoService] "2.prems"(2) NoService by (auto simp: served_def neededHashes_def)
  next
    case (ServiceError e)
    then show ?thesis using "2.prems"(1) by simp
  next
    case (NeedsService c h)
    define sel where "sel = (case map_of services h of
        Some s \<Rightarrow> (s, services, num)
      | None \<Rightarrow> (let (s, num') = createServiceTask h t c (dockerfileRegistry cfg) (dockerfileRepository cfg) num
                 in (s, (h, s) # services, num')))"
    obtain s services1 num1 where sel: "sel = (s, services1, num1)" by (cases sel)
    have inv1: "servicesInv cfg first services1 num1 \<and> (h, s) \<in> set services1 \<and> set services \<subseteq> set services1 \<and>
        fst ` set services1 = insert h (fst ` set services)"
    proof (cases "map_of services h")
      case None
      obtain s1 n1 where c: "createServiceTask h t c (dockerfileRegistry cfg) (dockerfileRepository cfg) num = (s1, n1)"
        by force
      then have "s = s1" "services1 = (h, s1) # services" "num1 = n1" using sel None by (auto simp: sel_def)
      then show ?thesis using servicesInv_new [OF "2.prems"(2) None c] by auto
    next
      case (Some s1)
      then have "(h, s1) \<in> set services" by (rule map_of_SomeD)
      then show ?thesis using sel Some "2.prems"(2) by (force simp: sel_def)
    qed
    obtain us where us: "createServices cfg ts services1 num1 = Inr (us, services', num')"
        "ts' = useService cfg h (ptID s) t # us"
      using "2.prems"(1) NeedsService sel by (auto simp: sel_def [symmetric] split: sum.splits)
    have "servicesInv cfg first services' num' \<and> set services1 \<subseteq> set services' \<and>
        list_all2 (served cfg services') ts us \<and>
        fst ` set services' = fst ` set services1 \<union> neededHashes cfg ts"
      using "2.IH"(2) [OF NeedsService sel [unfolded sel_def, symmetric] refl refl us(1)] inv1 by simp
    moreover have "neededHashes cfg (t # ts) = insert h (neededHashes cfg ts)"
      using NeedsService by (auto simp: neededHashes_def)
    moreover have "served cfg services' t (useService cfg h (ptID s) t)"
      using calculation(1) inv1 NeedsService by (auto simp: served_def)
    ultimately show ?thesis using inv1 us(2) by auto
  qed
qed

section \<open>Properties\<close>

text \<open>
  C12. When \<open>createServiceTasks\<close> succeeds, there is exactly one service task per Dockerfile hash; the
  service tasks have pairwise distinct fresh identifiers and no dependencies; and a task that has a
  Dockerfile depends on a service task that pushes exactly the image the task is changed to use,
  while every other task is left as it was.
\<close>

theorem createServiceTasks_correct:
  assumes "createServiceTasks cfg tasks num = Inr (tasks', services, num')"
  shows "length services = card (neededHashes cfg tasks) \<and> distinct (map ptID services) \<and>
    (\<forall>s \<in> set services. idNumbering num \<le> ptID s \<and> ptID s < idNumbering num' \<and> ptRequired s = []) \<and>
    list_all2 (\<lambda>t t'. case serviceNeed cfg t of
        NoService \<Rightarrow> t' = t
      | ServiceError e \<Rightarrow> False
      | NeedsService c h \<Rightarrow> (\<exists>s \<in> set services. pushesImage s (serviceImage cfg h) \<and>
          ptRequired t' = ptRequired t @ [ptID s] \<and>
          ptInstance t' = map_option (SetImage (serviceImage cfg h)) (ptInstance t))) tasks tasks'"
proof -
  obtain sm where sm: "createServices cfg tasks [] num = Inr (tasks', sm, num')" "services = map snd sm"
    using assms by (auto simp: createServiceTasks_def split: sum.splits)
  have inv: "servicesInv cfg (idNumbering num) sm num'" "list_all2 (served cfg sm) tasks tasks'"
      "fst ` set sm = neededHashes cfg tasks"
    using createServices_correct [OF sm(1), of "idNumbering num"] by (auto simp: servicesInv_def)
  have "length services = card (neededHashes cfg tasks)"
    using inv(1) unfolding inv(3) [symmetric] sm(2) servicesInv_def
    by (metis distinct_card length_map list.set_map)
  moreover have "list_all2 (\<lambda>t t'. case serviceNeed cfg t of
        NoService \<Rightarrow> t' = t
      | ServiceError e \<Rightarrow> False
      | NeedsService c h \<Rightarrow> (\<exists>s \<in> set services. pushesImage s (serviceImage cfg h) \<and>
          ptRequired t' = ptRequired t @ [ptID s] \<and>
          ptInstance t' = map_option (SetImage (serviceImage cfg h)) (ptInstance t))) tasks tasks'"
    using inv(2)
  proof (rule list_all2_mono, goal_cases)
    case (1 t t')
    then show ?case using inv(1)
      by (force simp: served_def servicesInv_def useService_def serviceImage_def sm(2) split: serviceNeed.splits)
  qed
  ultimately show ?thesis using inv(1) by (auto simp: servicesInv_def sm(2))
qed

abbreviation exampleDockerTask :: ptask where
  "exampleDockerTask \<equiv> \<lparr>ptName = ''t'', ptID = 0,
     ptInstance = Some (ContainerInst \<lparr>ciImage = [], ciDockerfile = ''Dockerfile'', ciDockerArguments = [],
       ciPlatform = LINUX, ciOsVersion = [], ciAdditional = []\<rparr>),
     ptCommands = [], ptEnvironment = [],
     ptMetadata = Some \<lparr>mdProperties = [(''dockerfile_hash'', ''abc'')], mdUniqueLabels = []\<rparr>,
     ptRequired = [], ptStatus = CREATED\<rparr>"

abbreviation exampleServices :: "(ptask list \<times> ptask list \<times> numbering) res" where
  "exampleServices \<equiv> createServiceTasks (serviceConfigOf False False [] []) [exampleDockerTask, exampleDockerTask]
     \<lparr>idNumbering = 2, indexNumbering = 2\<rparr>"

theorem createServiceTasks_correct_witness:
  "\<exists>tasks' services num'. exampleServices = Inr (tasks', services, num') \<and> length services = 1 \<and>
     distinct (map ptID services)"
proof -
  have "is_ok exampleServices" by code_simp
  then obtain tasks' services num' where ok: "exampleServices = Inr (tasks', services, num')"
    by (auto simp: is_ok_iff)
  have "neededHashes (serviceConfigOf False False [] []) [exampleDockerTask, exampleDockerTask] = {''abc''}"
    by (auto simp: neededHashes_def serviceNeed_def)
  then show ?thesis using createServiceTasks_correct [OF ok] ok by auto
qed

text \<open>
  After \<open>ensureCloneInstruction\<close> the task has a clone instruction; its other commands stay, in
  their order and with their instructions; a task with a clone instruction is not changed, so the
  operation is idempotent; and the first command of the result carries the image of the first
  command of the task, which is what Docker Pipe reads.
\<close>

theorem ensureCloneInstruction_correct:
  "(\<exists>c \<in> set (ptCommands (ensureCloneInstruction t)). cmdName c = ''clone'') \<and>
   ensureCloneInstruction (ensureCloneInstruction t) = ensureCloneInstruction t \<and>
   filter (\<lambda>c. fst c \<noteq> ''clone'') (map (\<lambda>c. (cmdName c, cmdInstruction c)) (ptCommands (ensureCloneInstruction t)))
     = filter (\<lambda>c. fst c \<noteq> ''clone'') (map (\<lambda>c. (cmdName c, cmdInstruction c)) (ptCommands t)) \<and>
   (\<forall>c cs. ptCommands t = c # cs \<longrightarrow>
     map_of (cmdProperties (hd (ptCommands (ensureCloneInstruction t)))) ''image'' = map_of (cmdProperties c) ''image'')"
proof (cases "\<exists>c \<in> set (ptCommands t). cmdName c = ''clone''")
  case True
  then have "ensureCloneInstruction t = t" by (simp add: ensureCloneInstruction_def)
  then show ?thesis using True by auto
next
  case False
  have has: "\<exists>c \<in> set (ptCommands (ensureCloneInstruction t)). cmdName c = ''clone''"
    using False by (auto simp: ensureCloneInstruction_def mkCommand_def split: list.splits option.splits)
  then have "ensureCloneInstruction (ensureCloneInstruction t) = ensureCloneInstruction t"
    by (simp add: ensureCloneInstruction_def [of "ensureCloneInstruction t"])
  then show ?thesis using has False
    by (auto simp: ensureCloneInstruction_def mkCommand_def split: list.splits option.splits)
qed

theorem ensureCloneInstruction_correct_witness:
  "map_of (cmdProperties (hd (ptCommands (ensureCloneInstruction
     (exampleDockerTask\<lparr>ptCommands := [(mkCommand ''m'' CloneInstruction)\<lparr>cmdProperties := [(''image'', ''i'')]\<rparr>]\<rparr>))))) ''image''
   = Some ''i''"
  using ensureCloneInstruction_correct [of
    "exampleDockerTask\<lparr>ptCommands := [(mkCommand ''m'' CloneInstruction)\<lparr>cmdProperties := [(''image'', ''i'')]\<rparr>]\<rparr>"]
  by simp

lemma length_filter_all: "length (filter P xs) = length xs \<longleftrightarrow> (\<forall>x \<in> set xs. P x)"
proof (induction xs)
  case (Cons x xs)
  moreover have "length (filter P xs) \<noteq> Suc (length xs)" using length_filter_le [of P xs] by linarith
  ultimately show ?case by auto
qed simp

text \<open>The number of changed files that some pattern matches.\<close>

lemma foldE_marks:
  assumes "foldE (\<lambda>pattern marks. case glob pattern of
             Inl e \<Rightarrow> Inl e
           | Inr re \<Rightarrow> Inr (map2 (\<lambda>m f. m \<or> re f) marks files)) patterns (map P files) = Inr marks"
  shows "marks = map (\<lambda>f. P f \<or> (\<exists>p \<in> set patterns. \<exists>re. glob p = Inr re \<and> re f)) files"
  using assms
proof (induction patterns arbitrary: P)
  case (Cons p ps)
  then obtain re where re: "glob p = Inr re" by (auto split: sum.splits)
  have m: "map2 (\<lambda>m f. m \<or> re f) (map P files) files = map (\<lambda>f. P f \<or> re f) files"
    by (induction files) auto
  show ?case using Cons.IH [of "\<lambda>f. P f \<or> re f"] Cons.prems re by (auto simp: m)
qed simp

lemma CountMatchingAffectedFiles_Inr:
  assumes "CountMatchingAffectedFiles glob files patterns = Inr n"
  shows "n = length (filter (\<lambda>f. \<exists>p \<in> set patterns. \<exists>re. glob p = Inr re \<and> re f) files)"
  using assms foldE_marks [where P = "\<lambda>_. False" and files = files and glob = glob and patterns = patterns]
  by (auto simp: CountMatchingAffectedFiles_def map_replicate_const comp_def filter_map split: sum.splits)

text \<open>
  \<open>changesInclude\<close> is true exactly when some changed file matches one of the patterns, and
  \<open>changesIncludeOnly\<close> when there are changed files and each of them matches one of the patterns,
  whatever the glob library takes the valid patterns to match.
\<close>

theorem bfuncChanges_correct:
  assumes "\<forall>p \<in> set patterns. glob p = Inr (matches p)" and "patterns \<noteq> []"
  shows "bfuncChangesInclude glob files (map VStr patterns)
      = VStr (if \<exists>f \<in> set files. \<exists>p \<in> set patterns. matches p f then ''true'' else ''false'') \<and>
    bfuncChangesIncludeOnly glob files (map VStr patterns)
      = VStr (if files \<noteq> [] \<and> (\<forall>f \<in> set files. \<exists>p \<in> set patterns. matches p f) then ''true'' else ''false'')"
proof -
  have args: "bfuncArgsToStrings (map VStr patterns) = Inr patterns"
    unfolding bfuncArgsToStrings_def by (induction patterns) auto
  have "\<exists>marks. foldE (\<lambda>pattern marks. case glob pattern of
             Inl e \<Rightarrow> Inl e
           | Inr re \<Rightarrow> Inr (map2 (\<lambda>m f. m \<or> re f) marks files)) ps marks0 = Inr marks"
    if "set ps \<subseteq> set patterns" for ps marks0
    using that by (induction ps arbitrary: marks0) (use assms(1) in auto)
  then obtain n where n: "CountMatchingAffectedFiles glob files patterns = Inr n"
    unfolding CountMatchingAffectedFiles_def by (metis order_refl sum.simps(6))
  have len: "n = length (filter (\<lambda>f. \<exists>p \<in> set patterns. matches p f) files)"
    using CountMatchingAffectedFiles_Inr [OF n] assms(1) by simp
  have pos: "0 < n \<longleftrightarrow> (\<exists>f \<in> set files. \<exists>p \<in> set patterns. matches p f)"
    unfolding len by (simp add: filter_empty_conv)
  have all: "n = length files \<longleftrightarrow> (\<forall>f \<in> set files. \<exists>p \<in> set patterns. matches p f)"
    unfolding len by (rule length_filter_all)
  have "0 < n \<and> n = length files \<longleftrightarrow> files \<noteq> [] \<and> (\<forall>f \<in> set files. \<exists>p \<in> set patterns. matches p f)"
    using all len by (cases files) auto
  then show ?thesis
    using assms(2) by (simp add: bfuncChangesInclude_def bfuncChangesIncludeOnly_def bfuncChanges_def args n pos)
qed

theorem bfuncChanges_correct_witness:
  "bfuncChangesIncludeOnly (\<lambda>p. Inr (\<lambda>f. HasSuffix f p)) [''a.md'', ''b.md''] (map VStr [''.md'']) = VStr ''true''"
  using bfuncChanges_correct [of "[''.md'']" "\<lambda>p. Inr (\<lambda>f. HasSuffix f p)" "\<lambda>p f. HasSuffix f p" "[''a.md'', ''b.md'']"]
  by (simp add: HasSuffix_def)

text \<open>
  A label that one task carries twice is counted twice, and so is taken for one that two tasks of
  the same name share: two tasks that differ in the label are then told apart by nothing.
\<close>

lemma repeated_label_taken_for_common:
  "uniqueLabels False (\<lambda>i. None)
     (exampleDockerTask\<lparr>ptInstance := Some (ContainerInst \<lparr>ciImage = [], ciDockerfile = ''D'',
        ciDockerArguments = [(''A'', ''1'')], ciPlatform = LINUX, ciOsVersion = [], ciAdditional = []\<rparr>),
        ptEnvironment := [(''A'', ''1'')]\<rparr>)
     [exampleDockerTask\<lparr>ptInstance := Some (ContainerInst \<lparr>ciImage = [], ciDockerfile = ''D'',
        ciDockerArguments = [(''A'', ''1'')], ciPlatform = LINUX, ciOsVersion = [], ciAdditional = []\<rparr>),
        ptEnvironment := [(''A'', ''1'')]\<rparr>,
      exampleDockerTask\<lparr>ptInstance := Some (ContainerInst \<lparr>ciImage = [], ciDockerfile = ''D'',
        ciDockerArguments = [], ciPlatform = LINUX, ciOsVersion = [], ciAdditional = []\<rparr>)\<rparr>]
   = Inr []"
  by code_simp

end
