(* ===== verification/Build.thy ===== *)
theory Build
  imports Proto Environ
begin

text \<open>
  Package \<open>internal/executor/build\<close> and the task handlers of \<open>internal/executor/rpc\<close>: the build as a
  map of tasks, the status of a task computed from its commands, the choice of the next task, and
  the reports of the agent that change the command statuses. The order of the association list is
  the unspecified iteration order of the Go map.
\<close>

section \<open>Tasks and commands\<close>

datatype taskStatus = New | Succeeded | Failed | TimedOut | Skipped

datatype commandStatus = Undefined | Success | Failure

fun taskStatusString :: "taskStatus \<Rightarrow> string" where
  "taskStatusString New = ''new''"
| "taskStatusString Succeeded = ''succeeded''"
| "taskStatusString Failed = ''failed''"
| "taskStatusString TimedOut = ''timed out''"
| "taskStatusString Skipped = ''skipped''"

datatype architecture = AMD64 | ARM64

record pipeStage =
  psImage :: string
  psFrom :: string
  psTo :: string

text \<open>
  The instances as far as the executor tells them apart: \<open>IsolatedInst\<close> stands for the isolations
  without a placement rule (none and container).
\<close>

datatype binst =
    ContainerI "architecture option" platform string
  | PrebuiltI string "string list"
  | PipeI "pipeStage list"
  | FreeBSDI
  | TartI
  | VetuI
  | ParallelsI
  | IsolatedInst
  | UnsupportedI string

record bcommand =
  bcStatus :: commandStatus
  bcProto :: command

record btask =
  btID :: int
  btRequired :: "int list"
  btName :: string
  btLabels :: "string list"
  btStatus :: taskStatus
  btInstance :: binst
  btTimeout :: "64 word"
  btEnvironment :: env
  btCommands :: "bcommand list"

type_synonym build = "(int \<times> btask) list"

text \<open>\<open>PipeStagesFromCommands\<close>: a command with an image closes the open stage and opens the next.\<close>

definition closeStage :: "string \<Rightarrow> pipeStage list \<Rightarrow> pipeStage list" where
  "closeStage name stages =
     (if stages = [] then [] else butlast stages @ [(last stages)\<lparr>psTo := name\<rparr>])"

fun pipeStages :: "nat \<Rightarrow> command list \<Rightarrow> pipeStage list \<Rightarrow> pipeStage list res" where
  "pipeStages i [] stages = Inr stages"
| "pipeStages i (c # cs) stages =
     (case map_of (cmdProperties c) ''image'' of
        None \<Rightarrow>
          if i = 0 then Inl (Plain ''failed to create pipe instance: first command does not have an image property'' [])
          else pipeStages (i + 1) cs stages
      | Some img \<Rightarrow>
          pipeStages (i + 1) cs
            (closeStage (cmdName c) stages @ [\<lparr>psImage = img, psFrom = cmdName c, psTo = []\<rparr>]))"

definition PipeStagesFromCommands :: "command list \<Rightarrow> pipeStage list res" where
  "PipeStagesFromCommands commands = pipeStages 0 commands []"

text \<open>
  \<open>NewFromProto\<close>. \<open>mkInstance\<close> is the result of \<open>instance.NewFromProto\<close> on the instance, the commands
  and the custom working directory.
\<close>

fun interceptClone :: "command list \<Rightarrow> command list" where
  "interceptClone [] = []"
| "interceptClone (c # cs) = (if cmdName c = ''clone'' then cs else c # interceptClone cs)"

definition customWorkingDir :: "env \<Rightarrow> string" where
  "customWorkingDir environment =
     (let dir = ExpandEnvironmentVariables ''${CIRRUS_WORKING_DIR}'' environment
      in if dir = ''${CIRRUS_WORKING_DIR}'' then [] else dir)"

definition taskTimeout :: "metadata option \<Rightarrow> 64 word res" where
  "taskTimeout md =
     (case md of
        None \<Rightarrow> Inr (3600 * 1000000000)
      | Some m \<Rightarrow>
          (case map_of (mdProperties m) ''timeout_in'' of
             None \<Rightarrow> Inr (3600 * 1000000000)
           | Some s \<Rightarrow>
               (case ParseInt s of Inl e \<Rightarrow> Inl e | Inr n \<Rightarrow> Inr (word_of_int n * 1000000000))))"

definition NewFromProto ::
  "(inst option \<Rightarrow> command list \<Rightarrow> string \<Rightarrow> binst res) \<Rightarrow> ptask \<Rightarrow> btask res" where
  "NewFromProto mkInstance t =
     (case mkInstance (ptInstance t) (ptCommands t) (customWorkingDir (ptEnvironment t)) of
        Inl e \<Rightarrow> Inl (Plain ''failed to create task %q'' [ptName t])
      | Inr i \<Rightarrow>
          (case taskTimeout (ptMetadata t) of
             Inl e \<Rightarrow> Inl e
           | Inr timeout \<Rightarrow>
               (let task = \<lparr>btID = ptID t, btRequired = ptRequired t, btName = ptName t,
                  btLabels = (case ptMetadata t of None \<Rightarrow> [] | Some m \<Rightarrow> mdUniqueLabels m),
                  btStatus = New, btInstance = i, btTimeout = timeout, btEnvironment = ptEnvironment t,
                  btCommands = map (\<lambda>c. \<lparr>bcStatus = Undefined, bcProto = c\<rparr>) (interceptClone (ptCommands t))\<rparr>
                in case ptStatus t of
                     CREATED \<Rightarrow> Inr task
                   | SKIPPED \<Rightarrow> Inr (task\<lparr>btStatus := Skipped\<rparr>)
                   | OtherStatus \<Rightarrow> Inl (Plain ''failed to create task %q: unhandled task status'' [ptName t]))))"

text \<open>\<open>New\<close>: the tasks are stored under their identifiers.\<close>

definition newBuild ::
  "(inst option \<Rightarrow> command list \<Rightarrow> string \<Rightarrow> binst res) \<Rightarrow> ptask list \<Rightarrow> build res" where
  "newBuild mkInstance tasks =
     foldE (\<lambda>t b. case NewFromProto mkInstance t of
         Inl e \<Rightarrow> Inl e | Inr w \<Rightarrow> Inr (AList.update (btID w) w b)) tasks []"

section \<open>Status\<close>

definition FailedAtLeastOnce :: "btask \<Rightarrow> bool" where
  "FailedAtLeastOnce t = list_ex (\<lambda>c. bcStatus c = Failure) (btCommands t)"

definition shouldRun :: "bool \<Rightarrow> behavior \<Rightarrow> bool" where
  "shouldRun failed b =
     (b = ON_SUCCESS \<and> \<not> failed \<or> b = ON_FAILURE \<and> failed \<or> b = ALWAYS)"

definition Status :: "btask \<Rightarrow> taskStatus" where
  "Status t =
     (if btStatus t \<noteq> New then btStatus t
      else if list_ex (\<lambda>c. bcStatus c = Undefined \<and> shouldRun (FailedAtLeastOnce t) (cmdBehavior (bcProto c)))
          (btCommands t) then New
      else if FailedAtLeastOnce t then Failed else Succeeded)"

definition SetStatus :: "taskStatus \<Rightarrow> btask \<Rightarrow> btask" where
  "SetStatus s t = t\<lparr>btStatus := s\<rparr>"

definition ProtoCommands :: "btask \<Rightarrow> command list" where
  "ProtoCommands t = map bcProto (btCommands t)"

definition GetCommand :: "string \<Rightarrow> btask \<Rightarrow> bcommand option" where
  "GetCommand name t = find (\<lambda>c. cmdName (bcProto c) = name) (btCommands t)"

definition apostrophe :: string where
  "apostrophe = [CHR 0x27]"

definition UniqueDescription :: "btask \<Rightarrow> string" where
  "UniqueDescription t =
     (let part = (case btName t of [] \<Rightarrow> ''task'' | c # _ \<Rightarrow> if isUpper c then ''Task'' else ''task'');
          subject = apostrophe @ btName t @ apostrophe @ '' '' @ part
      in if btLabels t = [] then subject else subject @ '' ('' @ Join '' '' (btLabels t) @ '')'')"

definition taskString :: "btask \<Rightarrow> string" where
  "taskString t = btName t @ '' ('' @ FormatInt (btID t) @ '')''"

section \<open>The next task\<close>

definition GetTask :: "build \<Rightarrow> int \<Rightarrow> btask option" where
  "GetTask b i = map_of b i"

text \<open>\<open>taskHasUnresolvedDependencies\<close>: an unknown identifier yields a nil task, whose status panics.\<close>

fun unresolved :: "build \<Rightarrow> int list \<Rightarrow> bool res" where
  "unresolved b [] = Inr False"
| "unresolved b (r # rs) =
     (case GetTask b r of
        None \<Rightarrow> Inl (Panic ''nil pointer dereference'')
      | Some t \<Rightarrow> if Status t = New then Inr True else unresolved b rs)"

definition taskHasUnresolvedDependencies :: "build \<Rightarrow> btask \<Rightarrow> bool res" where
  "taskHasUnresolvedDependencies b t = unresolved b (btRequired t)"

fun nextTask :: "build \<Rightarrow> btask list \<Rightarrow> btask option \<Rightarrow> btask option res" where
  "nextTask b [] result = Inr result"
| "nextTask b (t # ts) result =
     (if Status t \<noteq> New then nextTask b ts result
      else case taskHasUnresolvedDependencies b t of
          Inl e \<Rightarrow> Inl e
        | Inr True \<Rightarrow> nextTask b ts result
        | Inr False \<Rightarrow>
            nextTask b ts (case result of
                None \<Rightarrow> Some t | Some u \<Rightarrow> if btID t < btID u then Some t else Some u))"

definition GetNextTask :: "build \<Rightarrow> btask option res" where
  "GetNextTask b = nextTask b (map snd b) None"

section \<open>The reports of the agent\<close>

datatype updateStatus = COMPLETED | UpdateSkipped | ABORTED | FAILED | EXECUTING

fun mapFirst :: "('a \<Rightarrow> bool) \<Rightarrow> ('a \<Rightarrow> 'a) \<Rightarrow> 'a list \<Rightarrow> 'a list" where
  "mapFirst P f [] = []"
| "mapFirst P f (x # xs) = (if P x then f x # xs else x # mapFirst P f xs)"

definition updatedStatus :: "updateStatus \<Rightarrow> commandStatus \<Rightarrow> commandStatus" where
  "updatedStatus u s =
     (case u of COMPLETED \<Rightarrow> Success | UpdateSkipped \<Rightarrow> Success
      | ABORTED \<Rightarrow> Failure | FAILED \<Rightarrow> Failure | EXECUTING \<Rightarrow> s)"

text \<open>The loop of \<open>ReportCommandUpdates\<close>: the updates before one for an unknown command are kept.\<close>

fun applyUpdates :: "(string \<times> updateStatus) list \<Rightarrow> btask \<Rightarrow> err option \<times> btask" where
  "applyUpdates [] t = (None, t)"
| "applyUpdates ((name, u) # us) t =
     (case GetCommand name t of
        None \<Rightarrow> (Some (Plain ''attempt to set status for non-existent command %s'' [name]), t)
      | Some _ \<Rightarrow>
          applyUpdates us (t\<lparr>btCommands := mapFirst (\<lambda>c. cmdName (bcProto c) = name)
            (\<lambda>c. c\<lparr>bcStatus := updatedStatus u (bcStatus c)\<rparr>) (btCommands t)\<rparr>))"

text \<open>The request metadata: \<open>None\<close> when the context carries none.\<close>

type_synonym requestMD = "string list gomap option"

definition extractTaskAuthMetadata :: "requestMD \<Rightarrow> (int \<times> string) res" where
  "extractTaskAuthMetadata md =
     (case md of
        None \<Rightarrow> Inl (Plain ''Unauthenticated: request metadata is missing'' [])
      | Some m \<Rightarrow>
          (case map_of m ''org.cirruslabs.task-id'' of
             Some (i # _) \<Rightarrow>
               (case ParseInt i of
                  Inl e \<Rightarrow> Inl (Plain ''InvalidArgument: task metadata is invalid'' [])
                | Inr n \<Rightarrow>
                    (case map_of m ''org.cirruslabs.client-secret'' of
                       Some (s # _) \<Rightarrow> Inr (n, s)
                     | _ \<Rightarrow> Inl (Plain ''Unauthenticated: client secret metadata is missing'' [])))
           | _ \<Rightarrow> Inl (Plain ''Unauthenticated: task metadata is missing'' [])))"

definition taskFromMetadata :: "string \<Rightarrow> build \<Rightarrow> requestMD \<Rightarrow> btask res" where
  "taskFromMetadata clientSecret b md =
     (case extractTaskAuthMetadata md of
        Inl e \<Rightarrow> Inl e
      | Inr (i, s) \<Rightarrow>
          if s \<noteq> clientSecret then Inl (Plain ''Unauthenticated: provided secret value is invalid'' [])
          else (case GetTask b i of
                  None \<Rightarrow> Inl (Plain ''NotFound: cannot find the task with the specified ID'' [])
                | Some t \<Rightarrow> Inr t))"

definition ReportCommandUpdates ::
  "string \<Rightarrow> requestMD \<Rightarrow> (string \<times> updateStatus) list \<Rightarrow> build \<Rightarrow> err option \<times> build" where
  "ReportCommandUpdates clientSecret md updates b =
     (case taskFromMetadata clientSecret b md of
        Inl e \<Rightarrow> (Some e, b)
      | Inr t \<Rightarrow> (let (e, t') = applyUpdates updates t in (e, AList.update (btID t) t' b)))"

record commandsResponse =
  crEnvironment :: env
  crCommands :: "command list"
  crServerToken :: string
  crTimeoutInSeconds :: int
  crFailedAtLeastOnce :: bool

text \<open>\<open>int64(task.Timeout.Seconds())\<close>: the quotient rounded towards zero.\<close>

definition InitialCommands :: "string \<Rightarrow> string \<Rightarrow> build \<Rightarrow> requestMD \<Rightarrow> commandsResponse res" where
  "InitialCommands serverSecret clientSecret b md =
     (case taskFromMetadata clientSecret b md of
        Inl e \<Rightarrow> Inl e
      | Inr t \<Rightarrow>
          Inr \<lparr>crEnvironment = btEnvironment t, crCommands = ProtoCommands t, crServerToken = serverSecret,
            crTimeoutInSeconds = sgn (sint (btTimeout t)) * (\<bar>sint (btTimeout t)\<bar> div 1000000000),
            crFailedAtLeastOnce = FailedAtLeastOnce t\<rparr>)"

section \<open>Well-formed builds\<close>

definition wf_build :: "build \<Rightarrow> bool" where
  "wf_build b = (distinct (map fst b) \<and> (\<forall>(i, t) \<in> set b. btID t = i))"

definition closed_build :: "build \<Rightarrow> bool" where
  "closed_build b = (\<forall>(i, t) \<in> set b. \<forall>r \<in> set (btRequired t). r \<in> fst ` set b)"

definition ready :: "build \<Rightarrow> btask \<Rightarrow> bool" where
  "ready b t = (Status t = New \<and> (\<forall>r \<in> set (btRequired t). \<forall>u. GetTask b r = Some u \<longrightarrow> Status u \<noteq> New))"

lemma wf_build_alt: "wf_build b \<longleftrightarrow> distinct (map fst b) \<and> (\<forall>i t. map_of b i = Some t \<longrightarrow> btID t = i)"
  by (auto simp: wf_build_def)

lemma wf_build_update: "wf_build b \<Longrightarrow> btID t = i \<Longrightarrow> wf_build (AList.update i t b)"
  by (auto simp: wf_build_alt distinct_update update_conv' split: if_splits)

lemma GetTask_iff: "wf_build b \<Longrightarrow> GetTask b i = Some t \<longleftrightarrow> (i, t) \<in> set b"
  by (simp add: GetTask_def wf_build_def)

lemma GetTask_id: "wf_build b \<Longrightarrow> GetTask b i = Some t \<Longrightarrow> btID t = i"
  by (auto simp: GetTask_iff wf_build_def)

lemma GetTask_update: "GetTask (AList.update i t b) j = (if j = i then Some t else GetTask b j)"
  by (simp add: GetTask_def update_conv')

lemma GetTask_perm:
  assumes "wf_build b" and "mset b = mset b'"
  shows "GetTask b' = GetTask b"
proof -
  have "mset (map fst b) = mset (map fst b')" using assms(2) by simp
  then have "distinct (map fst b')" using assms(1) mset_eq_imp_distinct_iff [of "map fst b" "map fst b'"] by (simp add: wf_build_def)
  then have "map_of b' = map_of b"
    using assms by (subst map_of_inject_set) (auto simp: wf_build_def dest: mset_eq_setD)
  then show ?thesis by (simp add: GetTask_def fun_eq_iff)
qed

lemma newBuild_wf: "newBuild mkInstance tasks = Inr b \<Longrightarrow> wf_build b"
  unfolding newBuild_def
  by (erule foldE_invariant [where P = wf_build])
    (auto simp: wf_build_def [of "[]"] wf_build_update split: sum.splits)

lemma NewFromProto_fields: "NewFromProto mkInstance p = Inr t \<Longrightarrow> btID t = ptID p \<and> btRequired t = ptRequired p"
  by (auto simp: NewFromProto_def Let_def split: sum.splits apiStatus.splits)

lemma update_memberD: "x \<in> set (AList.update k v m) \<Longrightarrow> x = (k, v) \<or> x \<in> set m"
  by (induction m) (auto split: if_splits)

lemma newBuild_Cons:
  assumes "foldE (\<lambda>t b. case NewFromProto mkInstance t of Inl e \<Rightarrow> Inl e | Inr w \<Rightarrow> Inr (AList.update (btID w) w b)) (p # ps) b0 = Inr b"
  obtains w where "btID w = ptID p" "btRequired w = ptRequired p"
    "foldE (\<lambda>t b. case NewFromProto mkInstance t of Inl e \<Rightarrow> Inl e | Inr w \<Rightarrow> Inr (AList.update (btID w) w b)) ps (AList.update (ptID p) w b0) = Inr b"
proof (cases "NewFromProto mkInstance p")
  case (Inr w)
  then show ?thesis using assms that [of w] NewFromProto_fields [OF Inr] by simp
qed (use assms in simp)

text \<open>The tasks of a build are those of the messages, with the same requirements.\<close>

lemma foldBuild_tasks:
  assumes "foldE (\<lambda>t b. case NewFromProto mkInstance t of Inl e \<Rightarrow> Inl e | Inr w \<Rightarrow> Inr (AList.update (btID w) w b)) ps b0 = Inr b"
  shows "fst ` set b = fst ` set b0 \<union> ptID ` set ps"
    and "(i, t) \<in> set b \<Longrightarrow> (i, t) \<in> set b0 \<or> (\<exists>p \<in> set ps. ptID p = i \<and> btRequired t = ptRequired p)"
  using assms
proof (induction ps arbitrary: b0)
  case (Cons p ps)
  {
    case 1
    then obtain w where "btID w = ptID p" "btRequired w = ptRequired p"
      and rest: "foldE (\<lambda>t b. case NewFromProto mkInstance t of Inl e \<Rightarrow> Inl e | Inr w \<Rightarrow> Inr (AList.update (btID w) w b)) ps (AList.update (ptID p) w b0) = Inr b"
      by (rule newBuild_Cons)
    then show ?case using Cons.IH(1) [OF rest] by (simp add: dom_update)
  next
    case 2
    obtain w where w: "btID w = ptID p" "btRequired w = ptRequired p"
      and rest: "foldE (\<lambda>t b. case NewFromProto mkInstance t of Inl e \<Rightarrow> Inl e | Inr w \<Rightarrow> Inr (AList.update (btID w) w b)) ps (AList.update (ptID p) w b0) = Inr b"
      using 2(2) by (rule newBuild_Cons)
    show ?case using Cons.IH(2) [OF 2(1) rest] w(2) by (auto dest!: update_memberD)
  }
qed simp_all

lemma newBuild_sound:
  assumes "newBuild mkInstance ps = Inr b" and "(i, t) \<in> set b"
  shows "\<exists>p \<in> set ps. ptID p = i \<and> btRequired t = ptRequired p"
  using foldBuild_tasks(2) [OF assms(1) [unfolded newBuild_def] assms(2)] by simp

lemma newBuild_keys: "newBuild mkInstance ps = Inr b \<Longrightarrow> fst ` set b = ptID ` set ps"
  using foldBuild_tasks(1) [of mkInstance ps "[]" b] by (simp add: newBuild_def)

section \<open>The next task\<close>

lemma unresolved_closed:
  assumes "\<forall>r \<in> set rs. GetTask b r \<noteq> None"
  shows "unresolved b rs = Inr (\<exists>r \<in> set rs. \<exists>u. GetTask b r = Some u \<and> Status u = New)"
  using assms by (induction rs) (auto split: option.splits)

lemma closed_hasUnresolved:
  assumes "closed_build b" and "t \<in> snd ` set b" and "Status t = New"
  shows "taskHasUnresolvedDependencies b t = Inr (\<not> ready b t)"
proof -
  have "\<forall>r \<in> set (btRequired t). GetTask b r \<noteq> None"
    using assms(1,2) by (auto simp: closed_build_def GetTask_def map_of_eq_None_iff)
  then show ?thesis
    using assms(3) by (auto simp: taskHasUnresolvedDependencies_def unresolved_closed ready_def)
qed

text \<open>The task with the least identifier among the ready ones and the candidate so far.\<close>

definition least_ready :: "build \<Rightarrow> btask set \<Rightarrow> btask option \<Rightarrow> bool" where
  "least_ready b T r =
     (case r of
        None \<Rightarrow> \<forall>t \<in> T. \<not> ready b t
      | Some t \<Rightarrow> t \<in> T \<and> ready b t \<and> (\<forall>u \<in> T. ready b u \<longrightarrow> btID t \<le> btID u))"

lemma nextTask_least:
  assumes "closed_build b" and "set ts \<subseteq> snd ` set b" and "least_ready b T result"
  shows "\<exists>r. nextTask b ts result = Inr r \<and> least_ready b (T \<union> set ts) r"
  using assms(2,3)
proof (induction ts arbitrary: T result)
  case (Cons t ts)
  let ?pick = "case result of None \<Rightarrow> Some t | Some u \<Rightarrow> if btID t < btID u then Some t else Some u"
  have eq: "insert t T \<union> set ts = T \<union> set (t # ts)" by simp
  show ?case
  proof (cases "ready b t")
    case True
    then have "least_ready b (insert t T) ?pick"
      using Cons.prems(2) by (auto simp: least_ready_def split: option.splits)
    then have "\<exists>r. nextTask b ts ?pick = Inr r \<and> least_ready b (insert t T \<union> set ts) r"
      using Cons.prems(1) by (intro Cons.IH) auto
    moreover have "taskHasUnresolvedDependencies b t = Inr False" "Status t = New"
      using closed_hasUnresolved [OF assms(1), of t] Cons.prems(1) True by (auto simp: ready_def)
    ultimately show ?thesis unfolding eq by simp
  next
    case False
    then have "least_ready b (insert t T) result"
      using Cons.prems(2) by (auto simp: least_ready_def split: option.splits)
    then have "\<exists>r. nextTask b ts result = Inr r \<and> least_ready b (insert t T \<union> set ts) r"
      using Cons.prems(1) by (intro Cons.IH) auto
    moreover have "Status t \<noteq> New \<or> taskHasUnresolvedDependencies b t = Inr True"
      using closed_hasUnresolved [OF assms(1), of t] Cons.prems(1) False by auto
    ultimately show ?thesis unfolding eq by auto
  qed
qed auto

lemma GetNextTask_least:
  assumes "closed_build b"
  shows "\<exists>r. GetNextTask b = Inr r \<and> least_ready b (snd ` set b) r"
  using nextTask_least [OF assms, of "map snd b" "{}" None]
  by (simp add: GetNextTask_def least_ready_def [of _ "{}"])

lemma least_ready_unique:
  assumes "wf_build b" and "least_ready b (snd ` set b) r" and "least_ready b (snd ` set b) s"
  shows "r = s"
proof -
  have eq: "t = u" if "t \<in> snd ` set b" "u \<in> snd ` set b" "btID t = btID u" for t u
  proof -
    from that(1) obtain i where i: "(i, t) \<in> set b" by auto
    from that(2) obtain j where j: "(j, u) \<in> set b" by auto
    have "btID t = i" "btID u = j" using i j assms(1) by (auto simp: wf_build_def)
    then have "i = j" using that(3) by simp
    then show ?thesis using i j assms(1) by (auto simp: wf_build_def dest: eq_key_imp_eq_value)
  qed
  have "t = u" if "r = Some t" "s = Some u" for t u
    using assms(2,3) unfolding that least_ready_def option.case by (intro eq order_antisym) blast+
  moreover have "r = None \<longleftrightarrow> s = None"
    using assms(2,3) by (cases r; cases s) (simp_all add: least_ready_def, blast+)
  ultimately show ?thesis by (cases r; cases s) simp_all
qed

text \<open>A rank that decreases along the dependencies: the dependency graph has no cycle.\<close>

definition ranked :: "(int \<Rightarrow> nat) \<Rightarrow> build \<Rightarrow> bool" where
  "ranked rank b = (\<forall>(i, t) \<in> set b. \<forall>r \<in> set (btRequired t). rank r < rank i)"

lemma ready_exists:
  assumes "wf_build b" and "ranked rank b" and "(i, t) \<in> set b" and "Status t = New"
  shows "\<exists>u \<in> snd ` set b. ready b u"
  using assms(3,4)
proof (induction "rank i" arbitrary: i t rule: less_induct)
  case less
  show ?case
  proof (cases "ready b t")
    case True
    then show ?thesis using less.prems(1) by force
  next
    case False
    then obtain r u where r: "r \<in> set (btRequired t)" "GetTask b r = Some u" "Status u = New"
      using less.prems(2) by (auto simp: ready_def)
    have "rank r < rank i" using r(1) less.prems(1) assms(2) by (auto simp: ranked_def)
    then show ?thesis using less.hyps r(2,3) assms(1) by (auto simp: GetTask_iff)
  qed
qed

lemma GetNextTask_Some:
  assumes "wf_build b" and "GetNextTask b = Inr (Some t)" and "closed_build b"
  shows "GetTask b (btID t) = Some t \<and> ready b t"
proof -
  have "least_ready b (snd ` set b) (Some t)" using GetNextTask_least [OF assms(3)] assms(2) by auto
  then have "t \<in> snd ` set b" "ready b t" by (simp_all add: least_ready_def)
  then show ?thesis using assms(1) by (auto simp: GetTask_iff) (auto simp: wf_build_def)
qed

section \<open>What the reports do to the status\<close>

lemma mapFirst_map:
  "(\<And>x. P x \<Longrightarrow> g (f x) = g x) \<Longrightarrow> map g (mapFirst P f xs) = map g xs"
  by (induction xs) auto

lemma applyUpdates_keeps:
  "map bcProto (btCommands (snd (applyUpdates us t))) = map bcProto (btCommands t) \<and>
   btID (snd (applyUpdates us t)) = btID t \<and> btStatus (snd (applyUpdates us t)) = btStatus t \<and>
   btRequired (snd (applyUpdates us t)) = btRequired t \<and> btInstance (snd (applyUpdates us t)) = btInstance t \<and>
   btName (snd (applyUpdates us t)) = btName t"
  by (induction us t rule: applyUpdates.induct) (auto simp: mapFirst_map split: option.splits)

definition statusOf :: "string \<Rightarrow> (string \<times> updateStatus) list \<Rightarrow> commandStatus \<Rightarrow> commandStatus" where
  "statusOf name us s = fold (\<lambda>(n, u) s. if n = name then updatedStatus u s else s) us s"

lemma find_Some_ex: "x \<in> set xs \<Longrightarrow> P x \<Longrightarrow> \<exists>y. find P xs = Some y"
  by (induction xs) auto

lemma mapFirst_distinct:
  "distinct (map g xs) \<Longrightarrow> mapFirst (\<lambda>x. g x = k) f xs = map (\<lambda>x. if g x = k then f x else x) xs"
proof (induction xs)
  case (Cons x xs)
  have "map (\<lambda>y. if g y = g x then f y else y) xs = xs" using Cons.prems by (intro map_idI) (auto simp: image_iff)
  then show ?case using Cons by auto
qed simp

lemma applyUpdates_distinct:
  assumes "distinct (map (\<lambda>c. cmdName (bcProto c)) (btCommands t))"
    and "fst ` set us \<subseteq> (\<lambda>c. cmdName (bcProto c)) ` set (btCommands t)"
  shows "applyUpdates us t =
    (None, t\<lparr>btCommands := map (\<lambda>c. c\<lparr>bcStatus := statusOf (cmdName (bcProto c)) us (bcStatus c)\<rparr>) (btCommands t)\<rparr>)"
  using assms
proof (induction us t rule: applyUpdates.induct)
  case (1 t)
  have "map (\<lambda>c :: bcommand. c\<lparr>bcStatus := bcStatus c\<rparr>) (btCommands t) = btCommands t" by (rule map_idI) simp
  then show ?case by (simp add: statusOf_def)
next
  case (2 name u us t)
  obtain c where c: "GetCommand name t = Some c"
    using "2.prems"(2) find_Some_ex [where P = "\<lambda>c. cmdName (bcProto c) = name"] by (fastforce simp: GetCommand_def)
  let ?t = "t\<lparr>btCommands := mapFirst (\<lambda>c. cmdName (bcProto c) = name)
      (\<lambda>c. c\<lparr>bcStatus := updatedStatus u (bcStatus c)\<rparr>) (btCommands t)\<rparr>"
  have cs: "btCommands ?t = map (\<lambda>c. if cmdName (bcProto c) = name
      then c\<lparr>bcStatus := updatedStatus u (bcStatus c)\<rparr> else c) (btCommands t)"
    using mapFirst_distinct [OF "2.prems"(1)] by simp
  have names: "map (\<lambda>c. cmdName (bcProto c)) (btCommands ?t) = map (\<lambda>c. cmdName (bcProto c)) (btCommands t)"
    unfolding cs by simp
  have "applyUpdates us ?t = (None, ?t\<lparr>btCommands := map (\<lambda>c. c\<lparr>bcStatus :=
      statusOf (cmdName (bcProto c)) us (bcStatus c)\<rparr>) (btCommands ?t)\<rparr>)"
    using "2.IH" [OF c] "2.prems" names by (metis (no_types, lifting) image_subset_iff list.set_intros(2) list.set_map)
  then show ?case using c cs by (auto simp: statusOf_def)
qed

section \<open>Properties\<close>

text \<open>
  C9. In a build whose dependencies exist, \<open>GetNextTask\<close> never panics and returns the task with the
  least identifier among those that are new and whose dependencies are all resolved, and no task
  when there is none; the answer does not depend on the iteration order of the map, and if the
  dependencies have no cycle there is an answer as long as some task is new.
\<close>

theorem GetNextTask_correct:
  assumes "wf_build b" and "closed_build b"
  shows "\<exists>r. GetNextTask b = Inr r \<and>
    (case r of
       None \<Rightarrow> (\<forall>t \<in> snd ` set b. \<not> ready b t) \<and>
         (\<forall>rank. ranked rank b \<longrightarrow> (\<forall>t \<in> snd ` set b. Status t \<noteq> New))
     | Some t \<Rightarrow> GetTask b (btID t) = Some t \<and> ready b t \<and>
         (\<forall>u \<in> snd ` set b. ready b u \<longrightarrow> btID t \<le> btID u)) \<and>
    (\<forall>b'. mset b' = mset b \<longrightarrow> GetNextTask b' = Inr r)"
proof -
  obtain r where r: "GetNextTask b = Inr r" "least_ready b (snd ` set b) r"
    using GetNextTask_least [OF assms(2)] by auto
  have "GetNextTask b' = Inr r" if perm: "mset b' = mset b" for b'
  proof -
    have same: "set b' = set b" "GetTask b' = GetTask b"
      using mset_eq_setD [OF perm] GetTask_perm [OF assms(1) perm [symmetric]] by auto
    have rdy: "ready b' = ready b" by (simp add: ready_def fun_eq_iff same(2))
    have "closed_build b'" using assms(2) by (simp add: closed_build_def same(1))
    from GetNextTask_least [OF this] obtain s
      where "GetNextTask b' = Inr s" "least_ready b (snd ` set b) s"
      unfolding least_ready_def rdy same(1) by blast
    then show ?thesis using least_ready_unique [OF assms(1) r(2)] by simp
  qed
  moreover have "Status t \<noteq> New" if "ranked rank b" "r = None" "t \<in> snd ` set b" for rank t
    using ready_exists [OF assms(1) that(1)] that(2,3) r(2) by (auto simp: least_ready_def)
  moreover have "GetTask b (btID t) = Some t" if "r = Some t" for t
    using GetNextTask_Some [OF assms(1) _ assms(2)] r(1) that by simp
  ultimately show ?thesis
    using r by (auto simp: least_ready_def split: option.splits)
qed

abbreviation exampleTask :: "int \<Rightarrow> int list \<Rightarrow> btask" where
  "exampleTask i deps \<equiv> \<lparr>btID = i, btRequired = deps, btName = ''t'', btLabels = [], btStatus = New,
     btInstance = IsolatedInst, btTimeout = 0, btEnvironment = [],
     btCommands = [\<lparr>bcStatus = Undefined, bcProto = mkCommand ''main'' CloneInstruction\<rparr>]\<rparr>"

theorem GetNextTask_correct_witness:
  "GetNextTask [(2, exampleTask 2 []), (0, exampleTask 0 [1]), (1, exampleTask 1 [])] = Inr (Some (exampleTask 1 [])) \<and>
   GetNextTask [(1, exampleTask 1 []), (2, exampleTask 2 []), (0, exampleTask 0 [1])] = Inr (Some (exampleTask 1 []))"
proof -
  have "GetNextTask [(2, exampleTask 2 []), (0, exampleTask 0 [1]), (1, exampleTask 1 [])] = Inr (Some (exampleTask 1 []))"
    by code_simp
  then show ?thesis
    using GetNextTask_correct [of "[(2, exampleTask 2 []), (0, exampleTask 0 [1]), (1, exampleTask 1 [])]"]
    by (auto simp: wf_build_def closed_build_def)
qed

end
