(* ===== verification/Executor.thy ===== *)
theory Executor
  imports Build
begin

text \<open>
  Package \<open>internal/executor\<close> (executor.go, arch.go, os.go) and \<open>internal/executor/pathsafe\<close>: the
  placement of the tasks on the host, the run of one task, the main loop, and the names of the
  images that Dockerfile tasks build and use. What happens outside of the executor while a task
  runs (the RPC listener, the instance, the calls of the agent, the end of the context) is the
  \<open>outcome\<close> of the run, an argument of the definitions.
\<close>

section \<open>Placement\<close>

record host =
  hostOS :: string
  hostArch :: string
  hostBinfmt :: "string \<Rightarrow> bool"
  hostWindowsContainers :: bool
  hostQemu :: bool

definition requiresTask :: "btask \<Rightarrow> int \<Rightarrow> bool" where
  "requiresTask t i = list_ex (\<lambda>r. r = i) (btRequired t)"

definition containerArch :: "btask \<Rightarrow> architecture option" where
  "containerArch t =
     (case btInstance t of
        ContainerI (Some a) _ _ \<Rightarrow> Some a
      | ContainerI None _ _ \<Rightarrow> Some AMD64
      | _ \<Rightarrow> None)"

text \<open>The loop over the tasks that depend on an image; \<open>arch\<close> is what was found so far.\<close>

fun dependentsArch :: "int \<Rightarrow> btask list \<Rightarrow> architecture option \<Rightarrow> architecture option" where
  "dependentsArch i [] arch = arch"
| "dependentsArch i (t # ts) arch =
     (if \<not> requiresTask t i then dependentsArch i ts arch
      else case containerArch t of
          None \<Rightarrow> None
        | Some a \<Rightarrow>
            (case arch of
               None \<Rightarrow> dependentsArch i ts (Some a)
             | Some a' \<Rightarrow> if a \<noteq> a' then None else dependentsArch i ts arch))"

definition taskArch :: "btask \<Rightarrow> btask list \<Rightarrow> architecture option" where
  "taskArch t allTasks =
     (case btInstance t of
        ContainerI (Some a) _ _ \<Rightarrow> Some a
      | ContainerI None _ _ \<Rightarrow> Some AMD64
      | FreeBSDI \<Rightarrow> Some AMD64
      | PrebuiltI _ _ \<Rightarrow> dependentsArch (btID t) allTasks None
      | _ \<Rightarrow> None)"

definition hostSupportsArch :: "host \<Rightarrow> architecture \<Rightarrow> bool" where
  "hostSupportsArch h a =
     (let goarch = (case a of ARM64 \<Rightarrow> ''arm64'' | AMD64 \<Rightarrow> ''amd64'');
          binfmt = (case a of ARM64 \<Rightarrow> ''qemu-aarch64'' | AMD64 \<Rightarrow> ''qemu-x86_64'')
      in hostArch h = goarch \<or> hostOS h = ''linux'' \<and> hostBinfmt h binfmt)"

definition containerOS :: "btask \<Rightarrow> string option" where
  "containerOS t =
     (case btInstance t of
        ContainerI _ p _ \<Rightarrow> Some (if p = WINDOWS then ''windows'' else ''linux'')
      | _ \<Rightarrow> None)"

definition taskOS :: "btask \<Rightarrow> btask list \<Rightarrow> string option" where
  "taskOS t allTasks =
     (case btInstance t of
        ContainerI _ p _ \<Rightarrow> if p = WINDOWS then Some ''windows'' else None
      | TartI \<Rightarrow> Some ''darwin''
      | VetuI \<Rightarrow> Some ''linux''
      | ParallelsI \<Rightarrow> Some ''darwin''
      | PrebuiltI _ _ \<Rightarrow>
          (let dependents = filter (\<lambda>u. requiresTask u (btID t)) allTasks;
               seenWindows = list_ex (\<lambda>u. containerOS u = Some ''windows'') dependents;
               seenOther = list_ex (\<lambda>u. containerOS u \<noteq> Some ''windows'') dependents
           in if seenWindows \<and> \<not> seenOther then Some ''windows'' else None)
      | _ \<Rightarrow> None)"

definition needsLinuxContainers :: "btask \<Rightarrow> bool" where
  "needsLinuxContainers t = (containerOS t = Some ''linux'')"

definition hostSupportsOS :: "host \<Rightarrow> string \<Rightarrow> bool" where
  "hostSupportsOS h os = (hostOS h = os)"

definition IsPathSafe :: "host \<Rightarrow> string \<Rightarrow> bool" where
  "IsPathSafe h s =
     (s \<noteq> [] \<and>
      list_all (\<lambda>r. \<not> ((hostOS h = ''windows'' \<or> hostOS h = ''darwin'') \<and> r = CHR '':'') \<and>
        (isUpper r \<or> isLower r \<or> isDigit r \<or> r = CHR ''_'' \<or> r = CHR ''-'' \<or> r = CHR '' '' \<or> r = CHR '':'')) s)"

text \<open>The four reasons for which \<open>runSingleTask\<close> skips a task.\<close>

definition skippedBy :: "host \<Rightarrow> btask \<Rightarrow> btask list \<Rightarrow> bool" where
  "skippedBy h t allTasks =
     ((case taskArch t allTasks of None \<Rightarrow> False | Some a \<Rightarrow> \<not> hostSupportsArch h a) \<or>
      (case taskOS t allTasks of None \<Rightarrow> False | Some os \<Rightarrow> \<not> hostSupportsOS h os) \<or>
      needsLinuxContainers t \<and> hostOS h = ''windows'' \<and> hostWindowsContainers h \<or>
      btInstance t = FreeBSDI \<and> hostOS h = ''windows'' \<and> \<not> hostQemu h)"

section \<open>The run of one task\<close>

datatype runErr =
    ErrBuildFailed string "string list"
  | Canceled
  | DeadlineExceeded
  | ErrUnsupportedInstance string
  | OtherErr string

datatype ctxEnd = CtxNotDone | CtxNoHeartbeats | CtxDeadline | CtxCanceled

record outcome =
  ocStart :: "runErr option"
  ocSecret :: string
  ocCalls :: "(requestMD \<times> (string \<times> updateStatus) list) list"
  ocRun :: "runErr option"
  ocCtx :: ctxEnd
  ocClose :: "runErr option"

fun deliver :: "string \<Rightarrow> (requestMD \<times> (string \<times> updateStatus) list) list \<Rightarrow> build \<Rightarrow> build" where
  "deliver secret [] b = b"
| "deliver secret ((md, us) # reqs) b = deliver secret reqs (snd (ReportCommandUpdates secret md us b))"

definition instanceRun :: "btask \<Rightarrow> outcome \<Rightarrow> runErr option" where
  "instanceRun t oc = (case btInstance t of UnsupportedI m \<Rightarrow> Some (ErrUnsupportedInstance m) | _ \<Rightarrow> ocRun oc)"

definition instanceClose :: "btask \<Rightarrow> outcome \<Rightarrow> runErr option" where
  "instanceClose t oc = (case btInstance t of UnsupportedI m \<Rightarrow> None | _ \<Rightarrow> ocClose oc)"

definition onTask :: "int \<Rightarrow> (btask \<Rightarrow> btask) \<Rightarrow> build \<Rightarrow> build" where
  "onTask i f b = (case GetTask b i of None \<Rightarrow> b | Some t \<Rightarrow> AList.update i (f t) b)"

text \<open>From the return of the instance to the end of \<open>runSingleTask\<close>, without the deferred calls.\<close>

definition settlePrebuilt :: "btask \<Rightarrow> btask" where
  "settlePrebuilt t =
     (case btInstance t of
        PrebuiltI _ _ \<Rightarrow> if Status t = New then SetStatus Succeeded t else t
      | _ \<Rightarrow> t)"

definition verdict :: "btask \<Rightarrow> runErr option" where
  "verdict t =
     (case Status t of
        Succeeded \<Rightarrow> None
      | New \<Rightarrow> Some (ErrBuildFailed ''instance terminated before the task %s had a chance to run'' [taskString t])
      | Skipped \<Rightarrow> None
      | s \<Rightarrow> Some (ErrBuildFailed ''task %s %s'' [taskString t, taskStatusString s]))"

definition concludeRun :: "int \<Rightarrow> build \<Rightarrow> runErr option \<times> build" where
  "concludeRun i b =
     (let b' = onTask i settlePrebuilt b
      in (case GetTask b' i of None \<Rightarrow> None | Some t \<Rightarrow> verdict t, b'))"

definition runInstance :: "outcome \<Rightarrow> btask \<Rightarrow> build \<Rightarrow> runErr option \<times> build" where
  "runInstance oc t b =
     (let b1 = deliver (ocSecret oc) (ocCalls oc) b
      in case instanceRun t oc of
           None \<Rightarrow> concludeRun (btID t) b1
         | Some e \<Rightarrow>
             if ocCtx oc = CtxNoHeartbeats \<or> ocCtx oc = CtxDeadline
             then concludeRun (btID t) (onTask (btID t) (SetStatus TimedOut) b1)
             else (case e of
                     ErrUnsupportedInstance m \<Rightarrow> concludeRun (btID t) (onTask (btID t) (SetStatus Skipped) b1)
                   | _ \<Rightarrow> (Some e, b1)))"

definition runSingleTask :: "host \<Rightarrow> (btask \<Rightarrow> outcome) \<Rightarrow> btask \<Rightarrow> build \<Rightarrow> runErr option \<times> build" where
  "runSingleTask h outcomes t b =
     (if skippedBy h t (map snd b) then (None, onTask (btID t) (SetStatus Skipped) b)
      else case ocStart (outcomes t) of
          Some e \<Rightarrow> (Some e, b)
        | None \<Rightarrow>
            (let (e, b') = runInstance (outcomes t) t b
             in (if e = None then instanceClose t (outcomes t) else e, b')))"

section \<open>The main loop\<close>

definition isContextError :: "runErr \<Rightarrow> bool" where
  "isContextError e = (e = Canceled \<or> e = DeadlineExceeded)"

text \<open>
  \<open>Run\<close> with fuel: \<open>None\<close> when the fuel runs out, a panic of \<open>GetNextTask\<close>, or the first error, the
  final build and the identifiers of the tasks in the order in which they were run.
\<close>

fun runLoop ::
  "nat \<Rightarrow> host \<Rightarrow> (btask \<Rightarrow> outcome) \<Rightarrow> build \<Rightarrow> runErr option \<Rightarrow> (runErr option \<times> build \<times> int list) res option" where
  "runLoop 0 h outcomes b firstErr = None"
| "runLoop (Suc n) h outcomes b firstErr =
     (case GetNextTask b of
        Inl e \<Rightarrow> Some (Inl e)
      | Inr None \<Rightarrow> Some (Inr (firstErr, b, []))
      | Inr (Some t) \<Rightarrow>
          (let (err, b1) = runSingleTask h outcomes t b;
               b2 = (if err = None then b1 else onTask (btID t) (SetStatus Failed) b1);
               firstErr' = (if firstErr = None then err else firstErr)
           in if (case err of None \<Rightarrow> False | Some e \<Rightarrow> isContextError e)
              then Some (Inr (firstErr', b2, [btID t]))
              else (case runLoop n h outcomes b2 firstErr' of
                      Some (Inr (r, b3, trace)) \<Rightarrow> Some (Inr (r, b3, btID t # trace))
                    | other \<Rightarrow> other)))"

definition Run :: "host \<Rightarrow> (btask \<Rightarrow> outcome) \<Rightarrow> build \<Rightarrow> (runErr option \<times> build \<times> int list) res option" where
  "Run h outcomes b = runLoop (Suc (length b)) h outcomes b None"

section \<open>What a step of the loop changes\<close>

text \<open>A run of task \<open>i\<close> keeps the identifiers and the dependencies, and the other tasks as they are.\<close>

definition frame :: "int \<Rightarrow> build \<Rightarrow> build \<Rightarrow> bool" where
  "frame i b b' =
     (map fst b' = map fst b \<and>
      (\<forall>j t. GetTask b j = Some t \<longrightarrow>
        (\<exists>t'. GetTask b' j = Some t' \<and> btID t' = btID t \<and> btRequired t' = btRequired t \<and>
          btInstance t' = btInstance t \<and> (j \<noteq> i \<longrightarrow> t' = t))))"

lemma frame_refl [simp]: "frame i b b"
  by (simp add: frame_def)

lemma frame_trans:
  assumes "frame i b b'" and "frame i b' b''"
  shows "frame i b b''"
proof -
  have "\<exists>t''. GetTask b'' j = Some t'' \<and> btID t'' = btID t \<and> btRequired t'' = btRequired t \<and>
      btInstance t'' = btInstance t \<and> (j \<noteq> i \<longrightarrow> t'' = t)" if t: "GetTask b j = Some t" for j t
  proof -
    obtain t' where t': "GetTask b' j = Some t'" "btID t' = btID t" "btRequired t' = btRequired t"
        "btInstance t' = btInstance t" "j \<noteq> i \<longrightarrow> t' = t"
      using assms(1) t unfolding frame_def by blast
    obtain t'' where "GetTask b'' j = Some t''" "btID t'' = btID t'" "btRequired t'' = btRequired t'"
        "btInstance t'' = btInstance t'" "j \<noteq> i \<longrightarrow> t'' = t'"
      using assms(2) t'(1) unfolding frame_def by blast
    then show ?thesis using t' by auto
  qed
  then show ?thesis using assms by (simp add: frame_def)
qed

lemma frame_update:
  assumes "GetTask b i = Some t" and "btID t' = btID t" and "btRequired t' = btRequired t"
    and "btInstance t' = btInstance t"
  shows "frame i b (AList.update i t' b)"
proof -
  have "i \<in> set (map fst b)" using assms(1) by (force simp: GetTask_def dest: map_of_SomeD)
  then show ?thesis using assms by (auto simp: frame_def update_keys GetTask_update)
qed

lemma frame_onTask:
  "(\<And>t. btID (f t) = btID t \<and> btRequired (f t) = btRequired t \<and> btInstance (f t) = btInstance t) \<Longrightarrow> frame i b (onTask i f b)"
  by (auto simp: onTask_def intro: frame_update split: option.splits)

lemma SetStatus_keeps [simp]:
  "btID (SetStatus s t) = btID t" "btRequired (SetStatus s t) = btRequired t"
  "btInstance (SetStatus s t) = btInstance t" "btCommands (SetStatus s t) = btCommands t"
  "btStatus (SetStatus s t) = s" "btName (SetStatus s t) = btName t"
  by (simp_all add: SetStatus_def)

lemma Status_SetStatus [simp]: "s \<noteq> New \<Longrightarrow> Status (SetStatus s t) = s"
  by (simp add: Status_def)

lemma settlePrebuilt_keeps [simp]:
  "btID (settlePrebuilt t) = btID t" "btRequired (settlePrebuilt t) = btRequired t"
  "btInstance (settlePrebuilt t) = btInstance t"
  by (simp_all add: settlePrebuilt_def split: binst.splits)

lemma GetTask_onTask: "GetTask (onTask i f b) j = (if j = i then map_option f (GetTask b i) else GetTask b j)"
  by (auto simp: onTask_def GetTask_update split: option.splits)

lemma GetTask_dom: "(\<exists>t. GetTask b j = Some t) \<longleftrightarrow> j \<in> fst ` set b"
  using dom_map_of_conv_image_fst [of b] by (auto simp: GetTask_def dom_def)

lemma frame_dom: "frame i b b' \<Longrightarrow> fst ` set b' = fst ` set b"
  unfolding frame_def by (metis set_map)

lemma frame_back:
  assumes "frame i b b'" and "GetTask b' j = Some t'"
  shows "\<exists>t. GetTask b j = Some t \<and> btRequired t' = btRequired t \<and> btID t' = btID t \<and>
    btInstance t' = btInstance t \<and> (j \<noteq> i \<longrightarrow> t' = t)"
proof -
  have "\<exists>t. GetTask b j = Some t" using assms GetTask_dom frame_dom by metis
  then obtain t where t: "GetTask b j = Some t" ..
  then obtain t'' where "GetTask b' j = Some t''" "btID t'' = btID t \<and> btRequired t'' = btRequired t \<and>
      btInstance t'' = btInstance t \<and> (j \<noteq> i \<longrightarrow> t'' = t)"
    using assms(1) unfolding frame_def by blast
  then show ?thesis using t assms(2) by simp
qed

lemma wf_frame:
  assumes "frame i b b'" and "wf_build b"
  shows "wf_build b'"
proof -
  have "btID t' = j" if t': "map_of b' j = Some t'" for j t'
    using frame_back [OF assms(1), of j t'] t' GetTask_id [OF assms(2)] by (auto simp: GetTask_def)
  then show ?thesis using assms by (simp add: wf_build_alt frame_def)
qed

lemma closed_frame:
  assumes "frame i b b'" and "wf_build b" and "closed_build b"
  shows "closed_build b'"
proof -
  have dom: "fst ` set b' = fst ` set b" using assms(1) by (rule frame_dom)
  have "r \<in> fst ` set b" if jt: "(j, t') \<in> set b'" "r \<in> set (btRequired t')" for j t' r
  proof -
    have "GetTask b' j = Some t'" using jt wf_frame [OF assms(1,2)] by (simp add: GetTask_iff)
    then obtain t where "GetTask b j = Some t" "btRequired t' = btRequired t"
      using frame_back [OF assms(1)] by metis
    then show ?thesis using jt(2) assms(2,3) by (fastforce simp: GetTask_iff closed_build_def)
  qed
  then show ?thesis by (auto simp: closed_build_def dom)
qed

lemma ranked_frame:
  assumes "frame i b b'" and "wf_build b" and "ranked rank b"
  shows "ranked rank b'"
proof -
  have "rank r < rank j" if jt: "(j, t') \<in> set b'" "r \<in> set (btRequired t')" for j t' r
  proof -
    have "GetTask b' j = Some t'" using jt wf_frame [OF assms(1,2)] by (simp add: GetTask_iff)
    then obtain t where "GetTask b j = Some t" "btRequired t' = btRequired t"
      using frame_back [OF assms(1)] by metis
    then show ?thesis using jt(2) assms(2,3) by (fastforce simp: GetTask_iff ranked_def)
  qed
  then show ?thesis by (auto simp: ranked_def)
qed

text \<open>An agent that reports for its own task only, as the agent of the CLI does.\<close>

definition ownCalls :: "int \<Rightarrow> outcome \<Rightarrow> bool" where
  "ownCalls i oc =
     list_all (\<lambda>(md, us). case extractTaskAuthMetadata md of Inl _ \<Rightarrow> True | Inr (j, _) \<Rightarrow> j = i) (ocCalls oc)"

lemma ReportCommandUpdates_frame:
  assumes "wf_build b" and "case extractTaskAuthMetadata md of Inl _ \<Rightarrow> True | Inr (j, _) \<Rightarrow> j = i"
  shows "frame i b (snd (ReportCommandUpdates secret md us b))"
proof (cases "taskFromMetadata secret b md")
  case (Inl e)
  then show ?thesis by (simp add: ReportCommandUpdates_def)
next
  case (Inr t)
  then have t: "GetTask b i = Some t" "btID t = i"
    using assms by (auto simp: taskFromMetadata_def dest: GetTask_id split: sum.splits if_splits option.splits prod.splits)
  then show ?thesis
    using Inr frame_update [OF t(1)] applyUpdates_keeps [of us t]
    by (simp add: ReportCommandUpdates_def case_prod_unfold Let_def)
qed

lemma deliver_frame:
  assumes "wf_build b"
    and "list_all (\<lambda>(md, us). case extractTaskAuthMetadata md of Inl _ \<Rightarrow> True | Inr (j, _) \<Rightarrow> j = i) cs"
  shows "frame i b (deliver secret cs b)"
  using assms
proof (induction cs arbitrary: b)
  case (Cons c cs)
  obtain md us where c: "c = (md, us)" by force
  have "frame i b (snd (ReportCommandUpdates secret md us b))"
    using Cons.prems c by (intro ReportCommandUpdates_frame) auto
  moreover from this have "wf_build (snd (ReportCommandUpdates secret md us b))"
    using Cons.prems(1) by (rule wf_frame)
  ultimately show ?case using Cons.IH Cons.prems(2) c frame_trans by auto
qed simp

lemma concludeRun_frame: "frame i b (snd (concludeRun i b))"
  by (simp add: concludeRun_def Let_def frame_onTask)

lemma runInstance_frame:
  assumes "wf_build b" and "ownCalls (btID t) oc"
  shows "frame (btID t) b (snd (runInstance oc t b))"
proof -
  let ?b = "deliver (ocSecret oc) (ocCalls oc) b"
  have d: "frame (btID t) b ?b" using assms by (simp add: deliver_frame ownCalls_def)
  have "frame (btID t) b (snd (concludeRun (btID t) (onTask (btID t) (SetStatus s) ?b)))" for s
    by (intro frame_trans [OF d frame_trans [OF frame_onTask concludeRun_frame]]) simp
  then show ?thesis
    using d frame_trans [OF d concludeRun_frame]
    by (auto simp: runInstance_def Let_def split: option.splits runErr.splits)
qed

lemma runSingleTask_frame:
  assumes "wf_build b" and "ownCalls (btID t) (outcomes t)"
  shows "frame (btID t) b (snd (runSingleTask h outcomes t b))"
  using runInstance_frame [OF assms]
  by (auto simp: runSingleTask_def Let_def case_prod_unfold frame_onTask split: option.splits)

text \<open>A run without an error leaves the task succeeded or skipped.\<close>

lemma concludeRun_None:
  assumes "fst (concludeRun i b) = None" and "GetTask b i = Some t"
  shows "\<exists>t'. GetTask (snd (concludeRun i b)) i = Some t' \<and> Status t' \<in> {Succeeded, Skipped}"
  using assms by (auto simp: concludeRun_def Let_def GetTask_onTask verdict_def split: taskStatus.splits)

lemma runInstance_None:
  assumes "wf_build b" and "ownCalls (btID t) oc" and "GetTask b (btID t) = Some t"
    and "fst (runInstance oc t b) = None"
  shows "\<exists>t'. GetTask (snd (runInstance oc t b)) (btID t) = Some t' \<and> Status t' \<in> {Succeeded, Skipped}"
proof -
  let ?b = "deliver (ocSecret oc) (ocCalls oc) b"
  have "frame (btID t) b ?b" using assms by (simp add: deliver_frame ownCalls_def)
  then obtain u where u: "GetTask ?b (btID t) = Some u" using assms(3) by (auto simp: frame_def)
  then have "GetTask (onTask (btID t) (SetStatus s) ?b) (btID t) = Some (SetStatus s u)" for s
    by (simp add: GetTask_onTask)
  then show ?thesis
    using assms(4) concludeRun_None [OF _ u] concludeRun_None [where b = "onTask (btID t) (SetStatus _) ?b"]
    by (auto simp: runInstance_def Let_def split: option.splits runErr.splits if_splits)
qed

lemma runSingleTask_None:
  assumes "wf_build b" and "ownCalls (btID t) (outcomes t)" and "GetTask b (btID t) = Some t"
    and "fst (runSingleTask h outcomes t b) = None"
  shows "\<exists>t'. GetTask (snd (runSingleTask h outcomes t b)) (btID t) = Some t' \<and> Status t' \<in> {Succeeded, Skipped}"
  using runInstance_None [OF assms(1-3)] assms(3,4)
  by (auto simp: runSingleTask_def Let_def case_prod_unfold GetTask_onTask split: option.splits if_splits)

section \<open>The loop\<close>

definition freshTasks :: "build \<Rightarrow> int set" where
  "freshTasks b = {i. \<exists>t. GetTask b i = Some t \<and> Status t = New}"

lemma finite_freshTasks [simp]: "finite (freshTasks b)"
proof (rule finite_subset)
  show "freshTasks b \<subseteq> fst ` set b" using GetTask_dom by (auto simp: freshTasks_def)
qed simp

lemma card_freshTasks: "card (freshTasks b) \<le> length b"
proof -
  have "freshTasks b \<subseteq> fst ` set b" using GetTask_dom by (auto simp: freshTasks_def)
  then have "card (freshTasks b) \<le> card (fst ` set b)" by (intro card_mono) auto
  also have "\<dots> \<le> length b" by (metis card_length length_map set_map)
  finally show ?thesis .
qed

definition stepBuild :: "host \<Rightarrow> (btask \<Rightarrow> outcome) \<Rightarrow> btask \<Rightarrow> build \<Rightarrow> build" where
  "stepBuild h outcomes t b =
     (let (err, b1) = runSingleTask h outcomes t b
      in if err = None then b1 else onTask (btID t) (SetStatus Failed) b1)"

definition good :: "runErr option \<Rightarrow> taskStatus \<Rightarrow> bool" where
  "good err s = (if err = None then s \<in> {Succeeded, Skipped} else s = Failed)"

lemma stepBuild_correct:
  assumes "wf_build b" and "ownCalls (btID t) (outcomes t)" and "GetTask b (btID t) = Some t"
  shows "frame (btID t) b (stepBuild h outcomes t b) \<and>
    (\<exists>t'. GetTask (stepBuild h outcomes t b) (btID t) = Some t' \<and> good (fst (runSingleTask h outcomes t b)) (Status t'))"
proof -
  let ?b1 = "snd (runSingleTask h outcomes t b)"
  have f: "frame (btID t) b ?b1" using assms(1,2) by (rule runSingleTask_frame)
  then obtain u where u: "GetTask ?b1 (btID t) = Some u" using assms(3) unfolding frame_def by blast
  have "frame (btID t) ?b1 (onTask (btID t) (SetStatus Failed) ?b1)" by (rule frame_onTask) simp
  with f have "frame (btID t) b (onTask (btID t) (SetStatus Failed) ?b1)" by (rule frame_trans)
  then show ?thesis
    using f u runSingleTask_None [of b t outcomes h] assms
    by (cases "fst (runSingleTask h outcomes t b)")
      (auto simp: stepBuild_def case_prod_unfold Let_def good_def GetTask_onTask)
qed

lemma frame_other: "frame i b b' \<Longrightarrow> j \<noteq> i \<Longrightarrow> GetTask b' j = GetTask b j"
  using GetTask_dom [of b j] GetTask_dom [of b' j] frame_dom [of i b b']
  by (cases "GetTask b j"; cases "GetTask b' j") (auto dest: frame_back)

lemma freshTasks_step:
  assumes "frame i b b'" and "GetTask b' i = Some t'" and "Status t' \<noteq> New"
  shows "freshTasks b' = freshTasks b - {i}"
proof (rule set_eqI)
  fix j
  show "j \<in> freshTasks b' \<longleftrightarrow> j \<in> freshTasks b - {i}"
    using frame_other [OF assms(1), of j] assms(2,3) by (cases "j = i") (simp_all add: freshTasks_def)
qed

text \<open>What one step contributes, and what a run of the loop from \<open>b\<close> to \<open>b'\<close> guarantees.\<close>

definition orderly :: "build \<Rightarrow> int list \<Rightarrow> bool" where
  "orderly b trace =
     (\<forall>k < length trace. \<forall>t. GetTask b (trace ! k) = Some t \<longrightarrow>
        (\<forall>r \<in> set (btRequired t). r \<notin> freshTasks b \<or> r \<in> set (take k trace)))"

definition ranOK :: "build \<Rightarrow> build \<Rightarrow> int list \<Rightarrow> bool" where
  "ranOK b b' trace =
     (wf_build b' \<and> closed_build b' \<and> distinct trace \<and> set trace \<subseteq> freshTasks b \<and>
      freshTasks b' = freshTasks b - set trace \<and> orderly b trace \<and>
      (\<forall>j. j \<notin> set trace \<longrightarrow> GetTask b' j = GetTask b j) \<and> (\<forall>rank. ranked rank b \<longrightarrow> ranked rank b'))"

lemma orderly_Cons:
  assumes "frame i b b'" and "freshTasks b' = freshTasks b - {i}" and "orderly b' trace"
    and "GetTask b i = Some t" and "ready b t"
  shows "orderly b (i # trace)"
  unfolding orderly_def
proof (intro allI impI ballI)
  fix k u r
  assume k: "k < length (i # trace)" and u: "GetTask b ((i # trace) ! k) = Some u" and r: "r \<in> set (btRequired u)"
  show "r \<notin> freshTasks b \<or> r \<in> set (take k (i # trace))"
  proof (cases k)
    case 0
    then show ?thesis using u r assms(4,5) by (auto simp: ready_def freshTasks_def)
  next
    case (Suc m)
    obtain u' where u': "GetTask b' (trace ! m) = Some u'" "btRequired u' = btRequired u"
      using u Suc assms(1) unfolding frame_def by fastforce
    then have "r \<notin> freshTasks b' \<or> r \<in> set (take m trace)"
      using assms(3) k Suc r unfolding orderly_def by auto
    then show ?thesis using assms(2) Suc by auto
  qed
qed

lemma ranOK_Cons:
  assumes "wf_build b" and "frame i b b1" and "GetTask b i = Some t" and "ready b t"
    and "GetTask b1 i = Some t1" and "Status t1 \<noteq> New" and "ranOK b1 b' trace"
  shows "ranOK b b' (i # trace)"
proof -
  have new: "freshTasks b1 = freshTasks b - {i}" using assms(2,5,6) by (rule freshTasks_step)
  have "orderly b (i # trace)"
    using orderly_Cons [OF assms(2) new _ assms(3,4)] assms(7) by (simp add: ranOK_def)
  moreover have "i \<in> freshTasks b" using assms(3,4) by (simp add: freshTasks_def ready_def)
  ultimately show ?thesis
    using assms(7) new frame_other [OF assms(2)] ranked_frame [OF assms(2,1)] by (auto simp: ranOK_def)
qed

definition noContextErrors :: "(btask \<Rightarrow> outcome) \<Rightarrow> bool" where
  "noContextErrors outcomes =
     (\<forall>t e. e = ocStart (outcomes t) \<or> e = ocRun (outcomes t) \<or> e = ocClose (outcomes t) \<longrightarrow>
        e \<noteq> Some Canceled \<and> e \<noteq> Some DeadlineExceeded)"

lemma concludeRun_no_context: "fst (concludeRun i b) \<noteq> Some Canceled \<and> fst (concludeRun i b) \<noteq> Some DeadlineExceeded"
  by (auto simp: concludeRun_def Let_def verdict_def split: option.splits taskStatus.splits)

lemma runSingleTask_no_context:
  assumes "noContextErrors outcomes" and "fst (runSingleTask h outcomes t b) = Some e"
  shows "\<not> isContextError e"
proof -
  have "fst (runInstance (outcomes t) t b) \<noteq> Some e \<or> \<not> isContextError e"
    using concludeRun_no_context assms(1)
    by (auto simp: runInstance_def Let_def isContextError_def instanceRun_def noContextErrors_def
        split: option.splits runErr.splits binst.splits if_splits)
  then show ?thesis
    using assms
    by (auto simp: runSingleTask_def Let_def case_prod_unfold instanceClose_def noContextErrors_def isContextError_def
        split: option.splits if_splits binst.splits)
qed

lemma runLoop_correct:
  assumes "wf_build b" and "closed_build b" and "\<And>t. ownCalls (btID t) (outcomes t)" and "card (freshTasks b) < n"
  shows "\<exists>r b' trace. runLoop n h outcomes b firstErr = Some (Inr (r, b', trace)) \<and> ranOK b b' trace \<and>
    (r = None \<longleftrightarrow> firstErr = None \<and> (\<forall>i \<in> set trace. \<forall>t. GetTask b' i = Some t \<longrightarrow> Status t \<in> {Succeeded, Skipped})) \<and>
    (noContextErrors outcomes \<longrightarrow> GetNextTask b' = Inr None)"
  using assms(1,2,4)
proof (induction n arbitrary: b firstErr)
  case (Suc n)
  obtain next_task where nt: "GetNextTask b = Inr next_task" using GetNextTask_least [OF Suc.prems(2)] by auto
  show ?case
  proof (cases next_task)
    case None
    have "ranOK b b []" using Suc.prems by (simp add: ranOK_def orderly_def)
    then show ?thesis using nt None by auto
  next
    case (Some t)
    have t: "GetTask b (btID t) = Some t" "ready b t"
      using GetNextTask_Some [OF Suc.prems(1) _ Suc.prems(2)] nt Some by auto
    let ?b1 = "stepBuild h outcomes t b" and ?err = "fst (runSingleTask h outcomes t b)"
    let ?first = "if firstErr = None then ?err else firstErr"
    obtain t1 where f: "frame (btID t) b ?b1" and t1: "GetTask ?b1 (btID t) = Some t1" "good ?err (Status t1)"
      using stepBuild_correct [of b t outcomes h] Suc.prems(1) assms(3) t(1) by blast
    have settled: "Status t1 \<noteq> New" using t1(2) by (auto simp: good_def split: if_splits)
    have wf1: "wf_build ?b1" "closed_build ?b1"
      using wf_frame [OF f Suc.prems(1)] closed_frame [OF f Suc.prems(1,2)] by auto
    have new: "freshTasks ?b1 = freshTasks b - {btID t}" using freshTasks_step [OF f t1(1) settled] .
    have "btID t \<in> freshTasks b" using t by (simp add: freshTasks_def ready_def)
    then have small: "card (freshTasks ?b1) < n"
      using Suc.prems(3) card_Diff1_less [OF finite_freshTasks, of "btID t" b] unfolding new by linarith
    obtain r b' trace where run: "runLoop n h outcomes ?b1 ?first = Some (Inr (r, b', trace))"
      and ran: "ranOK ?b1 b' trace"
      and ok: "r = None \<longleftrightarrow> ?first = None \<and> (\<forall>i \<in> set trace. \<forall>t. GetTask b' i = Some t \<longrightarrow> Status t \<in> {Succeeded, Skipped})"
      and fin: "noContextErrors outcomes \<longrightarrow> GetNextTask b' = Inr None"
      using Suc.IH [OF wf1 small, of ?first] by (elim exE conjE) (rule that)
    have unfold: "runLoop (Suc n) h outcomes b firstErr =
        (if (case ?err of None \<Rightarrow> False | Some e \<Rightarrow> isContextError e) then Some (Inr (?first, ?b1, [btID t]))
         else Some (Inr (r, b', btID t # trace)))"
      using nt Some run by (simp add: stepBuild_def case_prod_unfold Let_def)
    have ran': "ranOK b b' (btID t # trace)" using ranOK_Cons [OF Suc.prems(1) f t t1(1) settled ran] .
    have "ranOK ?b1 ?b1 []" using wf1 by (simp add: ranOK_def orderly_def)
    then have ran1: "ranOK b ?b1 [btID t]" using ranOK_Cons [OF Suc.prems(1) f t t1(1) settled] by blast
    have "btID t \<notin> set trace" using ran' by (simp add: ranOK_def)
    then have t1': "GetTask b' (btID t) = Some t1" using ran t1(1) by (simp add: ranOK_def)
    have err: "?err = None \<longleftrightarrow> Status t1 \<in> {Succeeded, Skipped}" using t1(2) by (auto simp: good_def split: if_splits)
    show ?thesis
    proof (cases "case ?err of None \<Rightarrow> False | Some e \<Rightarrow> isContextError e")
      case True
      then have "\<not> noContextErrors outcomes" using runSingleTask_no_context by (auto split: option.splits)
      then show ?thesis using unfold True ran1 t1 err by auto
    next
      case False
      then show ?thesis using unfold ran' ok err t1' fin by auto
    qed
  qed
qed simp

section \<open>Properties of the main loop\<close>

text \<open>
  C1. On a build whose dependencies exist, and with agents that report for their own task, the main
  loop ends after at most one run per task: no task is run twice, only tasks that were new are run,
  and each task is run after all the tasks it requires that had to be run.
\<close>

theorem Run_order:
  assumes "wf_build b" and "closed_build b" and "\<forall>t. ownCalls (btID t) (outcomes t)"
  shows "\<exists>r b' trace. Run h outcomes b = Some (Inr (r, b', trace)) \<and> distinct trace \<and>
    set trace \<subseteq> freshTasks b \<and>
    (\<forall>k < length trace. \<forall>t. GetTask b (trace ! k) = Some t \<longrightarrow>
        (\<forall>i \<in> set (btRequired t). i \<in> freshTasks b \<longrightarrow> i \<in> set (take k trace)))"
proof -
  have "card (freshTasks b) < Suc (length b)" using card_freshTasks [of b] by simp
  then obtain r b' trace where "Run h outcomes b = Some (Inr (r, b', trace))" "ranOK b b' trace"
    using runLoop_correct [OF assms(1,2), of outcomes "Suc (length b)" h None] assms(3) unfolding Run_def by blast
  then show ?thesis by (auto simp: ranOK_def orderly_def)
qed

abbreviation exampleHost :: host where
  "exampleHost \<equiv> \<lparr>hostOS = ''linux'', hostArch = ''amd64'', hostBinfmt = (\<lambda>_. False),
     hostWindowsContainers = False, hostQemu = True\<rparr>"

abbreviation exampleOutcome :: "btask \<Rightarrow> outcome" where
  "exampleOutcome \<equiv> (\<lambda>t. \<lparr>ocStart = None, ocSecret = ''s'', ocCalls = [(Some [(''org.cirruslabs.task-id'', [FormatInt (btID t)]),
       (''org.cirruslabs.client-secret'', [''s''])], [(''main'', COMPLETED)])],
     ocRun = None, ocCtx = CtxNotDone, ocClose = None\<rparr>)"

abbreviation exampleFailure :: "btask \<Rightarrow> outcome" where
  "exampleFailure \<equiv> (\<lambda>t. \<lparr>ocStart = None, ocSecret = ''s'', ocCalls = [],
     ocRun = None, ocCtx = CtxNotDone, ocClose = None\<rparr>)"

abbreviation exampleBuild :: build where
  "exampleBuild \<equiv> [(2, exampleTask 2 []), (0, exampleTask 0 [1]), (1, exampleTask 1 [])]"

theorem Run_order_witness:
  "\<exists>r b' trace. Run exampleHost exampleFailure exampleBuild = Some (Inr (r, b', trace)) \<and> distinct trace"
proof -
  have "wf_build exampleBuild" "closed_build exampleBuild" by (auto simp: wf_build_def closed_build_def)
  moreover have "\<forall>t. ownCalls (btID t) (exampleFailure t)" by (simp add: ownCalls_def)
  ultimately show ?thesis using Run_order [of exampleBuild exampleFailure exampleHost] by blast
qed

text \<open>
  If moreover the dependencies have no cycle and no run ends in the cancellation of the context,
  then when the loop is over every task has a final status and has been run if it was new; and the
  loop returns no error exactly when every task that was run has succeeded or was skipped.
\<close>

lemma Run_verdict:
  assumes "wf_build b" and "closed_build b" and "\<forall>t. ownCalls (btID t) (outcomes t)"
    and "ranked rank b" and "noContextErrors outcomes"
  shows "\<exists>r b' trace. Run h outcomes b = Some (Inr (r, b', trace)) \<and> set trace = freshTasks b \<and>
    (\<forall>i t. GetTask b' i = Some t \<longrightarrow> Status t \<noteq> New) \<and>
    (r = None \<longleftrightarrow> (\<forall>i \<in> freshTasks b. \<forall>t. GetTask b' i = Some t \<longrightarrow> Status t = Succeeded \<or> Status t = Skipped))"
proof -
  have "card (freshTasks b) < Suc (length b)" using card_freshTasks [of b] by simp
  then obtain r b' trace where run: "Run h outcomes b = Some (Inr (r, b', trace))" and ran: "ranOK b b' trace"
    and ok: "r = None \<longleftrightarrow> (\<forall>i \<in> set trace. \<forall>t. GetTask b' i = Some t \<longrightarrow> Status t \<in> {Succeeded, Skipped})"
    and stop: "GetNextTask b' = Inr None"
    using runLoop_correct [OF assms(1,2), of outcomes "Suc (length b)" h None] assms(3,5) unfolding Run_def by blast
  have wf: "wf_build b'" "closed_build b'" "ranked rank b'" using ran assms(4) by (auto simp: ranOK_def)
  have "least_ready b' (snd ` set b') None" using GetNextTask_least [OF wf(2)] stop by auto
  then have final: "Status t \<noteq> New" if "GetTask b' i = Some t" for i t
    using ready_exists [OF wf(1,3)] that wf(1) by (auto simp: least_ready_def GetTask_iff)
  then have "freshTasks b' = {}" by (auto simp: freshTasks_def)
  then have "set trace = freshTasks b" using ran by (auto simp: ranOK_def)
  then show ?thesis using run ok final by auto
qed

text \<open>A task that timed out ends up failed: the loop overwrites the status when the run returns its error.\<close>

lemma timed_out_recorded_as_failed:
  "map_option (map_sum id (\<lambda>(r, b, trace). map_option Status (GetTask b 0)))
      (Run exampleHost (\<lambda>t. (exampleFailure t)\<lparr>ocRun := Some (OtherErr ''x''), ocCtx := CtxDeadline\<rparr>) [(0, exampleTask 0 [])])
    = Some (Inr (Some Failed))"
  by code_simp

end
