(* ===== verification/Images.thy ===== *)
theory Images
  imports Executor ServiceTasks
begin

text \<open>
  Package \<open>internal/executor\<close> (executor.go), the construction of an executor: the environments of the
  tasks, the images of Dockerfile tasks under a user-provided template, and the tags under which an
  image is pushed in the GitHub Actions mode. Task names are ASCII strings, so that a byte is a rune.
\<close>

section \<open>Definitions\<close>

definition enrichEnvironment :: "env \<Rightarrow> env \<Rightarrow> nat \<Rightarrow> ptask \<Rightarrow> ptask" where
  "enrichEnvironment baseEnvironment userSpecified nodeTotal t =
     t\<lparr>ptEnvironment := Merge [baseEnvironment, NodeInfo (ptID t) (int nodeTotal),
        TaskInfo (ptName t) (FormatInt (ptID t)), ptEnvironment t, userSpecified]\<rparr>"

record containerOptions =
  coTemplate :: string
  coGitHubActionsMode :: bool
  coImageOwner :: string
  coImageRepo :: string
  coRegistry :: string
  coNoPullImages :: "string list"

text \<open>\<open>strings.Replace(s, old, new, 1)\<close> for a non-empty \<open>old\<close>.\<close>

fun ReplaceFirst :: "string \<Rightarrow> string \<Rightarrow> string \<Rightarrow> string" where
  "ReplaceFirst [] old new = []"
| "ReplaceFirst (c # cs) old new =
     (if HasPrefix (c # cs) old then new @ drop (length old) (c # cs) else c # ReplaceFirst cs old new)"

text \<open>The group of \<open>(.*):latest$\<close>: the rest of the string without the suffix, on one line.\<close>

definition latestGroup :: "string \<Rightarrow> string option" where
  "latestGroup s =
     (if HasSuffix s '':latest'' \<and> CHR 0x0A \<notin> set (TrimSuffix s '':latest'')
      then Some (TrimSuffix s '':latest'') else None)"

text \<open>The submatches: the hash, and the owner and the hash.\<close>

definition matchGCR :: "string \<Rightarrow> string option" where
  "matchGCR reference =
     (if HasPrefix reference ''gcr.io/cirrus-ci-community/''
      then latestGroup (TrimPrefix reference ''gcr.io/cirrus-ci-community/'') else None)"

definition matchGHCR :: "string \<Rightarrow> (string \<times> string) option" where
  "matchGHCR reference =
     (if \<not> HasPrefix reference ''ghcr.io/'' then None
      else case SplitC2 (CHR ''/'') (TrimPrefix reference ''ghcr.io/'') of
          [owner, rest] \<Rightarrow>
            (case SplitC2 (CHR ''/'') rest of
               [rep, img] \<Rightarrow>
                 if owner = [] \<or> rep = [] then None
                 else (case latestGroup img of None \<Rightarrow> None | Some h \<Rightarrow> Some (owner, h))
             | _ \<Rightarrow> None)
        | _ \<Rightarrow> None)"

definition transformDockerfileImageIfNeeded ::
  "containerOptions \<Rightarrow> string \<Rightarrow> bool \<Rightarrow> bool \<Rightarrow> string res" where
  "transformDockerfileImageIfNeeded opts reference strict githubActionsMode =
     (if coTemplate opts = [] then Inr reference
      else case (if githubActionsMode then map_option (\<lambda>(owner, h). [owner, h]) (matchGHCR reference)
                 else map_option (\<lambda>h. [h]) (matchGCR reference)) of
          None \<Rightarrow>
            if strict then Inl (Plain ''build failed: unknown prebuilt image format: %s'' [reference])
            else Inr reference
        | Some groups \<Rightarrow>
            Inr (if githubActionsMode \<and> coImageOwner opts \<noteq> []
                 then ReplaceFirst (ReplaceFirst (coTemplate opts) ''%s'' (coImageOwner opts)) ''%s'' (groups ! 1)
                 else ReplaceAll (coTemplate opts) ''%s'' (groups ! 0)))"

definition sanitizeChar :: "char \<Rightarrow> char" where
  "sanitizeChar r =
     (if isLower r \<or> isUpper r \<or> isDigit r \<or> r = CHR ''-'' \<or> r = CHR ''_'' \<or> r = CHR ''.'' then r else CHR ''-'')"

definition sanitizeImageTagName :: "string \<Rightarrow> string" where
  "sanitizeImageTagName name =
     (let cut = (\<lambda>c. c \<in> set ''-_.'');
          result = TrimRight cut (TrimLeft cut (ToLower (map sanitizeChar name)))
      in if result = [] then ''task'' else take 128 result)"

definition extractImageHash :: "string \<Rightarrow> string" where
  "extractImageHash img =
     (case SplitC2 (CHR ''/'') (TrimSuffix img '':latest'') of
        [_, rest] \<Rightarrow> (case SplitC2 (CHR ''/'') rest of [_, h] \<Rightarrow> h | _ \<Rightarrow> [])
      | _ \<Rightarrow> [])"

text \<open>The tags of one dependent task, and the deduplicated tags of all of them in the order of the tasks.\<close>

definition dependentTags :: "containerOptions \<Rightarrow> string \<Rightarrow> btask \<Rightarrow> string list" where
  "dependentTags opts img t =
     (let sanitized = sanitizeImageTagName (btName t);
          repo = coRegistry opts @ ''/'' @ coImageOwner opts @ ''/'' @ coImageRepo opts @ ''/''
      in [repo @ extractImageHash img @ ''-'' @ sanitized @ '':latest'', repo @ sanitized @ '':latest''])"

definition appendNew :: "string list \<Rightarrow> string list \<Rightarrow> string list" where
  "appendNew extras tags = fold (\<lambda>tag acc. if tag \<in> set acc then acc else acc @ [tag]) tags extras"

definition buildExtraTags :: "containerOptions \<Rightarrow> btask \<Rightarrow> string \<Rightarrow> btask list \<Rightarrow> string list" where
  "buildExtraTags opts prebuilt img allTasks =
     fold (\<lambda>t extras. fold (\<lambda>r extras. if r \<noteq> btID prebuilt then extras else appendNew extras (dependentTags opts img t))
         (btRequired t) extras)
       allTasks []"

text \<open>
  The loop of \<open>New\<close> over the tasks of the build. \<open>freeBSD\<close> says whether the environment of a task
  names a FreeBSD image, \<open>workingDir\<close> is the working directory that its instance chooses.
\<close>

definition ConfigFromEnvironment :: "env \<Rightarrow> bool" where
  "ConfigFromEnvironment env =
     (mget env ''CIRRUS_FREEBSD_IMAGE_FAMILY'' \<noteq> [] \<or> mget env ''CIRRUS_FREEBSD_IMAGE_NAME'' \<noteq> [])"

definition transformInstance :: "containerOptions \<Rightarrow> btask \<Rightarrow> btask list \<Rightarrow> binst res" where
  "transformInstance opts t allTasks =
     (case btInstance t of
        PrebuiltI img tags \<Rightarrow>
          (case transformDockerfileImageIfNeeded opts img True (coGitHubActionsMode opts) of
             Inl e \<Rightarrow> Inl e
           | Inr img' \<Rightarrow>
               Inr (PrebuiltI img' (if coGitHubActionsMode opts then buildExtraTags opts t img' allTasks else tags)))
      | ContainerI a p img \<Rightarrow>
          (case transformDockerfileImageIfNeeded opts img False (coGitHubActionsMode opts) of
             Inl e \<Rightarrow> Inl e | Inr img' \<Rightarrow> Inr (ContainerI a p img'))
      | UnsupportedI m \<Rightarrow> Inr (if ConfigFromEnvironment (btEnvironment t) then FreeBSDI else UnsupportedI m)
      | i \<Rightarrow> Inr i)"

definition prepareTask ::
  "containerOptions \<Rightarrow> (binst \<Rightarrow> string) \<Rightarrow> btask list \<Rightarrow> btask \<Rightarrow> btask res" where
  "prepareTask opts workingDir allTasks t =
     (case transformInstance opts t allTasks of
        Inl e \<Rightarrow> Inl e
      | Inr i \<Rightarrow>
          Inr (t\<lparr>btInstance := i,
            btEnvironment := Merge [[(''CIRRUS_WORKING_DIR'', workingDir i)], btEnvironment t]\<rparr>))"

definition noPullImage :: "btask \<Rightarrow> string list" where
  "noPullImage t = (case btInstance t of PrebuiltI img _ \<Rightarrow> [img] | _ \<Rightarrow> [])"

section \<open>Templates\<close>

lemma ReplaceFirst_inject:
  assumes "Contains t old" and "old \<noteq> []" and "ReplaceFirst t old x = ReplaceFirst t old y"
  shows "x = y"
  using assms
proof (induction t)
  case (Cons c cs)
  show ?case
  proof (cases "HasPrefix (c # cs) old")
    case True
    then show ?thesis using Cons.prems(3) by simp
  next
    case False
    obtain a b where ab: "c # cs = a @ old @ b" using Cons.prems(1) by (auto simp: Contains_iff)
    have "a \<noteq> []" using False ab by (metis HasPrefix_append append_Nil)
    then have "Contains cs old" using ab by (auto simp: Contains_iff Cons_eq_append_conv)
    then show ?thesis using Cons False by simp
  qed
qed (auto simp: Contains_iff)

lemma ReplaceAll_Cons:
  "old \<noteq> [] \<Longrightarrow> ReplaceAll (c # cs) old new =
     (if HasPrefix (c # cs) old then new @ ReplaceAll (drop (length old) (c # cs)) old new
      else c # ReplaceAll cs old new)"
  by (subst ReplaceAll.simps) simp

lemma ReplaceAll_inject:
  assumes "Contains t old" and "old \<noteq> []" and "length x = length y" and "ReplaceAll t old x = ReplaceAll t old y"
  shows "x = y"
  using assms
proof (induction t)
  case (Cons c cs)
  show ?case
  proof (cases "HasPrefix (c # cs) old")
    case True
    then show ?thesis using Cons.prems(2-4) by (simp add: ReplaceAll_Cons)
  next
    case False
    obtain a b where ab: "c # cs = a @ old @ b" using Cons.prems(1) by (auto simp: Contains_iff)
    have "a \<noteq> []" using False ab by (metis HasPrefix_append append_Nil)
    then have "Contains cs old" using ab by (auto simp: Contains_iff Cons_eq_append_conv)
    then show ?thesis using Cons False by (simp add: ReplaceAll_Cons)
  qed
qed (auto simp: Contains_iff)

lemma latestGroup_hash: "CHR 0x0A \<notin> set h \<Longrightarrow> latestGroup (h @ '':latest'') = Some h"
  by (simp add: latestGroup_def)

lemma matchGCR_service:
  assumes "CHR 0x0A \<notin> set h"
  shows "matchGCR (''gcr.io/cirrus-ci-community/'' @ h @ '':latest'') = Some h"
  unfolding matchGCR_def using latestGroup_hash [OF assms] by (simp only: HasPrefix_append TrimPrefix_append if_True)

lemma matchGHCR_service:
  assumes "CHR 0x0A \<notin> set h" and "CHR ''/'' \<notin> set o'" and "CHR ''/'' \<notin> set r" and "o' \<noteq> []" and "r \<noteq> []"
  shows "matchGHCR (''ghcr.io/'' @ o' @ ''/'' @ r @ ''/'' @ h @ '':latest'') = Some (o', h)"
proof -
  have "SplitC2 (CHR ''/'') (o' @ ''/'' @ r @ ''/'' @ h @ '':latest'') = [o', r @ ''/'' @ h @ '':latest'']"
    using SplitC2_append_sep [OF assms(2)] by simp
  moreover have "SplitC2 (CHR ''/'') (r @ ''/'' @ h @ '':latest'') = [r, h @ '':latest'']"
    using SplitC2_append_sep [OF assms(3)] by simp
  ultimately show ?thesis
    unfolding matchGHCR_def using latestGroup_hash [OF assms(1)] assms(4,5)
    by (simp only: HasPrefix_append TrimPrefix_append if_True if_False not_True_eq_False list.case option.case prod.case
        de_Morgan_disj not_False_eq_True simp_thms)
qed

text \<open>What the image of a service task is in each of the two modes.\<close>

definition imageMode :: "bool \<Rightarrow> serviceConfig \<Rightarrow> bool" where
  "imageMode gha cfg =
     (if gha then dockerfileRegistry cfg = ''ghcr.io'' \<and>
        (\<exists>ow r. dockerfileRepository cfg = ow @ ''/'' @ r \<and> ow \<noteq> [] \<and> r \<noteq> [] \<and>
           CHR ''/'' \<notin> set ow \<and> CHR ''/'' \<notin> set r)
      else dockerfileRegistry cfg = ''gcr.io'' \<and> dockerfileRepository cfg = ''cirrus-ci-community'')"

text \<open>A template with a place for the hash, and in the GitHub Actions mode one for the owner before it.\<close>

definition usableTemplate :: "bool \<Rightarrow> containerOptions \<Rightarrow> bool" where
  "usableTemplate gha opts =
     (if gha then coImageOwner opts \<noteq> [] \<and> Contains (ReplaceFirst (coTemplate opts) ''%s'' (coImageOwner opts)) ''%s''
      else Contains (coTemplate opts) ''%s'')"

definition renderTemplate :: "bool \<Rightarrow> containerOptions \<Rightarrow> string \<Rightarrow> string" where
  "renderTemplate gha opts h =
     (if gha then ReplaceFirst (ReplaceFirst (coTemplate opts) ''%s'' (coImageOwner opts)) ''%s'' h
      else ReplaceAll (coTemplate opts) ''%s'' h)"

lemma transform_service:
  assumes "imageMode gha cfg" and "usableTemplate gha opts" and "CHR 0x0A \<notin> set h"
  shows "transformDockerfileImageIfNeeded opts (serviceImage cfg h) strict gha = Inr (renderTemplate gha opts h)"
proof -
  have t: "coTemplate opts \<noteq> []"
    using assms(2) by (auto simp: usableTemplate_def Contains_iff split: if_splits)
  show ?thesis
  proof (cases gha)
    case True
    then obtain ow r where r: "dockerfileRepository cfg = ow @ ''/'' @ r" "ow \<noteq> []" "r \<noteq> []"
        "CHR ''/'' \<notin> set ow" "CHR ''/'' \<notin> set r" "dockerfileRegistry cfg = ''ghcr.io''"
      using assms(1) by (auto simp: imageMode_def)
    have "serviceImage cfg h = ''ghcr.io/'' @ ow @ ''/'' @ r @ ''/'' @ h @ '':latest''"
      by (simp add: serviceImage_def r)
    then have "matchGHCR (serviceImage cfg h) = Some (ow, h)" using matchGHCR_service [OF assms(3) r(4,5,2,3)] by simp
    then show ?thesis
      using t True assms(2) by (simp add: transformDockerfileImageIfNeeded_def renderTemplate_def usableTemplate_def)
  next
    case False
    have "serviceImage cfg h = ''gcr.io/cirrus-ci-community/'' @ h @ '':latest''"
      using assms(1) False by (simp add: serviceImage_def imageMode_def)
    then have "matchGCR (serviceImage cfg h) = Some h" using matchGCR_service [OF assms(3)] by simp
    then show ?thesis
      using t False by (simp add: transformDockerfileImageIfNeeded_def renderTemplate_def)
  qed
qed

text \<open>
  With a template that has a place for the hash, a service task and the tasks that use its image
  agree on the name of the image after the transformation (the strict and the lenient one), and the
  images of different Dockerfile hashes have different names.
\<close>

theorem transformed_images_agree:
  assumes "imageMode gha cfg" and "usableTemplate gha opts" and "CHR 0x0A \<notin> set h" and "CHR 0x0A \<notin> set h'"
    and "length h = length h'"
  shows "\<exists>img. transformDockerfileImageIfNeeded opts (serviceImage cfg h) True gha = Inr img \<and>
    transformDockerfileImageIfNeeded opts (serviceImage cfg h) False gha = Inr img \<and>
    (transformDockerfileImageIfNeeded opts (serviceImage cfg h') True gha = Inr img \<longleftrightarrow> h = h')"
proof -
  have "h = h'" if "renderTemplate gha opts h' = renderTemplate gha opts h"
    using that assms(2,5) ReplaceFirst_inject [of "ReplaceFirst (coTemplate opts) ''%s'' (coImageOwner opts)" "''%s''" h' h]
      ReplaceAll_inject [of "coTemplate opts" "''%s''" h' h]
    by (auto simp: renderTemplate_def usableTemplate_def split: if_splits)
  then show ?thesis using transform_service [OF assms(1,2)] assms(3,4) by auto
qed

abbreviation exampleOptions :: containerOptions where
  "exampleOptions \<equiv> \<lparr>coTemplate = ''r/%s:1'', coGitHubActionsMode = False, coImageOwner = [], coImageRepo = [],
     coRegistry = ''ghcr.io'', coNoPullImages = []\<rparr>"

theorem transformed_images_agree_witness:
  "transformDockerfileImageIfNeeded exampleOptions (serviceImage (serviceConfigOf False False [] []) ''ab'') True False
     \<noteq> transformDockerfileImageIfNeeded exampleOptions (serviceImage (serviceConfigOf False False [] []) ''cd'') True False"
proof -
  have "imageMode False (serviceConfigOf False False [] [])" by (simp add: imageMode_def serviceConfigOf_def)
  moreover have "usableTemplate False exampleOptions" by code_simp
  ultimately show ?thesis
    using transformed_images_agree [of False "serviceConfigOf False False [] []" exampleOptions "''ab''" "''cd''"] by auto
qed

text \<open>
  In the GitHub Actions mode without an owner, the template is filled with the owner of the original
  image in place of the hash: the images of all Dockerfiles get the same name.
\<close>

lemma images_collide_without_owner:
  "transformDockerfileImageIfNeeded (exampleOptions\<lparr>coGitHubActionsMode := True\<rparr>) ''ghcr.io/o/r/aa:latest'' True True
     = transformDockerfileImageIfNeeded (exampleOptions\<lparr>coGitHubActionsMode := True\<rparr>) ''ghcr.io/o/r/bb:latest'' True True"
  by code_simp

end
