(* ===== verification/Agent.thy ===== *)
theory Agent
  imports Build
begin

text \<open>
  Package \<open>internal/agent/executor\<close> (executor.go, updatebatcher): the command loop of the agent, the
  batches in which it reports to the service, and the bounds that a pipe stage puts on the commands.
  The result of a step and the expiry of the timeout are arguments; a step without a result is one
  after which the agent returns at once.
\<close>

section \<open>The update batcher\<close>

type_synonym update = "string \<times> updateStatus"

record batcher =
  updateHistory :: "update list"
  unflushedUpdates :: "update list"

definition newBatcher :: batcher where
  "newBatcher = \<lparr>updateHistory = [], unflushedUpdates = []\<rparr>"

definition Queue :: "update \<Rightarrow> batcher \<Rightarrow> batcher" where
  "Queue u ub = ub\<lparr>updateHistory := updateHistory ub @ [u], unflushedUpdates := unflushedUpdates ub @ [u]\<rparr>"

text \<open>\<open>send\<close> is the client: it says whether the request succeeded, and changes the state of the service.\<close>

definition Flush :: "(update list \<Rightarrow> 's \<Rightarrow> bool \<times> 's) \<Rightarrow> batcher \<Rightarrow> 's \<Rightarrow> batcher \<times> 's" where
  "Flush send ub s =
     (if unflushedUpdates ub = [] then (ub, s)
      else let (ok, s') = send (unflushedUpdates ub) s
           in (if ok then ub\<lparr>unflushedUpdates := []\<rparr> else ub, s'))"

section \<open>The command loop\<close>

definition agentShouldRun :: "bool \<Rightarrow> bool \<Rightarrow> behavior \<Rightarrow> bool" where
  "agentShouldRun failed timedOut b =
     (b = ON_SUCCESS \<and> \<not> failed \<or> b = ON_FAILURE \<and> failed \<or> b = ALWAYS \<or> b = ON_TIMEOUT \<and> timedOut)"

fun agentLoop ::
  "(update list \<Rightarrow> 's \<Rightarrow> bool \<times> 's) \<Rightarrow> (command \<Rightarrow> bool) \<Rightarrow> (command \<Rightarrow> bool option) \<Rightarrow> bool \<Rightarrow> command list \<Rightarrow>
   batcher \<Rightarrow> 's \<Rightarrow> bool \<times> batcher \<times> 's" where
  "agentLoop send timedOut performStep failed [] ub s = (True, Flush send ub s)"
| "agentLoop send timedOut performStep failed (c # cs) ub s =
     (if \<not> agentShouldRun failed (timedOut c) (cmdBehavior c)
      then agentLoop send timedOut performStep failed cs (Queue (cmdName c, UpdateSkipped) ub) s
      else (let (ub1, s1) = Flush send (Queue (cmdName c, EXECUTING) ub) s
            in case performStep c of
                 None \<Rightarrow> (False, ub1, s1)
               | Some success \<Rightarrow>
                   agentLoop send timedOut performStep (failed \<or> \<not> success) cs
                     (Queue (cmdName c, if success then COMPLETED else FAILED) ub1) s1))"

section \<open>Bounded commands\<close>

fun lastMatch :: "('a \<Rightarrow> bool) \<Rightarrow> nat \<Rightarrow> 'a list \<Rightarrow> nat \<Rightarrow> nat" where
  "lastMatch P i [] found = found"
| "lastMatch P i (x # xs) found = lastMatch P (i + 1) xs (if P x then i else found)"

text \<open>The slice expression at the end panics when the bounds are out of order.\<close>

definition BoundedCommands :: "command list \<Rightarrow> string \<Rightarrow> string \<Rightarrow> command list res" where
  "BoundedCommands commands fromName toName =
     (let left = lastMatch (\<lambda>c. fromName \<noteq> [] \<and> cmdName c = fromName) 0 commands 0;
          right = lastMatch (\<lambda>c. toName \<noteq> [] \<and> cmdName c = toName) 0 commands (length commands)
      in if left \<le> right then Inr (drop left (take right commands))
         else Inl (Panic ''slice bounds out of range''))"

section \<open>What the agent reports\<close>

text \<open>The updates of a loop, and whether it got to its end.\<close>

fun agentHistory ::
  "(command \<Rightarrow> bool) \<Rightarrow> (command \<Rightarrow> bool option) \<Rightarrow> bool \<Rightarrow> command list \<Rightarrow> bool \<times> update list" where
  "agentHistory timedOut performStep failed [] = (True, [])"
| "agentHistory timedOut performStep failed (c # cs) =
     (if \<not> agentShouldRun failed (timedOut c) (cmdBehavior c)
      then map_prod id (Cons (cmdName c, UpdateSkipped)) (agentHistory timedOut performStep failed cs)
      else case performStep c of
          None \<Rightarrow> (False, [(cmdName c, EXECUTING)])
        | Some success \<Rightarrow>
            map_prod id (\<lambda>us. (cmdName c, EXECUTING) # (cmdName c, if success then COMPLETED else FAILED) # us)
              (agentHistory timedOut performStep (failed \<or> \<not> success) cs))"

text \<open>The service as the agent sees it over a network that may lose requests.\<close>

definition lossySend :: "update list \<Rightarrow> btask \<times> bool list \<Rightarrow> bool \<times> (btask \<times> bool list)" where
  "lossySend us s =
     (case s of
        (t, False # lost) \<Rightarrow> (False, (t, lost))
      | (t, lost) \<Rightarrow> (let (e, t') = applyUpdates us t in (e = None, (t', tl lost))))"

lemma applyUpdates_append:
  "applyUpdates (us @ vs) t =
     (case applyUpdates us t of (None, t') \<Rightarrow> applyUpdates vs t' | (Some e, t') \<Rightarrow> (Some e, t'))"
  by (induction us t rule: applyUpdates.induct) (auto split: option.splits)

text \<open>
  The invariant of a run: the service in its present state and the updates that are still pending
  give the same task as the whole history would have given.
\<close>

definition inSync :: "btask \<Rightarrow> batcher \<Rightarrow> btask \<times> bool list \<Rightarrow> bool" where
  "inSync t0 ub s =
     (applyUpdates (unflushedUpdates ub) (fst s) = applyUpdates (updateHistory ub) t0 \<and>
      fst (applyUpdates (updateHistory ub) t0) = None)"

lemma GetCommand_dom: "(\<exists>c. GetCommand name t = Some c) \<longleftrightarrow> name \<in> cmdName ` set (map bcProto (btCommands t))"
proof -
  have "(\<exists>c. find (\<lambda>c. cmdName (bcProto c) = name) xs = Some c) \<longleftrightarrow> name \<in> cmdName ` set (map bcProto xs)" for xs
    by (induction xs) auto
  then show ?thesis unfolding GetCommand_def .
qed

lemma inSyncD:
  assumes "inSync t0 ub s"
  obtains t1 where "applyUpdates (updateHistory ub) t0 = (None, t1)"
    and "applyUpdates (unflushedUpdates ub) (fst s) = (None, t1)"
proof -
  obtain e t1 where r: "applyUpdates (updateHistory ub) t0 = (e, t1)" by (cases "applyUpdates (updateHistory ub) t0")
  then have "e = None" using assms by (simp add: inSync_def)
  then show thesis using that r assms by (simp add: inSync_def)
qed

lemma inSync_Queue:
  assumes "inSync t0 ub s" and "fst u \<in> cmdName ` set (map bcProto (btCommands t0))"
  shows "inSync t0 (Queue u ub) s"
proof -
  obtain t1 where t1: "applyUpdates (updateHistory ub) t0 = (None, t1)" "applyUpdates (unflushedUpdates ub) (fst s) = (None, t1)"
    using inSyncD [OF assms(1)] .
  have "map bcProto (btCommands t1) = map bcProto (btCommands t0)" using applyUpdates_keeps [of "updateHistory ub" t0] t1 by simp
  then obtain c where "GetCommand (fst u) t1 = Some c" using assms(2) GetCommand_dom by metis
  then have "fst (applyUpdates [u] t1) = None" by (cases u) simp
  then show ?thesis using t1 by (simp add: inSync_def Queue_def applyUpdates_append)
qed

lemma inSync_Flush:
  assumes "inSync t0 ub s" and "Flush lossySend ub s = (ub', s')"
  shows "inSync t0 ub' s' \<and> updateHistory ub' = updateHistory ub"
proof -
  obtain t1 where t1: "applyUpdates (updateHistory ub) t0 = (None, t1)" "applyUpdates (unflushedUpdates ub) (fst s) = (None, t1)"
    using inSyncD [OF assms(1)] .
  show ?thesis
    using assms t1
    by (cases s) (auto simp: inSync_def Flush_def lossySend_def split: if_splits prod.splits list.splits bool.splits)
qed

lemma agentLoop_inSync:
  assumes "inSync t0 ub s" and "cmdName ` set cs \<subseteq> cmdName ` set (map bcProto (btCommands t0))"
    and "agentLoop lossySend timedOut performStep failed cs ub s = (finished, ub', s')"
  shows "inSync t0 ub' s' \<and> finished = fst (agentHistory timedOut performStep failed cs) \<and>
    updateHistory ub' = updateHistory ub @ snd (agentHistory timedOut performStep failed cs)"
  using assms
proof (induction cs arbitrary: failed ub s)
  case Nil
  then show ?case by (auto dest: inSync_Flush)
next
  case (Cons c cs)
  have sub: "cmdName ` set cs \<subseteq> cmdName ` set (map bcProto (btCommands t0))" using Cons.prems(2) by auto
  have q: "inSync t0 (Queue (cmdName c, u) ub1) s1" if "inSync t0 ub1 s1" for u ub1 s1
    using that Cons.prems(2) by (intro inSync_Queue) auto
  show ?case
  proof (cases "agentShouldRun failed (timedOut c) (cmdBehavior c)")
    case False
    then have "agentLoop lossySend timedOut performStep failed cs (Queue (cmdName c, UpdateSkipped) ub) s = (finished, ub', s')"
      using Cons.prems(3) by simp
    then show ?thesis
      using Cons.IH [OF q [OF Cons.prems(1)] sub] False by (simp add: Queue_def)
  next
    case True
    obtain ub1 s1 where f: "Flush lossySend (Queue (cmdName c, EXECUTING) ub) s = (ub1, s1)"
      by (cases "Flush lossySend (Queue (cmdName c, EXECUTING) ub) s")
    then have s1: "inSync t0 ub1 s1" "updateHistory ub1 = updateHistory ub @ [(cmdName c, EXECUTING)]"
      using inSync_Flush [OF q [OF Cons.prems(1)] f] by (auto simp: Queue_def)
    show ?thesis
    proof (cases "performStep c")
      case None
      then show ?thesis using Cons.prems(3) True f s1 by auto
    next
      case (Some success)
      then have "agentLoop lossySend timedOut performStep (failed \<or> \<not> success) cs
          (Queue (cmdName c, if success then COMPLETED else FAILED) ub1) s1 = (finished, ub', s')"
        using Cons.prems(3) True f by simp
      then show ?thesis
        using Cons.IH [OF q [OF s1(1)] sub] True Some s1(2) by (simp add: Queue_def)
    qed
  qed
qed

section \<open>The status that the reports add up to\<close>

lemma statusOf_append: "statusOf n (us @ vs) s = statusOf n vs (statusOf n us s)"
  by (simp add: statusOf_def)

lemma statusOf_Cons: "statusOf n (u # us) s = statusOf n us (if fst u = n then updatedStatus (snd u) s else s)"
  by (simp add: statusOf_def case_prod_unfold)

lemma statusOf_notin: "n \<notin> fst ` set us \<Longrightarrow> statusOf n us s = s"
proof (induction us arbitrary: s)
  case Nil
  then show ?case by (simp add: statusOf_def)
qed (auto simp: statusOf_Cons)

lemma agentHistory_names: "fst ` set (snd (agentHistory timedOut performStep failed cs)) \<subseteq> cmdName ` set cs"
proof (induction cs arbitrary: failed)
  case (Cons c cs)
  have "fst ` set (snd (agentHistory timedOut performStep f cs)) \<subseteq> insert (cmdName c) (cmdName ` set cs)" for f
    using Cons.IH by blast
  then show ?case by (simp split: option.split)
qed simp

lemma agentHistory_status:
  assumes "distinct (map cmdName cs)" and "fst (agentHistory timedOut performStep failed cs)" and "c \<in> set cs"
  shows "statusOf (cmdName c) (snd (agentHistory timedOut performStep failed cs)) Undefined =
    (if (cmdName c, FAILED) \<in> set (snd (agentHistory timedOut performStep failed cs)) then Failure else Success)"
  using assms
proof (induction cs arbitrary: failed)
  case (Cons d ds)
  have notin: "cmdName d \<notin> fst ` set (snd (agentHistory timedOut performStep f ds))" for f
    using Cons.prems(1) agentHistory_names [of timedOut performStep f ds] by auto
  then have notin': "(cmdName d, u) \<notin> set (snd (agentHistory timedOut performStep f ds))" for f u by force
  have other: "cmdName c \<noteq> cmdName d" if "c \<in> set ds" using that Cons.prems(1) by (auto simp: image_iff)
  show ?case
  proof (cases "c = d")
    case True
    then show ?thesis
      using Cons.prems(2) notin notin'
      by (auto simp: map_prod_def case_prod_unfold statusOf_Cons statusOf_notin updatedStatus_def split: option.splits if_splits)
  next
    case False
    then have "c \<in> set ds" using Cons.prems(3) by simp
    then show ?thesis
      using Cons other by (auto simp: map_prod_def case_prod_unfold statusOf_Cons split: option.splits if_splits)
  qed
qed simp

section \<open>The stages of a pipe\<close>

lemma lastMatch_notin: "(\<And>x. x \<in> set xs \<Longrightarrow> \<not> P x) \<Longrightarrow> lastMatch P i xs d = d"
  by (induction xs arbitrary: i) auto

lemma lastMatch_append: "lastMatch P i (xs @ ys) d = lastMatch P (i + length xs) ys (lastMatch P i xs d)"
  by (induction xs arbitrary: i d) (auto simp: add.commute add.left_commute)

lemma lastMatch_name:
  assumes "distinct (map cmdName (pre @ c # post))"
  shows "lastMatch (\<lambda>d. cmdName c \<noteq> [] \<and> cmdName d = cmdName c) 0 (pre @ c # post) e =
    (if cmdName c \<noteq> [] then length pre else e)"
proof -
  have "lastMatch (\<lambda>d. cmdName c \<noteq> [] \<and> cmdName d = cmdName c) 0 pre e = e"
    using assms by (intro lastMatch_notin) (auto simp: image_iff)
  moreover have "lastMatch (\<lambda>d. cmdName c \<noteq> [] \<and> cmdName d = cmdName c) i post f = f" for i f
    using assms by (intro lastMatch_notin) (auto simp: image_iff)
  ultimately show ?thesis by (simp add: lastMatch_append)
qed

fun stageChain :: "pipeStage \<Rightarrow> command list \<Rightarrow> pipeStage list" where
  "stageChain st [] = [st]"
| "stageChain st (c # cs) =
     (case map_of (cmdProperties c) ''image'' of
        None \<Rightarrow> stageChain st cs
      | Some img \<Rightarrow> st\<lparr>psTo := cmdName c\<rparr> # stageChain \<lparr>psImage = img, psFrom = cmdName c, psTo = []\<rparr> cs)"

lemma pipeStages_chain: "pipeStages (Suc i) cs (pre @ [st]) = Inr (pre @ stageChain st cs)"
proof (induction cs arbitrary: i pre st)
  case (Cons c cs)
  show ?case
  proof (cases "map_of (cmdProperties c) ''image''")
    case None
    then show ?thesis using Cons.IH by simp
  next
    case (Some img)
    have "pipeStages (Suc (Suc i)) cs ((pre @ [st\<lparr>psTo := cmdName c\<rparr>]) @ [\<lparr>psImage = img, psFrom = cmdName c, psTo = []\<rparr>])
        = Inr ((pre @ [st\<lparr>psTo := cmdName c\<rparr>]) @ stageChain \<lparr>psImage = img, psFrom = cmdName c, psTo = []\<rparr> cs)"
      by (rule Cons.IH)
    then show ?thesis using Some by (simp add: closeStage_def)
  qed
qed simp

abbreviation stageCommands :: "command list \<Rightarrow> pipeStage \<Rightarrow> command list res" where
  "stageCommands commands st \<equiv> BoundedCommands commands (psFrom st) (psTo st)"

lemma stageChain_partition:
  assumes "distinct (map cmdName (pre @ cs))" and "[] \<notin> cmdName ` set (pre @ cs)" and "psTo st = []"
    and "lastMatch (\<lambda>c. psFrom st \<noteq> [] \<and> cmdName c = psFrom st) 0 (pre @ cs) 0 = l" and "l \<le> length pre"
  shows "\<exists>parts. mapE (stageCommands (pre @ cs)) (stageChain st cs) = Inr parts \<and> concat parts = drop l (pre @ cs)"
  using assms
proof (induction cs arbitrary: pre st l)
  case Nil
  then have "stageCommands pre st = Inr (drop l pre)" by (simp add: BoundedCommands_def lastMatch_notin)
  then show ?case by simp
next
  case (Cons c cs)
  let ?xs = "pre @ c # cs"
  show ?case
  proof (cases "map_of (cmdProperties c) ''image''")
    case None
    have "\<exists>parts. mapE (stageCommands ((pre @ [c]) @ cs)) (stageChain st cs) = Inr parts \<and>
        concat parts = drop l ((pre @ [c]) @ cs)"
      using Cons.prems by (intro Cons.IH) auto
    then show ?thesis using None by simp
  next
    case (Some img)
    let ?st = "\<lparr>psImage = img, psFrom = cmdName c, psTo = []\<rparr>"
    have named: "cmdName c \<noteq> []" using Cons.prems(2) by auto
    have at: "lastMatch (\<lambda>d. cmdName c \<noteq> [] \<and> cmdName d = cmdName c) 0 ?xs e = length pre" for e
      using lastMatch_name [OF Cons.prems(1)] named by simp
    have "\<exists>parts. mapE (stageCommands ((pre @ [c]) @ cs)) (stageChain ?st cs) = Inr parts \<and>
        concat parts = drop (length pre) ((pre @ [c]) @ cs)"
      using Cons.prems at named by (intro Cons.IH) auto
    then obtain parts where parts: "mapE (stageCommands ?xs) (stageChain ?st cs) = Inr parts"
        "concat parts = drop (length pre) ?xs"
      by auto
    have "stageCommands ?xs (st\<lparr>psTo := cmdName c\<rparr>) = Inr (drop l (take (length pre) ?xs))"
      using Cons.prems(4,5) at by (simp add: BoundedCommands_def Let_def)
    then show ?thesis using parts Some Cons.prems(5) by (simp add: drop_take)
  qed
qed

section \<open>Properties\<close>



text \<open>
  C35. The stages of a pipe task whose first command is the clone instruction, run one after another
  with the bounds that the agent gets for each stage, execute every command that is left after the
  clone instruction was taken out, in order and exactly once.
\<close>

theorem pipe_stages_partition:
  assumes "commands = clone # cs" and "cmdName clone = ''clone''" and "mhas (cmdProperties clone) ''image''"
    and "distinct (map cmdName commands)" and "[] \<notin> cmdName ` set commands"
  shows "\<exists>stages parts. PipeStagesFromCommands commands = Inr stages \<and>
    mapE (stageCommands (interceptClone commands)) stages = Inr parts \<and> concat parts = interceptClone commands"
proof -
  obtain img where img: "map_of (cmdProperties clone) ''image'' = Some img"
    using assms(3) by (auto simp: mhas_def split: option.splits)
  let ?st = "\<lparr>psImage = img, psFrom = ''clone'', psTo = []\<rparr>"
  have "PipeStagesFromCommands commands = Inr (stageChain ?st cs)"
    using pipeStages_chain [of 0 cs "[]" ?st] img assms(1,2) by (simp add: PipeStagesFromCommands_def closeStage_def)
  moreover have "lastMatch (\<lambda>c. psFrom ?st \<noteq> [] \<and> cmdName c = psFrom ?st) 0 ([] @ cs) 0 = 0"
    using assms(1,2,4) by (intro lastMatch_notin) (auto simp: image_iff)
  moreover have "interceptClone commands = cs" using assms(1,2) by simp
  ultimately show ?thesis
    using stageChain_partition [of "[]" cs ?st 0] assms(1,4,5) by auto
qed

abbreviation examplePipe :: "command list" where
  "examplePipe \<equiv> [(mkCommand ''clone'' CloneInstruction)\<lparr>cmdProperties := [(''image'', ''a'')]\<rparr>,
     mkCommand ''x'' CloneInstruction, (mkCommand ''y'' CloneInstruction)\<lparr>cmdProperties := [(''image'', ''b'')]\<rparr>]"

theorem pipe_stages_partition_witness:
  "\<exists>stages parts. PipeStagesFromCommands examplePipe = Inr stages \<and>
     mapE (stageCommands (interceptClone examplePipe)) stages = Inr parts \<and> concat parts = interceptClone examplePipe"
  using pipe_stages_partition [of examplePipe "hd examplePipe" "tl examplePipe"]
  by (simp add: mkCommand_def mhas_def)

text \<open>Bounds out of order panic; the names of a pipe's stages are always in order.\<close>

lemma bounds_out_of_order_panic:
  "BoundedCommands [mkCommand ''x'' CloneInstruction, mkCommand ''y'' CloneInstruction] ''y'' ''x''
     = Inl (Panic ''slice bounds out of range'')"
  by code_simp

end
