(* ===== verification/AgentEnv.thy ===== *)
theory AgentEnv
  imports Build
begin

text \<open>
  Packages \<open>internal/agent/environment\<close>, \<open>internal/agent/cirrusenv\<close>, \<open>internal/agent/shellwords\<close>,
  \<open>internal/agent/hasher\<close> and parts of \<open>internal/agent/executor\<close> (logs.go, cache.go, cacheattempts.go,
  vaultunboxer): the environment of the agent with its sensitive values, the variables that scripts
  hand over in the \<open>CIRRUS_ENV\<close> file, timestamps and masking of logs, the splitting of command lines
  and the bookkeeping around caches.
\<close>

section \<open>Expansion of variables\<close>

definition isWord :: "char \<Rightarrow> bool" where
  "isWord c = (isLower c \<or> isUpper c \<or> isDigit c \<or> c = CHR ''_'')"

text \<open>The replacement of \<open>%NAME%\<close> by \<open>${NAME}\<close>, from the left without overlaps.\<close>

function percentToBrace :: "string \<Rightarrow> string" where
  "percentToBrace [] = []"
| "percentToBrace (c # s) =
     (let name = takeWhile isWord s; rest = drop (length name) s
      in if c = CHR ''%'' \<and> name \<noteq> [] \<and> HasPrefix rest ''%''
         then ''${'' @ name @ ''}'' @ percentToBrace (drop 1 rest)
         else c # percentToBrace s)"
  by pat_completeness auto
termination
  by (relation "measure length") auto

text \<open>\<open>os.Expand\<close> and the name that follows a dollar sign, with the number of bytes it takes.\<close>

definition isShellSpecialVar :: "char \<Rightarrow> bool" where
  "isShellSpecialVar c = (c \<in> set ''*#$@!?-0123456789'')"

definition getShellName :: "string \<Rightarrow> string \<times> nat" where
  "getShellName s =
     (if hd s = CHR ''{'' then
        (if 2 < length s \<and> isShellSpecialVar (s ! 1) \<and> s ! 2 = CHR ''}'' then ([s ! 1], 3)
         else let body = takeWhile (\<lambda>c. c \<noteq> CHR ''}'') (tl s)
              in if body = tl s then ([], 1) else if body = [] then ([], 2) else (body, length body + 2))
      else if isShellSpecialVar (hd s) then ([hd s], 1)
      else let name = takeWhile isWord s in (name, length name))"

function osExpand :: "(string \<Rightarrow> string) \<Rightarrow> string \<Rightarrow> string" where
  "osExpand mapping [] = []"
| "osExpand mapping (c # s) =
     (if c = CHR ''$'' \<and> s \<noteq> [] then
        (let name = fst (getShellName s); w = snd (getShellName s)
         in (if name = [] \<and> 0 < w then [] else if name = [] then ''$'' else mapping name)
            @ osExpand mapping (drop w s))
      else c # osExpand mapping s)"
  by pat_completeness auto
termination
  by (relation "measure (\<lambda>(m, s). length s)") auto

definition expandName :: "(string \<Rightarrow> string option) \<Rightarrow> string \<Rightarrow> string" where
  "expandName lookup name =
     (let parts = SplitC2 (CHR '':'') name
      in case lookup (parts ! 0) of
           Some v \<Rightarrow> v
         | None \<Rightarrow> if 1 < length parts then parts ! 1 else [])"

definition expandTextExtended :: "string \<Rightarrow> (string \<Rightarrow> string option) \<Rightarrow> string" where
  "expandTextExtended s lookup = osExpand (expandName lookup) (percentToBrace s)"

text \<open>The variables of the process are an argument.\<close>

definition expandTextOSFirst :: "env \<Rightarrow> string \<Rightarrow> env \<Rightarrow> string" where
  "expandTextOSFirst osEnv s customEnv =
     expandTextExtended s (\<lambda>name. case map_of osEnv name of Some v \<Rightarrow> Some v | None \<Rightarrow> map_of customEnv name)"

definition ExpandText :: "env \<Rightarrow> env \<Rightarrow> string \<Rightarrow> string" where
  "ExpandText osEnv env s =
     expandTextExtended s (\<lambda>name. case map_of env name of Some v \<Rightarrow> Some v | None \<Rightarrow> map_of osEnv name)"

definition selfRecursion :: "string \<Rightarrow> string \<Rightarrow> bool" where
  "selfRecursion key expanded =
     (Contains expanded (''$'' @ key) \<or> Contains expanded (''${'' @ key) \<or> Contains expanded (''%'' @ key))"

text \<open>One pass over the map in its iteration order, with the flag \<open>changed\<close>; at most ten passes.\<close>

definition expandEntry :: "env \<Rightarrow> string \<Rightarrow> bool \<times> env \<Rightarrow> bool \<times> env" where
  "expandEntry osEnv key st =
     (let value = mget (snd st) key; expanded = expandTextOSFirst osEnv value (snd st)
      in if selfRecursion key expanded then st
         else (fst st \<or> value \<noteq> expanded, mset_key key expanded (snd st)))"

fun expandSteps :: "nat \<Rightarrow> env \<Rightarrow> env \<Rightarrow> env" where
  "expandSteps 0 osEnv result = result"
| "expandSteps (Suc n) osEnv result =
     (let (changed, result') = fold (expandEntry osEnv) (map fst result) (False, result)
      in if changed then expandSteps n osEnv result' else result')"

definition ExpandEnvironmentRecursively :: "env \<Rightarrow> env \<Rightarrow> env" where
  "ExpandEnvironmentRecursively osEnv environment = expandSteps 10 osEnv environment"

section \<open>The environment of the agent\<close>

record environment =
  envItems :: env
  sensitiveValues :: "string list"

definition NewEmpty :: environment where
  "NewEmpty = \<lparr>envItems = [], sensitiveValues = []\<rparr>"

definition isWellKnownSensitive :: "string \<Rightarrow> bool" where
  "isWellKnownSensitive key =
     (HasSuffix key ''_PASSWORD'' \<or> HasSuffix key ''_SECRET'' \<or> HasSuffix key ''_TOKEN'' \<or>
      HasSuffix key ''_ACCESS_KEY'' \<or> HasSuffix key ''_SECRET_KEY'')"

definition AddSensitiveValues :: "string list \<Rightarrow> environment \<Rightarrow> environment" where
  "AddSensitiveValues vs e = e\<lparr>sensitiveValues := sensitiveValues e @ filter (\<lambda>v. v \<noteq> []) vs\<rparr>"

definition envSet :: "string \<Rightarrow> string \<Rightarrow> environment \<Rightarrow> environment" where
  "envSet key value e =
     (let e' = e\<lparr>envItems := mset_key key value (envItems e)\<rparr>
      in if isWellKnownSensitive key then AddSensitiveValues [value] e' else e')"

definition envMerge :: "env \<Rightarrow> env \<Rightarrow> bool \<Rightarrow> environment \<Rightarrow> environment" where
  "envMerge osEnv otherEnv isSensitive e =
     (if otherEnv = [] then e
      else fold (\<lambda>(key, value) e. if isSensitive \<or> isWellKnownSensitive key then AddSensitiveValues [value] e else e)
        otherEnv
        (e\<lparr>envItems := ExpandEnvironmentRecursively osEnv (mset_all (envItems e) otherEnv)\<rparr>))"

definition EnvMapAsSlice :: "env \<Rightarrow> string list" where
  "EnvMapAsSlice env = map (\<lambda>(k, v). k @ ''='' @ v) env"

text \<open>\<open>getScriptEnvironment\<close>; \<open>fresh\<close> is a directory that was made for the task.\<close>

record agentHost =
  ahOS :: string
  ahArch :: string
  ahHasOSVariable :: bool
  ahTempDir :: string
  ahTempDirExists :: bool
  ahFreshDir :: string

definition getScriptEnvironment :: "agentHost \<Rightarrow> string \<Rightarrow> string \<Rightarrow> env \<Rightarrow> env" where
  "getScriptEnvironment h preCreatedWorkingDir commandFrom response =
     (let r1 = (if \<not> mhas response ''OS'' \<and> \<not> ahHasOSVariable h then mset_key ''OS'' (ahOS h) response else response);
          r2 = mset_key ''CIRRUS_ARCH'' (ahArch h) (mset_key ''CIRRUS_OS'' (ahOS h) r1);
          r3 = (if \<not> mhas r2 ''CIRRUS_WORKING_DIR'' \<and> preCreatedWorkingDir \<noteq> []
                then mset_key ''CIRRUS_WORKING_DIR'' preCreatedWorkingDir r2 else r2)
      in if mhas r3 ''CIRRUS_WORKING_DIR'' then r3
         else mset_key ''CIRRUS_WORKING_DIR''
           (if \<not> ahTempDirExists h \<or> commandFrom \<noteq> [] then ahTempDir h @ ''/cirrus-ci-build'' else ahFreshDir h) r3)"

section \<open>The CIRRUS_ENV file\<close>

text \<open>
  The lines of a \<open>bufio.Scanner\<close>: a carriage return before the line feed is dropped, there is no
  empty last line, and a line of 65536 bytes or more ends the scan.
\<close>

definition dropCR :: "string \<Rightarrow> string" where
  "dropCR s = TrimSuffix s [CHR 0x0D]"

definition rawLines :: "string \<Rightarrow> string list" where
  "rawLines s =
     (let ls = SplitC (CHR 0x0A) s in if last ls = [] then butlast ls else ls)"

definition scanLines :: "string \<Rightarrow> string list" where
  "scanLines s = map dropCR (takeWhile (\<lambda>l. length l < 65536) (rawLines s))"

definition Consume :: "string \<Rightarrow> env res" where
  "Consume contents =
     foldE (\<lambda>line result. case SplitC2 (CHR ''='') line of
         [k, v] \<Rightarrow> Inr (mset_key k v result)
       | _ \<Rightarrow> Inl (Plain ''CIRRUS_ENV file should contain lines in KEY=VALUE format'' [])) (scanLines contents) []"

section \<open>Logs\<close>

text \<open>\<open>bytes.Replace\<close> of the first \<open>n\<close> line feeds; the timestamp is an argument.\<close>

fun replaceNewlines :: "string \<Rightarrow> nat \<Rightarrow> string \<Rightarrow> string" where
  "replaceNewlines ts n [] = []"
| "replaceNewlines ts n (c # s) =
     (if c = CHR 0x0A \<and> 0 < n then c # ts @ replaceNewlines ts (n - 1) s else c # replaceNewlines ts n s)"

definition WithTimestamps :: "string \<Rightarrow> bool \<Rightarrow> string \<Rightarrow> string \<times> bool" where
  "WithTimestamps ts owe input =
     (let n = count_list input (CHR 0x0A); ends = HasSuffix input [CHR 0x0A]
      in ((if owe then ts else []) @ replaceNewlines ts (if ends then n - 1 else n) input, ends))"

definition maskSensitive :: "string list \<Rightarrow> string \<Rightarrow> string" where
  "maskSensitive vs bytes = fold (\<lambda>v b. ReplaceAll b v ''HIDDEN-BY-CIRRUS-CI'') vs bytes"

section \<open>Command lines\<close>

datatype argState = InArg | InArgQuote | OutOfArg

fun toArgv :: "bool \<Rightarrow> argState \<Rightarrow> char \<Rightarrow> string \<Rightarrow> string list \<Rightarrow> string \<Rightarrow> string list res" where
  "toArgv windows st q arg argv [] =
     (case st of
        InArg \<Rightarrow> Inr (argv @ [arg])
      | InArgQuote \<Rightarrow> Inl (Panic ''Starting quote has no ending quote.'')
      | OutOfArg \<Rightarrow> Inr argv)"
| "toArgv windows st q arg argv (c # s) =
     (if c = CHR 0x22 \<or> c = CHR 0x27 then
        (case st of
           OutOfArg \<Rightarrow> toArgv windows InArgQuote c [] argv s
         | InArg \<Rightarrow> toArgv windows InArgQuote c arg argv s
         | InArgQuote \<Rightarrow> if c = q then toArgv windows InArg q arg argv s else toArgv windows InArgQuote q (arg @ [c]) argv s)
      else if c = CHR '' '' \<or> c = CHR 0x09 then
        (case st of
           InArg \<Rightarrow> toArgv windows OutOfArg q arg (argv @ [arg]) s
         | InArgQuote \<Rightarrow> toArgv windows InArgQuote q (arg @ [c]) argv s
         | OutOfArg \<Rightarrow> toArgv windows OutOfArg q arg argv s)
      else if c = CHR 0x5C then
        (let arg' = (if st = OutOfArg then [] else arg); st' = (if st = OutOfArg then InArg else st)
         in case s of
              [] \<Rightarrow> if windows then toArgv windows st' q (arg' @ [c]) argv s
                    else Inl (Panic ''Escape character at end string'')
            | d # s' \<Rightarrow>
                if windows then toArgv windows st' q (if d \<noteq> CHR 0x22 then arg' @ [c] else arg') argv s
                else toArgv windows st' q (arg' @ [d]) argv s')
      else
        (case st of
           OutOfArg \<Rightarrow> toArgv windows InArg q [c] argv s
         | _ \<Rightarrow> toArgv windows st q (arg @ [c]) argv s))"

definition ToArgv :: "bool \<Rightarrow> string \<Rightarrow> string list res" where
  "ToArgv windows s = toArgv windows OutOfArg (CHR 0x00) [] [] s"

section \<open>Caches\<close>

text \<open>\<open>DeduplicatePaths\<close> with the path separator of Unix.\<close>

fun dedupPaths :: "string \<Rightarrow> string list \<Rightarrow> string list" where
  "dedupPaths previous [] = []"
| "dedupPaths previous (p # ps) =
     (if previous = [] \<or> \<not> Contains p (previous @ ''/'') then p # dedupPaths p ps else dedupPaths previous ps)"

definition DeduplicatePaths :: "string list \<Rightarrow> string list" where
  "DeduplicatePaths paths = dedupPaths [] (sort paths)"

datatype attempt =
    FailedAttempt string
  | HitAttempt "64 word" "64 word" "64 word"
  | MissAttempt "64 word" "64 word" "64 word" "64 word"

type_synonym attempts = "attempt gomap"

definition attemptFailed :: "string \<Rightarrow> string \<Rightarrow> attempts \<Rightarrow> attempts" where
  "attemptFailed key e ca = mset_key key (FailedAttempt e) ca"

definition attemptHit :: "string \<Rightarrow> 64 word \<Rightarrow> 64 word \<Rightarrow> 64 word \<Rightarrow> attempts \<Rightarrow> attempts" where
  "attemptHit key sz downloadedIn extractedIn ca = mset_key key (HitAttempt sz downloadedIn extractedIn) ca"

definition PopulatedIn :: "string \<Rightarrow> 64 word \<Rightarrow> attempts \<Rightarrow> attempts" where
  "PopulatedIn key populatedIn ca = mset_key key (MissAttempt populatedIn 0 0 0) ca"

definition attemptMiss :: "string \<Rightarrow> 64 word \<Rightarrow> 64 word \<Rightarrow> 64 word \<Rightarrow> attempts \<Rightarrow> attempts" where
  "attemptMiss key sz archivedIn uploadedIn ca =
     (case map_of ca key of
        Some (MissAttempt p _ _ _) \<Rightarrow> mset_key key (MissAttempt p sz archivedIn uploadedIn) ca
      | _ \<Rightarrow> mset_key key (MissAttempt 0 sz archivedIn uploadedIn) ca)"

datatype diffEntry = Created string | Modified string | Deleted string

definition DiffWithNewer :: "env \<Rightarrow> env \<Rightarrow> diffEntry list" where
  "DiffWithNewer old newer =
     concat (map (\<lambda>(p, h). case map_of old p of
         None \<Rightarrow> [Created p] | Some h' \<Rightarrow> if h \<noteq> h' then [Modified p] else []) newer) @
     concat (map (\<lambda>(p, h). if mhas newer p then [] else [Deleted p]) old)"

section \<open>Vault-boxed values\<close>

record boxedValue =
  vaultPath :: string
  vaultPathArgs :: "string list gomap"
  dataPath :: "string list"
  useCache :: bool

definition invalidBoxed :: "string \<Rightarrow> string list \<Rightarrow> err" where
  "invalidBoxed fmt as = Plain (''Vault-boxed value has an invalid format: '' @ fmt) as"

definition boxedArg :: "string \<Rightarrow> string list gomap \<Rightarrow> string list gomap res" where
  "boxedArg arg acc =
     (case SplitC (CHR ''='') arg of
        [k, v] \<Rightarrow>
          if k = [] \<or> v = [] then Inl (invalidBoxed ''found an unvalid argument %q: key and/or value are empty'' [arg])
          else Inr (mset_key k ((case map_of acc k of None \<Rightarrow> [] | Some vs \<Rightarrow> vs) @ [v]) acc)
      | _ \<Rightarrow> Inl (invalidBoxed
          ''found an invalid argument %q: argument should be in form of A=B, and only one = is allowed'' [arg]))"

definition boxedParts :: "bool \<Rightarrow> string list \<Rightarrow> boxedValue res" where
  "boxedParts cached parts =
     (case parts of
        p0 # p1 # rest \<Rightarrow>
          if Contains p1 ''='' then Inl (invalidBoxed ''missing selector element, found %q'' [p1])
          else if [] \<in> set (SplitC (CHR ''.'') p1) then Inl (invalidBoxed ''found an empty selector element '' [])
          else (case foldE boxedArg rest [] of
                  Inl e \<Rightarrow> Inl e
                | Inr as \<Rightarrow> Inr \<lparr>vaultPath = p0, vaultPathArgs = as, dataPath = SplitC (CHR ''.'') p1, useCache = cached\<rparr>)
      | _ \<Rightarrow> Inl (invalidBoxed ''there should be at least 2 parameters (path and a selector), found %d''
          [FormatUint (length parts)]))"

definition NewBoxedValue :: "string \<Rightarrow> boxedValue res" where
  "NewBoxedValue raw =
     (let cached = HasPrefix raw ''VAULT['';
          body = (if cached then TrimPrefix raw ''VAULT['' else TrimPrefix raw ''VAULT_NOCACHE['')
      in if \<not> cached \<and> \<not> HasPrefix raw ''VAULT_NOCACHE[''  \<or> \<not> HasSuffix body '']''
         then Inl (Plain (''doesn'' @ [CHR 0x27] @ ''t look like a Vault-boxed value'') [])
         else boxedParts cached (SplitC (CHR '' '') (TrimSuffix body '']'')))"

section \<open>Facts\<close>

lemma SplitC_lines:
  assumes "\<forall>l \<in> set ls. CHR 0x0A \<notin> set l"
  shows "SplitC (CHR 0x0A) (concat (map (\<lambda>l. l @ [CHR 0x0A]) ls)) = ls @ [[]]"
  using assms by (induction ls) (simp_all add: SplitC_append_sep)

lemma rawLines_concat:
  "\<forall>l \<in> set ls. CHR 0x0A \<notin> set l \<Longrightarrow> rawLines (concat (map (\<lambda>l. l @ [CHR 0x0A]) ls)) = ls"
  by (simp add: rawLines_def SplitC_lines)

lemma update_new: "k \<notin> fst ` set al \<Longrightarrow> AList.update k v al = al @ [(k, v)]"
  by (induction al) auto

lemma dropCR_id: "\<not> HasSuffix s [CHR 0x0D] \<Longrightarrow> dropCR s = s"
  by (simp add: dropCR_def TrimSuffix_def)

lemma foldE_lines:
  assumes "\<forall>(k, v) \<in> set m. CHR ''='' \<notin> set k" and "distinct (map fst (acc @ m))"
  shows "foldE (\<lambda>line result. case SplitC2 (CHR ''='') line of
         [k, v] \<Rightarrow> Inr (mset_key k v result)
       | _ \<Rightarrow> Inl (Plain ''CIRRUS_ENV file should contain lines in KEY=VALUE format'' []))
      (map (\<lambda>(k, v). k @ ''='' @ v) m) acc = Inr (acc @ m)"
  using assms
proof (induction m arbitrary: acc)
  case (Cons p m)
  obtain k v where p: "p = (k, v)" by force
  have "SplitC2 (CHR ''='') (k @ ''='' @ v) = [k, v]" using Cons.prems(1) p by (simp add: SplitC2_append_sep)
  moreover have "mset_key k v acc = acc @ [(k, v)]" using Cons.prems(2) p by (intro update_new) auto
  ultimately show ?case using Cons.IH [of "acc @ [(k, v)]"] Cons.prems p by simp
qed simp

text \<open>A timestamp before the first byte of every line: what the chunk-wise insertion amounts to.\<close>

fun stampLines :: "string \<Rightarrow> bool \<Rightarrow> string \<Rightarrow> string" where
  "stampLines ts owe [] = []"
| "stampLines ts owe (c # s) = (if owe then ts else []) @ c # stampLines ts (c = CHR 0x0A) s"

lemma HasSuffix_last: "s \<noteq> [] \<Longrightarrow> HasSuffix s [c] \<longleftrightarrow> last s = c"
  by (auto simp: HasSuffix_iff suffix_def) (metis append_butlast_last_id)

lemma replaceNewlines_stamp:
  assumes "s \<noteq> []"
  shows "replaceNewlines ts (count_list s (CHR 0x0A) - (if last s = CHR 0x0A then 1 else 0)) s = stampLines ts False s"
  using assms
proof (induction s)
  case (Cons c s)
  show ?case
  proof (cases s)
    case Nil
    then show ?thesis by simp
  next
    case (Cons d ds)
    have pos: "last s = CHR 0x0A \<Longrightarrow> 0 < count_list s (CHR 0x0A)"
      using Cons by (metis count_list_0_iff last_in_set list.discI not_gr_zero)
    show ?thesis
    proof (cases "c = CHR 0x0A")
      case True
      have "stampLines ts True s = ts @ stampLines ts False s" using Cons by simp
      then show ?thesis using True Cons.IH Cons pos by (simp add: Suc_diff_le split: if_splits)
    next
      case False
      then show ?thesis using Cons.IH Cons by simp
    qed
  qed
qed simp

lemma WithTimestamps_stamp:
  assumes "s \<noteq> []"
  shows "WithTimestamps ts owe s = (stampLines ts owe s, last s = CHR 0x0A)"
proof -
  have "stampLines ts owe s = (if owe then ts else []) @ stampLines ts False s" using assms by (cases s) auto
  then show ?thesis
    using replaceNewlines_stamp [OF assms, of ts] assms
    by (auto simp: WithTimestamps_def HasSuffix_last Let_def)
qed

lemma stampLines_append:
  "stampLines ts owe (a @ b) = stampLines ts owe a @ stampLines ts (if a = [] then owe else last a = CHR 0x0A) b"
  by (induction a arbitrary: owe) auto

text \<open>An argument in double quotes with quotes and backslashes escaped.\<close>

definition escapeChar :: "char \<Rightarrow> string" where
  "escapeChar c = (if c = CHR 0x22 \<or> c = CHR 0x5C then [CHR 0x5C, c] else [c])"

definition quoteArg :: "string \<Rightarrow> string" where
  "quoteArg a = [CHR 0x22] @ concat (map escapeChar a) @ [CHR 0x22]"

lemma toArgv_quoted:
  "toArgv False InArgQuote (CHR 0x22) arg argv (concat (map escapeChar a) @ CHR 0x22 # s) =
     toArgv False InArg (CHR 0x22) (arg @ a) argv s"
  by (induction a arbitrary: arg) (auto simp: escapeChar_def)

lemma toArgv_args:
  "as \<noteq> [] \<Longrightarrow> toArgv False OutOfArg q arg argv (Join '' '' (map quoteArg as)) = Inr (argv @ as)"
proof (induction as arbitrary: q arg argv)
  case (Cons a as)
  show ?case
  proof (cases as)
    case Nil
    then show ?thesis by (simp add: quoteArg_def toArgv_quoted)
  next
    case (Cons b bs)
    then have j: "Join '' '' (map quoteArg (a # as)) = quoteArg a @ '' '' @ Join '' '' (map quoteArg as)" by simp
    have "toArgv False OutOfArg q arg argv (quoteArg a @ '' '' @ Join '' '' (map quoteArg as))
        = toArgv False InArg (CHR 0x22) a argv ('' '' @ Join '' '' (map quoteArg as))"
      using toArgv_quoted [of "[]" argv a "'' '' @ Join '' '' (map quoteArg as)"] by (simp add: quoteArg_def)
    also have "\<dots> = Inr (argv @ a # as)" using Cons.IH [of "CHR 0x22" a "argv @ [a]"] Cons by simp
    finally show ?thesis unfolding j by simp
  qed
qed simp

section \<open>Properties\<close>

text \<open>
  C36. Variables written to the \<open>CIRRUS_ENV\<close> file as \<open>KEY=VALUE\<close> lines are read back exactly, in
  particular values with further equals signs, as long as the lines stay below the limit of the
  scanner and contain no line breaks.
\<close>

theorem Consume_roundtrip:
  assumes "wf_map m"
    and "\<forall>(k, v) \<in> set m. CHR ''='' \<notin> set k \<and> CHR 0x0A \<notin> set (k @ ''='' @ v) \<and>
      \<not> HasSuffix (k @ ''='' @ v) [CHR 0x0D] \<and> length (k @ ''='' @ v) < 65536"
  shows "Consume (concat (map (\<lambda>l. l @ [CHR 0x0A]) (EnvMapAsSlice m))) = Inr m"
proof -
  have "rawLines (concat (map (\<lambda>l. l @ [CHR 0x0A]) (EnvMapAsSlice m))) = EnvMapAsSlice m"
    using assms(2) by (intro rawLines_concat) (auto simp: EnvMapAsSlice_def)
  moreover have "takeWhile (\<lambda>l. length l < 65536) (EnvMapAsSlice m) = EnvMapAsSlice m"
    using assms(2) by (auto simp: takeWhile_eq_all_conv EnvMapAsSlice_def)
  moreover have "map dropCR (EnvMapAsSlice m) = EnvMapAsSlice m"
    using assms(2) by (intro map_idI dropCR_id) (auto simp: EnvMapAsSlice_def)
  ultimately have "scanLines (concat (map (\<lambda>l. l @ [CHR 0x0A]) (EnvMapAsSlice m))) = EnvMapAsSlice m"
    by (simp only: scanLines_def)
  then show ?thesis
    using foldE_lines [of m "[]"] assms by (auto simp: Consume_def EnvMapAsSlice_def wf_map_def)
qed

theorem Consume_roundtrip_witness:
  "Consume (concat (map (\<lambda>l. l @ [CHR 0x0A]) (EnvMapAsSlice [(''A'', ''x=y''), (''B'', [])])))
     = Inr [(''A'', ''x=y''), (''B'', [])]"
  by (rule Consume_roundtrip) (auto simp: wf_map_def HasSuffix_def)

text \<open>
  C37. Whatever the chunks in which a log arrives, the chunk-wise insertion of timestamps gives the
  log in which every line that has a byte starts with a timestamp, and nothing follows a final line
  feed.
\<close>

theorem WithTimestamps_refines:
  assumes "[] \<notin> set chunks"
  shows "fst (fold (\<lambda>chunk (out, owe). let (r, owe') = WithTimestamps ts owe chunk in (out @ r, owe')) chunks ([], True))
    = stampLines ts True (concat chunks)"
proof -
  have "fst (fold (\<lambda>chunk (out, owe). let (r, owe') = WithTimestamps ts owe chunk in (out @ r, owe')) cs (out, owe))
      = out @ stampLines ts owe (concat cs)" if "[] \<notin> set cs" for cs out owe
    using that
  proof (induction cs arbitrary: out owe)
    case (Cons c cs)
    then have "c \<noteq> []" by auto
    then show ?case using Cons by (simp add: WithTimestamps_stamp stampLines_append)
  qed simp
  then show ?thesis using assms by simp
qed

theorem WithTimestamps_refines_witness:
  "fst (fold (\<lambda>chunk (out, owe). let (r, owe') = WithTimestamps ''T '' owe chunk in (out @ r, owe'))
      [''ab'', [CHR 0x0A], ''c''] ([], True)) = ''T ab'' @ [CHR 0x0A] @ ''T c''"
  using WithTimestamps_refines [of "[''ab'', [CHR 0x0A], ''c'']" "''T ''"] by simp

text \<open>
  On Unix, arguments that are put in double quotes with quotes and backslashes escaped, and
  joined by spaces, are split into exactly the same arguments again.
\<close>

theorem ToArgv_roundtrip:
  "ToArgv False (Join '' '' (map quoteArg as)) = Inr as"
  by (cases "as = []") (simp_all add: ToArgv_def toArgv_args)

section \<open>Divergences\<close>

text \<open>A sensitive value with a reference is masked in its unexpanded form only.\<close>

lemma merge_masks_unexpanded:
  "sensitiveValues (envMerge [] [(''X_TOKEN'', ''$A'')] False \<lparr>envItems = [(''A'', ''s'')], sensitiveValues = []\<rparr>) = [''$A''] \<and>
   mget (envItems (envMerge [] [(''X_TOKEN'', ''$A'')] False \<lparr>envItems = [(''A'', ''s'')], sensitiveValues = []\<rparr>)) ''X_TOKEN'' = ''s''"
  by code_simp

text \<open>A sensitive value that extends another one is masked in part only.\<close>

lemma mask_leaves_rest: "maskSensitive [''ab'', ''abc''] ''abc'' = ''HIDDEN-BY-CIRRUS-CIc''"
  by code_simp

text \<open>A path that contains another one in its middle is taken for a path below it and dropped.\<close>

lemma dedup_drops_unrelated: "DeduplicatePaths [''b/a/c'', ''a''] = [''a'']"
  by code_simp

end
