(* ===== verification/Sha256.thy ===== *)
theory Sha256
  imports GoBase
begin

text \<open>
  The digest of \<open>crypto/sha256\<close> (FIPS 180-4), which names blobs and Dockerfile images, printed with
  \<open>%x\<close>.
\<close>

unbundle bit_operations_syntax

definition shaK :: "32 word list" where
  "shaK =
    [1116352408, 1899447441, 3049323471, 3921009573, 961987163, 1508970993, 2453635748, 2870763221,
     3624381080, 310598401, 607225278, 1426881987, 1925078388, 2162078206, 2614888103, 3248222580,
     3835390401, 4022224774, 264347078, 604807628, 770255983, 1249150122, 1555081692, 1996064986,
     2554220882, 2821834349, 2952996808, 3210313671, 3336571891, 3584528711, 113926993, 338241895,
     666307205, 773529912, 1294757372, 1396182291, 1695183700, 1986661051, 2177026350, 2456956037,
     2730485921, 2820302411, 3259730800, 3345764771, 3516065817, 3600352804, 4094571909, 275423344,
     430227734, 506948616, 659060556, 883997877, 958139571, 1322822218, 1537002063, 1747873779,
     1955562222, 2024104815, 2227730452, 2361852424, 2428436474, 2756734187, 3204031479, 3329325298]"

definition shaInit :: "32 word list" where
  "shaInit = [1779033703, 3144134277, 1013904242, 2773480762, 1359893119, 2600822924, 528734635, 1541459225]"

definition bytesOf :: "string \<Rightarrow> nat list" where
  "bytesOf s = map of_char s"

definition be64 :: "nat \<Rightarrow> nat list" where
  "be64 n = map (\<lambda>i. n div 256 ^ (7 - i) mod 256) [0 ..< 8]"

definition shaPad :: "nat list \<Rightarrow> nat list" where
  "shaPad m = m @ [0x80] @ replicate ((119 - length m mod 64) mod 64) 0 @ be64 (8 * length m)"

fun chunksOf :: "nat \<Rightarrow> 'a list \<Rightarrow> 'a list list" where
  "chunksOf n xs = (if n = 0 \<or> xs = [] then [] else take n xs # chunksOf n (drop n xs))"

declare chunksOf.simps [simp del]

definition be32 :: "nat list \<Rightarrow> 32 word" where
  "be32 bs = of_nat (foldl (\<lambda>a b. 256 * a + b) 0 bs)"

definition smallSigma0 :: "32 word \<Rightarrow> 32 word" where
  "smallSigma0 x = word_rotr 7 x XOR word_rotr 18 x XOR drop_bit 3 x"

definition smallSigma1 :: "32 word \<Rightarrow> 32 word" where
  "smallSigma1 x = word_rotr 17 x XOR word_rotr 19 x XOR drop_bit 10 x"

definition bigSigma0 :: "32 word \<Rightarrow> 32 word" where
  "bigSigma0 x = word_rotr 2 x XOR word_rotr 13 x XOR word_rotr 22 x"

definition bigSigma1 :: "32 word \<Rightarrow> 32 word" where
  "bigSigma1 x = word_rotr 6 x XOR word_rotr 11 x XOR word_rotr 25 x"

text \<open>The message schedule, extended word by word to 64 words.\<close>

definition shaExtend :: "32 word list \<Rightarrow> 32 word list" where
  "shaExtend w =
     (let t = length w in w @ [smallSigma1 (w ! (t - 2)) + w ! (t - 7) + smallSigma0 (w ! (t - 15)) + w ! (t - 16)])"

definition shaSchedule :: "nat list \<Rightarrow> 32 word list" where
  "shaSchedule block = (shaExtend ^^ 48) (map be32 (chunksOf 4 block))"

definition shaRound :: "32 word \<times> 32 word \<Rightarrow> 32 word list \<Rightarrow> 32 word list" where
  "shaRound kw v =
     (case v of
        [a, b, c, d, e, f, g, h] \<Rightarrow>
          (let t1 = h + bigSigma1 e + ((e AND f) XOR (NOT e AND g)) + fst kw + snd kw;
               t2 = bigSigma0 a + ((a AND b) XOR (a AND c) XOR (b AND c))
           in [t1 + t2, a, b, c, d + t1, e, f, g])
      | _ \<Rightarrow> v)"

definition shaBlock :: "nat list \<Rightarrow> 32 word list \<Rightarrow> 32 word list" where
  "shaBlock block hs = map2 (+) hs (fold shaRound (zip shaK (shaSchedule block)) hs)"

definition sha256 :: "string \<Rightarrow> 32 word list" where
  "sha256 s = fold shaBlock (chunksOf 64 (shaPad (bytesOf s))) shaInit"

definition hexChar :: "nat \<Rightarrow> char" where
  "hexChar d = ''0123456789abcdef'' ! (d mod 16)"

definition hexWord :: "32 word \<Rightarrow> string" where
  "hexWord w = map (\<lambda>i. hexChar (unat w div 16 ^ (7 - i))) [0 ..< 8]"

definition sha256hex :: "string \<Rightarrow> string" where
  "sha256hex s = concat (map hexWord (sha256 s))"

section \<open>The shape of a digest\<close>

lemma length_shaRound: "length v = 8 \<Longrightarrow> length (shaRound kw v) = 8"
  by (auto simp: shaRound_def Let_def split: list.splits)

lemma length_fold: "(\<And>x v. length v = n \<Longrightarrow> length (f x v) = n) \<Longrightarrow> length v = n \<Longrightarrow> length (fold f xs v) = n"
  by (induction xs arbitrary: v) auto

lemma length_shaBlock: "length hs = 8 \<Longrightarrow> length (shaBlock block hs) = 8"
  by (simp add: shaBlock_def length_fold [OF length_shaRound])

lemma length_sha256: "length (sha256 s) = 8"
  unfolding sha256_def by (rule length_fold [OF length_shaBlock]) (simp_all add: shaInit_def)

lemma hexChar_digit: "hexChar d \<in> set ''0123456789abcdef''"
  unfolding hexChar_def by (rule nth_mem) simp

lemma set_sha256hex: "set (sha256hex s) \<subseteq> set ''0123456789abcdef''"
  using hexChar_digit by (fastforce simp: sha256hex_def hexWord_def)

lemma length_sha256hex: "length (sha256hex s) = 64"
proof -
  have "length (hexWord w) = 8" for w by (simp add: hexWord_def)
  then have "map (length \<circ> hexWord) ws = replicate (length ws) 8" for ws by (induction ws) auto
  then show ?thesis by (simp add: sha256hex_def length_concat sum_list_replicate length_sha256)
qed

end
