(* ===== verification/BlobCache.thy ===== *)
theory BlobCache
  imports Sha256
begin

text \<open>
  Package \<open>internal/executor/cache\<close>: the blobs of a project in a directory of the host. The directory
  is a map from file names to contents and modification times; a put operation writes to a temporary
  file through a buffer and renames the file at the end.
\<close>

section \<open>The directory\<close>

record blobFile =
  fContent :: string
  fTime :: int
  fIsDir :: bool

type_synonym dir = "blobFile gomap"

definition isSafeChar :: "char \<Rightarrow> bool" where
  "isSafeChar c = (isDigit c \<or> isLower c \<or> isUpper c \<or> c = CHR ''-'' \<or> c = CHR ''_'')"

definition needsSanitization :: "string \<Rightarrow> bool" where
  "needsSanitization key = (if key = [] then True else list_ex (\<lambda>c. \<not> isSafeChar c) key)"

text \<open>The last component of the path of a blob.\<close>

definition blobName :: "string \<Rightarrow> string" where
  "blobName key = (if needsSanitization key then sha256hex key else key)"

text \<open>The file that is opened for reading, with what \<open>Stat\<close> says about it.\<close>

definition Get :: "dir \<Rightarrow> string \<Rightarrow> blobFile res" where
  "Get d key =
     (case map_of d (blobName key) of
        None \<Rightarrow> Inl (Plain ''blob with the specified key not found'' [])
      | Some f \<Rightarrow> Inr f)"

text \<open>The entries in the order of \<open>os.ReadDir\<close>, sorted by modification time.\<close>

definition FindByPrefix :: "dir \<Rightarrow> string \<Rightarrow> (string \<times> blobFile) res" where
  "FindByPrefix d prefx =
     (case find (\<lambda>(n, f). \<not> fIsDir f \<and> HasPrefix n prefx) (sort_key (\<lambda>(n, f). fTime f) (sort_key fst d)) of
        None \<Rightarrow> Inl (Plain ''blob with the specified key not found'' [])
      | Some (n, f) \<Rightarrow> Inr (n, f))"

definition Delete :: "string \<Rightarrow> dir \<Rightarrow> dir" where
  "Delete key d = AList.delete (blobName key) d"

section \<open>Put operations\<close>

record putOperation =
  tmpBlobFile :: string
  tmpBlobBuffer :: string
  finalBlobPath :: string

definition bufSize :: nat where
  "bufSize = 10 * 1024 * 1024"

text \<open>\<open>suffix\<close> is the random part of the name that \<open>os.CreateTemp\<close> chooses; it avoids existing files.\<close>

definition tmpName :: "string \<Rightarrow> string" where
  "tmpName suffx = ''.temporary-blob-'' @ suffx"

definition Put :: "string \<Rightarrow> int \<Rightarrow> string \<Rightarrow> dir \<Rightarrow> putOperation \<times> dir" where
  "Put suffx now key d =
     (let tmp = tmpName suffx
      in (\<lparr>tmpBlobFile = tmp, tmpBlobBuffer = [], finalBlobPath = blobName key\<rparr>,
          mset_key tmp \<lparr>fContent = [], fTime = now, fIsDir = False\<rparr> d))"

definition appendFile :: "string \<Rightarrow> string \<Rightarrow> int \<Rightarrow> dir \<Rightarrow> dir" where
  "appendFile name bytes now d =
     (case map_of d name of
        None \<Rightarrow> d
      | Some f \<Rightarrow> mset_key name (f\<lparr>fContent := fContent f @ bytes, fTime := now\<rparr>) d)"

text \<open>
  \<open>bufio.Writer.Write\<close>: what does not fit fills the buffer, which is then flushed, or is written
  directly when the buffer is empty.
\<close>

function bufferedWrite :: "string \<Rightarrow> string \<Rightarrow> string \<times> string" where
  "bufferedWrite buffer p =
     (if length p \<le> bufSize - length buffer then ([], buffer @ p)
      else if buffer = [] then (p, [])
      else (let k = bufSize - length buffer; (out, rest) = bufferedWrite [] (drop k p)
            in (buffer @ take k p @ out, rest)))"
  by pat_completeness auto
termination
  by (relation "measure (\<lambda>(b, p). if b = [] then 0 else 1)") auto

declare bufferedWrite.simps [simp del]

definition Write :: "int \<Rightarrow> string \<Rightarrow> putOperation \<times> dir \<Rightarrow> putOperation \<times> dir" where
  "Write now p s =
     (let (out, buffer) = bufferedWrite (tmpBlobBuffer (fst s)) p
      in ((fst s)\<lparr>tmpBlobBuffer := buffer\<rparr>,
          if out = [] then snd s else appendFile (tmpBlobFile (fst s)) out now (snd s)))"

definition Rename :: "string \<Rightarrow> string \<Rightarrow> dir \<Rightarrow> dir" where
  "Rename old new d =
     (case map_of d old of None \<Rightarrow> d | Some f \<Rightarrow> mset_key new f (AList.delete old d))"

definition Finalize :: "int \<Rightarrow> putOperation \<Rightarrow> dir \<Rightarrow> dir" where
  "Finalize now op d =
     Rename (tmpBlobFile op) (finalBlobPath op)
       (if tmpBlobBuffer op = [] then d else appendFile (tmpBlobFile op) (tmpBlobBuffer op) now d)"

text \<open>A whole put: the chunks that arrive are written one after another and the blob is finalized.\<close>

definition putBlob :: "string \<Rightarrow> int \<Rightarrow> string \<Rightarrow> string list \<Rightarrow> dir \<Rightarrow> dir" where
  "putBlob suffx now key chunks d =
     (let s = fold (Write now) chunks (Put suffx now key d) in Finalize now (fst s) (snd s))"

section \<open>The interface of a blob store\<close>

text \<open>
  A store of contents under the names of keys: what the cache promises to its clients. The lemmas
  say that only the last operation on a name counts.
\<close>

locale blob_store =
  fixes lookup :: "'s \<Rightarrow> 'k \<Rightarrow> string option"
    and store :: "'k \<Rightarrow> 'c \<Rightarrow> 's \<Rightarrow> 's"
    and remove :: "'k \<Rightarrow> 's \<Rightarrow> 's"
    and name :: "'k \<Rightarrow> string"
    and content :: "'c \<Rightarrow> string"
    and inv :: "'s \<Rightarrow> bool"
  assumes store_inv: "inv s \<Longrightarrow> inv (store k c s)"
    and remove_inv: "inv s \<Longrightarrow> inv (remove k s)"
    and lookup_store: "inv s \<Longrightarrow> lookup (store k c s) m = (if name m = name k then Some (content c) else lookup s m)"
    and lookup_remove: "inv s \<Longrightarrow> lookup (remove k s) m = (if name m = name k then None else lookup s m)"
begin

definition step :: "'k \<times> 'c option \<Rightarrow> 's \<Rightarrow> 's" where
  "step p s = (case snd p of Some c \<Rightarrow> store (fst p) c s | None \<Rightarrow> remove (fst p) s)"

lemma step_inv: "inv s \<Longrightarrow> inv (step p s)"
  by (simp add: step_def store_inv remove_inv split: option.split)

lemma lookup_step:
  "inv s \<Longrightarrow> lookup (step p s) m = (if name m = name (fst p) then map_option content (snd p) else lookup s m)"
  by (simp add: step_def lookup_store lookup_remove split: option.split)

lemma fold_inv: "inv s \<Longrightarrow> inv (fold step ops s)"
  by (induction ops arbitrary: s) (auto simp: step_inv)

lemma fold_skip: "inv s \<Longrightarrow> name k \<notin> (name \<circ> fst) ` set ops \<Longrightarrow> lookup (fold step ops s) k = lookup s k"
  by (induction ops arbitrary: s) (auto simp: step_inv lookup_step)

lemma last_step_counts:
  assumes "inv s" and "name k \<notin> (name \<circ> fst) ` set later" and "name (fst p) = name k"
  shows "lookup (fold step (earlier @ p # later) s) k = map_option content (snd p)"
  using assms fold_inv [OF assms(1), of earlier] by (simp add: fold_skip step_inv lookup_step)

end

section \<open>The directory is a blob store\<close>

lemma hexChars_not_dot: "CHR ''.'' \<notin> set ''0123456789abcdef''"
  by simp

lemma blobName_no_dot: "CHR ''.'' \<notin> set (blobName key)"
proof (cases "needsSanitization key")
  case True
  then show ?thesis using set_sha256hex [of key] hexChars_not_dot by (auto simp: blobName_def)
next
  case False
  have "\<not> isSafeChar (CHR ''.'')" by code_simp
  then show ?thesis using False by (auto simp: blobName_def needsSanitization_def list_ex_iff split: if_splits)
qed

lemma blobName_not_tmp: "blobName key \<noteq> tmpName suffx"
  using blobName_no_dot [of key] by (auto simp: tmpName_def)

lemma bufferedWrite_bytes: "bufferedWrite b p = (out, rest) \<Longrightarrow> out @ rest = b @ p"
proof (induction b p arbitrary: out rest rule: bufferedWrite.induct)
  case (1 b p)
  consider "length p \<le> bufSize - length b" | "\<not> length p \<le> bufSize - length b" "b = []" |
    "\<not> length p \<le> bufSize - length b" "b \<noteq> []" by blast
  then show ?case
  proof cases
    case 3
    let ?k = "bufSize - length b"
    obtain o1 r1 where r: "bufferedWrite [] (drop ?k p) = (o1, r1)" by force
    then have "o1 @ r1 = drop ?k p" using "1.IH" [OF 3 refl] by simp
    moreover have "out = b @ take ?k p @ o1" "rest = r1"
      using "1.prems" 3 r by (simp_all add: bufferedWrite.simps [of b p] Let_def)
    ultimately show ?thesis by (metis append.assoc append_take_drop_id)
    next
    case 1
    then show ?thesis using "1.prems" by (subst (asm) bufferedWrite.simps) auto
  next
    case 2
    then show ?thesis using "1.prems" by (subst (asm) bufferedWrite.simps) auto
  qed
qed

text \<open>An open put operation: the temporary file and the buffer hold what was written so far.\<close>

definition openPut :: "putOperation \<Rightarrow> dir \<Rightarrow> string \<Rightarrow> bool" where
  "openPut op d bytes =
     (\<exists>f. map_of d (tmpBlobFile op) = Some f \<and> fContent f @ tmpBlobBuffer op = bytes)"

lemma map_of_appendFile:
  "map_of (appendFile n bytes now d) m =
     (if m = n then map_option (\<lambda>f. f\<lparr>fContent := fContent f @ bytes, fTime := now\<rparr>) (map_of d n) else map_of d m)"
  by (auto simp: appendFile_def update_conv' split: option.splits)

lemma Write_open:
  assumes "openPut op d bytes" and "Write now p (op, d) = (op', d')"
  shows "openPut op' d' (bytes @ p) \<and> tmpBlobFile op' = tmpBlobFile op \<and> finalBlobPath op' = finalBlobPath op \<and>
    (\<forall>n. n \<noteq> tmpBlobFile op \<longrightarrow> map_of d' n = map_of d n)"
proof -
  obtain out rest where b: "bufferedWrite (tmpBlobBuffer op) p = (out, rest)" by force
  have eq: "out @ rest = tmpBlobBuffer op @ p" using bufferedWrite_bytes [OF b] .
  obtain f where f: "map_of d (tmpBlobFile op) = Some f" "fContent f @ tmpBlobBuffer op = bytes"
    using assms(1) by (auto simp: openPut_def)
  have op': "op' = op\<lparr>tmpBlobBuffer := rest\<rparr>"
    "d' = (if out = [] then d else appendFile (tmpBlobFile op) out now d)"
    using assms(2) b by (auto simp: Write_def)
  have "fContent f @ out @ rest = bytes @ p" using eq f(2) by (metis append.assoc)
  then show ?thesis using f by (auto simp: op' openPut_def map_of_appendFile)
qed

lemma Finalize_open:
  assumes "openPut op d bytes" and "finalBlobPath op \<noteq> tmpBlobFile op"
  shows "map_option fContent (map_of (Finalize now op d) n) =
    (if n = finalBlobPath op then Some bytes else if n = tmpBlobFile op then None else map_option fContent (map_of d n))"
proof -
  obtain f where f: "map_of d (tmpBlobFile op) = Some f" "fContent f @ tmpBlobBuffer op = bytes"
    using assms(1) by (auto simp: openPut_def)
  show ?thesis
    using f assms(2) by (auto simp: Finalize_def Rename_def map_of_appendFile update_conv' delete_conv')
qed

lemma fold_Write_open:
  assumes "openPut op d bytes" and "fold (Write now) chunks (op, d) = (op', d')"
  shows "openPut op' d' (bytes @ concat chunks) \<and> tmpBlobFile op' = tmpBlobFile op \<and> finalBlobPath op' = finalBlobPath op \<and>
    (\<forall>n. n \<noteq> tmpBlobFile op \<longrightarrow> map_of d' n = map_of d n)"
  using assms
proof (induction chunks arbitrary: op d bytes)
  case (Cons p chunks)
  obtain op1 d1 where w: "Write now p (op, d) = (op1, d1)" by force
  then show ?case
    using Cons.IH [of op1 d1 "bytes @ p"] Cons.prems Write_open [OF Cons.prems(1) w] by auto
qed simp

lemma putBlob_content:
  "map_option fContent (map_of (putBlob suffx now key chunks d) n) =
     (if n = blobName key then Some (concat chunks)
      else if n = tmpName suffx then None else map_option fContent (map_of d n))"
proof -
  obtain op0 d0 where p: "Put suffx now key d = (op0, d0)" by force
  obtain op1 d1 where w: "fold (Write now) chunks (op0, d0) = (op1, d1)" by force
  have o0: "openPut op0 d0 []" "tmpBlobFile op0 = tmpName suffx" "finalBlobPath op0 = blobName key"
    "\<And>m. m \<noteq> tmpName suffx \<Longrightarrow> map_of d0 m = map_of d m"
    using p by (auto simp: Put_def Let_def openPut_def update_conv')
  have o1: "openPut op1 d1 (concat chunks)" "tmpBlobFile op1 = tmpName suffx"
    "finalBlobPath op1 = blobName key" "\<And>m. m \<noteq> tmpName suffx \<Longrightarrow> map_of d1 m = map_of d0 m"
    using fold_Write_open [OF o0(1) w] o0 by auto
  show ?thesis
    using Finalize_open [OF o1(1), of now n] o1 o0(4) blobName_not_tmp
    by (simp add: putBlob_def p w Let_def)
qed

text \<open>Blobs by keys, as the interface sees them.\<close>

definition getBlob :: "dir \<Rightarrow> string \<Rightarrow> string option" where
  "getBlob d key = (case Get d key of Inl _ \<Rightarrow> None | Inr f \<Rightarrow> Some (fContent f))"

lemma getBlob_map: "getBlob d key = map_option fContent (map_of d (blobName key))"
  by (simp add: getBlob_def Get_def split: option.split)

interpretation dirStore: blob_store getBlob "putBlob suffx now" Delete blobName concat "\<lambda>_. True"
  for suffx now
  by unfold_locales (auto simp: getBlob_map putBlob_content Delete_def delete_conv' blobName_not_tmp)

section \<open>Interleaved operations\<close>

text \<open>
  Several put operations and deletions that interleave, each operation of the package being one
  step. \<open>csOps\<close> pairs an open put operation with the bytes written to it, \<open>csDone\<close> lists the names and
  contents of the finalized ones; a put operation may be given up at any time.
\<close>

record storeState =
  csDir :: dir
  csOps :: "(putOperation \<times> string) list"
  csDone :: "(string \<times> string) list"

inductive cacheStep :: "storeState \<Rightarrow> storeState \<Rightarrow> bool" where
  put_step: "map_of (csDir s) (tmpName suffx) = None \<Longrightarrow> Put suffx now key (csDir s) = (op, d) \<Longrightarrow>
    cacheStep s (s\<lparr>csDir := d, csOps := (op, []) # csOps s\<rparr>)"
| write_step: "csOps s = xs @ (op, bytes) # ys \<Longrightarrow> Write now p (op, csDir s) = (op', d) \<Longrightarrow>
    cacheStep s (s\<lparr>csDir := d, csOps := xs @ (op', bytes @ p) # ys\<rparr>)"
| finalize_step: "csOps s = xs @ (op, bytes) # ys \<Longrightarrow>
    cacheStep s (s\<lparr>csDir := Finalize now op (csDir s), csOps := xs @ ys,
      csDone := (finalBlobPath op, bytes) # csDone s\<rparr>)"
| abandon_step: "csOps s = xs @ (op, bytes) # ys \<Longrightarrow> cacheStep s (s\<lparr>csOps := xs @ ys\<rparr>)"
| delete_step: "cacheStep s (s\<lparr>csDir := Delete key (csDir s)\<rparr>)"

inductive_cases cacheStepE: "cacheStep s s'"

definition isTmp :: "string \<Rightarrow> bool" where
  "isTmp n = (\<exists>suffx. n = tmpName suffx)"

definition storeInv :: "storeState \<Rightarrow> bool" where
  "storeInv s =
     ((\<forall>(op, bytes) \<in> set (csOps s). openPut op (csDir s) bytes \<and> isTmp (tmpBlobFile op) \<and> \<not> isTmp (finalBlobPath op)) \<and>
      distinct (map (tmpBlobFile \<circ> fst) (csOps s)) \<and>
      (\<forall>n f. map_of (csDir s) n = Some f \<longrightarrow> \<not> isTmp n \<longrightarrow> (n, fContent f) \<in> set (csDone s)))"

lemma isTmp_blobName: "\<not> isTmp (blobName key)"
  using blobName_not_tmp by (auto simp: isTmp_def)

lemma openPut_cong: "map_of d' (tmpBlobFile op) = map_of d (tmpBlobFile op) \<Longrightarrow> openPut op d' bytes = openPut op d bytes"
  by (simp add: openPut_def)

lemma storeInv_open:
  "storeInv s \<Longrightarrow> (op, bytes) \<in> set (csOps s) \<Longrightarrow>
     openPut op (csDir s) bytes \<and> isTmp (tmpBlobFile op) \<and> \<not> isTmp (finalBlobPath op)"
  by (auto simp: storeInv_def)

lemma storeInv_blob:
  "storeInv s \<Longrightarrow> map_option fContent (map_of (csDir s) n) = Some c \<Longrightarrow> \<not> isTmp n \<Longrightarrow> (n, c) \<in> set (csDone s)"
  by (auto simp: storeInv_def)

lemma cacheInvI:
  assumes "\<And>op bytes. (op, bytes) \<in> set (csOps s) \<Longrightarrow>
      openPut op (csDir s) bytes \<and> isTmp (tmpBlobFile op) \<and> \<not> isTmp (finalBlobPath op)"
    and "distinct (map (tmpBlobFile \<circ> fst) (csOps s))"
    and "\<And>n f. map_of (csDir s) n = Some f \<Longrightarrow> \<not> isTmp n \<Longrightarrow> (n, fContent f) \<in> set (csDone s)"
  shows "storeInv s"
  using assms by (auto simp: storeInv_def)

lemma storeInv_distinct: "storeInv s \<Longrightarrow> distinct (map (tmpBlobFile \<circ> fst) (csOps s))"
  by (simp add: storeInv_def)

lemma distinct_mid: "distinct (map g (xs @ x # ys)) \<Longrightarrow> y \<in> set (xs @ ys) \<Longrightarrow> g y \<noteq> g x"
  by (auto simp: image_iff)

lemma storeInv_put:
  assumes "storeInv s" and "map_of (csDir s) (tmpName suffx) = None" and "Put suffx now key (csDir s) = (op, d)"
  shows "storeInv (s\<lparr>csDir := d, csOps := (op, []) # csOps s\<rparr>)"
proof -
  have op: "tmpBlobFile op = tmpName suffx" "finalBlobPath op = blobName key" "openPut op d []"
    "d = mset_key (tmpName suffx) \<lparr>fContent = [], fTime = now, fIsDir = False\<rparr> (csDir s)"
    using assms(3) by (auto simp: Put_def Let_def openPut_def update_conv')
  have fresh: "tmpBlobFile o' \<noteq> tmpName suffx" if "(o', b) \<in> set (csOps s)" for o' b
    using that assms(1,2) by (auto simp: storeInv_def openPut_def)
  have tmp: "isTmp (tmpName suffx)" by (auto simp: isTmp_def)
  have "openPut o' d b" if "(o', b) \<in> set (csOps s)" for o' b
    using that assms(1) fresh [OF that] openPut_cong [of d o' "csDir s"] by (auto simp: storeInv_def op(4) update_conv')
  moreover have "(n, fContent f) \<in> set (csDone s)" if "map_of d n = Some f" "\<not> isTmp n" for n f
    using that assms(1) tmp by (auto simp: storeInv_def op(4) update_conv' split: if_splits)
  moreover have "tmpBlobFile op \<notin> (tmpBlobFile \<circ> fst) ` set (csOps s)"
    using fresh op(1) by (auto simp: image_iff split: prod.splits) (metis prod.collapse)
  ultimately show ?thesis
    using assms(1) op(1-3) tmp isTmp_blobName by (simp add: storeInv_def case_prod_unfold)
qed

lemma storeInv_write:
  assumes "storeInv s" and "csOps s = xs @ (op, bytes) # ys" and "Write now p (op, csDir s) = (op', d)"
  shows "storeInv (s\<lparr>csDir := d, csOps := xs @ (op', bytes @ p) # ys\<rparr>)"
proof -
  have "openPut op (csDir s) bytes" using assms(1,2) by (auto simp: storeInv_def)
  from Write_open [OF this assms(3)]
  have w: "openPut op' d (bytes @ p)" "tmpBlobFile op' = tmpBlobFile op" "finalBlobPath op' = finalBlobPath op"
    "\<And>n. n \<noteq> tmpBlobFile op \<Longrightarrow> map_of d n = map_of (csDir s) n" by auto
  have other: "openPut o' d b" if "(o', b) \<in> set (xs @ ys)" for o' b
  proof -
    have "tmpBlobFile o' \<noteq> tmpBlobFile op" 
      using that assms(1,2) distinct_mid [of "tmpBlobFile \<circ> fst" xs "(op, bytes)" ys "(o', b)"] by (simp add: storeInv_def)
    then show ?thesis
      using that assms(2) storeInv_open [OF assms(1), of o' b] w(4) openPut_cong [of d o' "csDir s"] by auto
  qed
  have "isTmp (tmpBlobFile op)" using assms(1,2) by (auto simp: storeInv_def)
  then have blobs: "(n, fContent f) \<in> set (csDone s)" if "map_of d n = Some f" "\<not> isTmp n" for n f
    using that storeInv_blob [OF assms(1), of n "fContent f"] w(4) [of n] by (cases "n = tmpBlobFile op") auto
  show ?thesis
  proof (rule cacheInvI, goal_cases)
    case (1 o' b)
    then show ?case
      using storeInv_open [OF assms(1), of op bytes] storeInv_open [OF assms(1), of o' b] assms(2) w(1-3) other [of o' b]
      by auto
  next
    case 2
    then show ?case using storeInv_distinct [OF assms(1)] assms(2) w(2) by simp
  qed (use blobs in simp)
qed

lemma storeInv_finalize:
  assumes "storeInv s" and "csOps s = xs @ (op, bytes) # ys"
  shows "storeInv (s\<lparr>csDir := Finalize now op (csDir s), csOps := xs @ ys,
    csDone := (finalBlobPath op, bytes) # csDone s\<rparr>)"
proof -
  let ?d = "Finalize now op (csDir s)"
  have op: "openPut op (csDir s) bytes" "isTmp (tmpBlobFile op)" "\<not> isTmp (finalBlobPath op)"
    using assms by (auto simp: storeInv_def)
  then have "finalBlobPath op \<noteq> tmpBlobFile op" by auto
  then have fin: "map_option fContent (map_of ?d n) =
    (if n = finalBlobPath op then Some bytes else if n = tmpBlobFile op then None else map_option fContent (map_of (csDir s) n))" for n
    using Finalize_open [OF op(1)] by blast
  have other: "openPut o' ?d b" if "(o', b) \<in> set (xs @ ys)" for o' b
  proof -
    have ne: "tmpBlobFile o' \<noteq> tmpBlobFile op" 
      using that assms distinct_mid [of "tmpBlobFile \<circ> fst" xs "(op, bytes)" ys "(o', b)"] by (simp add: storeInv_def)
    have o': "openPut o' (csDir s) b" "isTmp (tmpBlobFile o')" using that assms by (auto simp: storeInv_def)
    then obtain f where "map_of (csDir s) (tmpBlobFile o') = Some f" "fContent f @ tmpBlobBuffer o' = b"
      by (auto simp: openPut_def)
    moreover have "tmpBlobFile o' \<noteq> finalBlobPath op" using o'(2) op(3) by auto
    ultimately show ?thesis using fin [of "tmpBlobFile o'"] ne by (auto simp: openPut_def)
  qed
  have blobs: "(n, fContent f) \<in> set ((finalBlobPath op, bytes) # csDone s)" if "map_of ?d n = Some f" "\<not> isTmp n" for n f
    using that fin [of n] storeInv_blob [OF assms(1), of n "fContent f"] by (auto split: if_splits)
  show ?thesis
  proof (rule cacheInvI, goal_cases)
    case (1 o' b)
    then show ?case using storeInv_open [OF assms(1), of o' b] assms(2) other [of o' b] by auto
  next
    case 2
    then show ?case using storeInv_distinct [OF assms(1)] assms(2) by simp
  qed (use blobs in simp)
qed

lemma storeInv_delete:
  assumes "storeInv s"
  shows "storeInv (s\<lparr>csDir := Delete key (csDir s)\<rparr>)"
proof -
  have "openPut op (Delete key (csDir s)) bytes" if "(op, bytes) \<in> set (csOps s)" for op bytes
  proof -
    have "tmpBlobFile op \<noteq> blobName key" using that assms isTmp_blobName by (auto simp: storeInv_def)
    then show ?thesis
      using that assms openPut_cong [of "Delete key (csDir s)" op "csDir s"] by (auto simp: storeInv_def Delete_def delete_conv')
  qed
  then show ?thesis using assms by (auto simp: storeInv_def Delete_def delete_conv' split: if_splits)
qed

lemma storeInv_step: "cacheStep s s' \<Longrightarrow> storeInv s \<Longrightarrow> storeInv s'"
proof (erule cacheStepE, goal_cases)
  case (1 suffx now key op d)
  then show ?case using storeInv_put by blast
next
  case (2 xs op bytes ys now p op' d)
  then show ?case using storeInv_write by blast
next
  case (3 xs op bytes ys now)
  then show ?case using storeInv_finalize by blast
next
  case (4 xs op bytes ys)
  then show ?case by (auto simp: storeInv_def)
next
  case (5 key)
  then show ?case using storeInv_delete by blast
qed

section \<open>Properties\<close>

interpretation cacheSystem: transition_system cacheStep "\<lambda>s. s = \<lparr>csDir = [], csOps = [], csDone = []\<rparr>" storeInv
  by unfold_locales (simp add: storeInv_def, rule storeInv_step)

text \<open>
  C10. However put operations and deletions interleave, and whichever are given up half-way: what
  \<open>Get\<close> returns for a key is a complete blob, the content of a put operation for the file of this key
  that was finalized. A reader never sees a partly written blob.
\<close>

theorem no_partial_blob:
  assumes "cacheStep\<^sup>*\<^sup>* \<lparr>csDir = [], csOps = [], csDone = []\<rparr> s" and "Get (csDir s) key = Inr f"
  shows "(blobName key, fContent f) \<in> set (csDone s)"
proof -
  have "storeInv s" by (rule cacheSystem.reachable_inv [OF refl assms(1)])
  then show ?thesis
    using assms(2) isTmp_blobName by (auto simp: Get_def storeInv_def split: option.splits)
qed

theorem no_partial_blob_witness:
  "\<exists>s. cacheStep\<^sup>*\<^sup>* \<lparr>csDir = [], csOps = [], csDone = []\<rparr> s \<and> is_ok (Get (csDir s) ''k'') \<and> (''k'', []) \<in> set (csDone s)"
proof -
  let ?s0 = "\<lparr>csDir = [], csOps = [], csDone = []\<rparr>"
  obtain op d where p: "Put ''1'' 0 ''k'' [] = (op, d)" by force
  let ?s1 = "\<lparr>csDir = d, csOps = [(op, [])], csDone = []\<rparr>"
  let ?s2 = "\<lparr>csDir = Finalize 0 op d, csOps = [], csDone = [(finalBlobPath op, [])]\<rparr>"
  have "cacheStep ?s0 ?s1" using cacheStep.put_step [of ?s0 "''1''" 0 "''k''" op d] p by simp
  moreover have "cacheStep ?s1 ?s2" using cacheStep.finalize_step [of ?s1 "[]" op "[]" "[]" 0] by simp
  ultimately have run: "cacheStep\<^sup>*\<^sup>* ?s0 ?s2" by (metis (no_types) converse_rtranclp_into_rtranclp rtranclp.rtrancl_refl)
  have b: "blobName ''k'' = ''k''" by code_simp
  let ?f = "\<lparr>fContent = [], fTime = 0, fIsDir = False\<rparr>"
  have "Get (Finalize 0 op d) ''k'' = Inr ?f"
    using p b by (auto simp: Get_def Put_def Let_def Finalize_def Rename_def update_conv' tmpName_def)
  then show ?thesis
    using no_partial_blob [OF run, of "''k''" ?f] run b by (intro exI [of _ ?s2]) simp
qed

text \<open>One operation of a history: a put in chunks, or a deletion.\<close>

definition cacheOp :: "string \<Rightarrow> int \<Rightarrow> string \<times> string list option \<Rightarrow> dir \<Rightarrow> dir" where
  "cacheOp suffx now p d = (case snd p of Some chunks \<Rightarrow> putBlob suffx now (fst p) chunks d | None \<Rightarrow> Delete (fst p) d)"

text \<open>
  C38. After any history of puts and deletions, each put in chunks of its own, a key has the content of
  the last operation on the file of this key: the concatenated chunks of a put, and nothing after a
  deletion.
\<close>

theorem last_operation_counts:
  assumes "blobName key \<notin> (blobName \<circ> fst) ` set later"
  shows "map_sum id fContent (Get (fold (cacheOp suffx now) (earlier @ (key, v) # later) d) key) =
    (case v of Some chunks \<Rightarrow> Inr (concat chunks) | None \<Rightarrow> Inl (Plain ''blob with the specified key not found'' []))"
proof -
  have step: "cacheOp suffx now = dirStore.step suffx now"
    by (auto simp: cacheOp_def dirStore.step_def fun_eq_iff)
  have "getBlob (fold (cacheOp suffx now) (earlier @ (key, v) # later) d) key = map_option concat v"
    unfolding step using dirStore.last_step_counts [of key later "(key, v)"] assms by simp
  then show ?thesis
    by (cases v) (auto simp: getBlob_map Get_def split: option.splits)
qed

theorem last_operation_counts_witness:
  "map_sum id fContent (Get (fold (cacheOp ''1'' 0) ([(''k'', None)] @ (''k'', Some [''a'', ''b'']) # [(''j'', Some [''c''])]) []) ''k'')
     = Inr ''ab''"
proof -
  have b: "blobName ''k'' = ''k''" "blobName ''j'' = ''j''" by code_simp+
  show ?thesis using last_operation_counts [of "''k''" "[(''j'', Some [''c''])]" "''1''" 0 "[(''k'', None)]" "Some [''a'', ''b'']" "[]"]
    by (simp add: b)
qed

section \<open>Divergences\<close>

text \<open>
  The lookup by prefix returns the oldest match and not the newest, and it finds temporary files of
  puts that are not finished.
\<close>

lemma prefix_returns_oldest:
  "map_sum id (fContent \<circ> snd) (FindByPrefix [(''k-1'', \<lparr>fContent = ''old'', fTime = 1, fIsDir = False\<rparr>), (''k-2'', \<lparr>fContent = ''new'', fTime = 2, fIsDir = False\<rparr>)] ''k-'')
     = Inr ''old''"
  by code_simp

lemma empty_prefix_returns_partial_blob:
  "map_sum id (fContent \<circ> snd) (FindByPrefix (snd (Put ''1'' 5 ''k'' [])) []) = Inr []"
  by code_simp

end
