(* ===== verification/Paths.thy ===== *)
theory Paths
  imports GoBase
begin

text \<open>
  The package \<open>path/filepath\<close> on Unix as far as the program uses it: cleaning and joining of paths, with the facts
  about components that the theories share.
\<close>

section \<open>filepath.Clean\<close>

text \<open>The components of a cleaned path, in reverse; \<open>rooted\<close> paths have nothing above their root.\<close>

fun cleanComps :: "bool \<Rightarrow> string list \<Rightarrow> string list \<Rightarrow> string list" where
  "cleanComps rooted out [] = out"
| "cleanComps rooted out (c # cs) =
     (if c = [] \<or> c = ''.'' then cleanComps rooted out cs
      else if c = ''..'' then
        (if out \<noteq> [] \<and> hd out \<noteq> ''..'' then cleanComps rooted (tl out) cs
         else if rooted then cleanComps rooted out cs
         else cleanComps rooted (''..'' # out) cs)
      else cleanComps rooted (c # out) cs)"

definition cleanPath :: "string \<Rightarrow> string" where
  "cleanPath p =
     (let rooted = HasPrefix p ''/''; comps = rev (cleanComps rooted [] (SplitC (CHR ''/'') p))
      in if rooted then ''/'' @ Join ''/'' comps else if comps = [] then ''.'' else Join ''/'' comps)"

text \<open>\<open>filepath.Join\<close>: empty elements are left out, the rest is joined and cleaned.\<close>

definition filepathJoin :: "string list \<Rightarrow> string" where
  "filepathJoin elems =
     (case filter (\<lambda>e. e \<noteq> []) elems of [] \<Rightarrow> [] | es \<Rightarrow> cleanPath (Join ''/'' es))"

text \<open>\<open>filepath.Dir\<close> on Unix.\<close>

definition filepathDir :: "string \<Rightarrow> string" where
  "filepathDir p = cleanPath (rev (dropWhile (\<lambda>c. c \<noteq> CHR ''/'') (rev p)))"

section \<open>Facts\<close>

lemma cleanComps_nonempty: "[] \<notin> set out \<Longrightarrow> [] \<notin> set (cleanComps rooted out cs)"
  by (induction cs arbitrary: out rooted) (auto simp: neq_Nil_conv)

lemma Join_ne: "[] \<notin> set xs \<Longrightarrow> xs \<noteq> [] \<Longrightarrow> Join sep xs \<noteq> []"
  by (induction sep xs rule: Join.induct) auto

lemma cleanPath_ne: "cleanPath p \<noteq> []"
  using cleanComps_nonempty [of "[]" "HasPrefix p ''/''" "SplitC (CHR ''/'') p"]
    Join_ne [of "rev (cleanComps (HasPrefix p ''/'') [] (SplitC (CHR ''/'') p))" "''/''"]
  by (auto simp: cleanPath_def Let_def)

lemma filepathJoin_ne: "d \<noteq> [] \<Longrightarrow> filepathJoin [d, n] \<noteq> []"
  by (simp add: filepathJoin_def cleanPath_ne)

lemma cleanComps_append: "cleanComps rooted out (xs @ ys) = cleanComps rooted (cleanComps rooted out xs) ys"
  by (induction rooted out xs rule: cleanComps.induct) auto

definition properComps :: "string list \<Rightarrow> string list" where
  "properComps cs = filter (\<lambda>c. c \<noteq> [] \<and> c \<noteq> ''.'') cs"

lemma cleanComps_proper: "''..'' \<notin> set cs \<Longrightarrow> cleanComps rooted out cs = rev (properComps cs) @ out"
  by (induction cs arbitrary: out) (auto simp: properComps_def)

lemma SplitC_append: "SplitC sep (a @ sep # b) = SplitC sep a @ SplitC sep b"
proof (induction a)
  case (Cons c a)
  obtain p ps where "SplitC sep a = p # ps" by (cases "SplitC sep a") auto
  then show ?case using Cons by auto
qed simp

lemma properComps_no_sep: "c \<in> set (properComps (SplitC sep p)) \<Longrightarrow> sep \<notin> set c \<and> c \<noteq> [] \<and> c \<noteq> ''.''"
  by (auto simp: properComps_def dest: SplitC_no_sep)

lemma properComps_idem: "properComps (properComps cs) = properComps cs"
  by (simp add: properComps_def)

lemma cleanPath_proper:
  "HasPrefix s ''/'' \<Longrightarrow> ''..'' \<notin> set (SplitC (CHR ''/'') s) \<Longrightarrow>
     cleanPath s = ''/'' @ Join ''/'' (properComps (SplitC (CHR ''/'') s))"
  by (simp add: cleanPath_def Let_def cleanComps_proper)

end
