(* ===== verification/Isolation.thy ===== *)
theory Isolation
  imports Complex_Main Paths
begin

text \<open>
  Packages \<open>internal/worker/security\<close> and \<open>internal/executor/instance/persistentworker\<close> (the factory):
  which isolations and images a persistent worker accepts. The wildcard matcher (go-wildcard) is an
  argument, as are the architecture and the creation of a working directory.
\<close>

section \<open>Isolations\<close>

text \<open>A floating point number: a finite value, an infinity with its sign, or not a number.\<close>

datatype gofloat = FloatFin rat | FloatInf bool | FloatNaN

datatype isoPlatform = PlatformLinux | PlatformDarwin | PlatformWindows

record parallelsIsolation =
  piImage :: string
  piUser :: string
  piPassword :: string
  piPlatform :: isoPlatform

record isoVolume =
  ivSource :: string
  ivTarget :: string
  ivReadOnly :: bool

record containerIsolation =
  ciImage :: string
  ciCpu :: gofloat
  ciMemory :: "32 word"
  ciVolumes :: "isoVolume list"

record tartVolume =
  tvName :: string
  tvSource :: string
  tvTarget :: string
  tvReadOnly :: bool
  tvCleanup :: bool

record tartIsolation =
  tiImage :: string
  tiUser :: string
  tiPassword :: string
  tiPort :: "32 word"
  tiCpu :: "32 word"
  tiMemory :: "32 word"
  tiVolumes :: "tartVolume list"
  tiSoftnet :: bool
  tiNested :: bool
  tiDisplay :: string
  tiDiskSize :: "32 word"
  tiSyncTime :: bool

datatype vetuNetworking = Bridged string | HostNetworking | DefaultNetworking

record vetuIsolation =
  viImage :: string
  viUser :: string
  viPassword :: string
  viPort :: "32 word"
  viCpu :: "32 word"
  viMemory :: "32 word"
  viNetworking :: vetuNetworking
  viDiskSize :: "32 word"
  viSyncTime :: bool
  viStdout :: bool

datatype isolation =
    IsoNone
  | IsoParallels parallelsIsolation
  | IsoContainer containerIsolation
  | IsoTart tartIsolation
  | IsoVetu vetuIsolation
  | IsoUnknown

section \<open>Security settings\<close>

record allowedVolume =
  avSource :: string
  avForceReadOnly :: bool

record tartPolicy =
  tpAllowedImages :: "string list"
  tpAllowedVolumes :: "allowedVolume list"
  tpForceSoftnet :: bool
  tpSoftnetAllow :: "string list"

record allowedIsolations =
  aiNone :: bool
  aiContainer :: bool
  aiParallels :: bool
  aiTart :: "tartPolicy option"
  aiVetu :: "string list option"

type_synonym security = "allowedIsolations option"

definition NoSecurity :: security where
  "NoSecurity = None"

definition NoSecurityAllowAllVolumes :: security where
  "NoSecurityAllowAllVolumes = Some \<lparr>aiNone = True, aiContainer = True, aiParallels = True,
     aiTart = Some \<lparr>tpAllowedImages = [], tpAllowedVolumes = [\<lparr>avSource = ''/*'', avForceReadOnly = False\<rparr>],
       tpForceSoftnet = False, tpSoftnetAllow = []\<rparr>,
     aiVetu = Some []\<rparr>"

definition NonePolicy :: "security \<Rightarrow> bool" where
  "NonePolicy s = (case s of None \<Rightarrow> True | Some a \<Rightarrow> aiNone a)"

definition ContainerPolicy :: "security \<Rightarrow> bool" where
  "ContainerPolicy s = (case s of None \<Rightarrow> True | Some a \<Rightarrow> aiContainer a)"

definition ParallelsPolicy :: "security \<Rightarrow> bool" where
  "ParallelsPolicy s = (case s of None \<Rightarrow> True | Some a \<Rightarrow> aiParallels a)"

definition TartPolicy :: "security \<Rightarrow> tartPolicy option" where
  "TartPolicy s =
     (case s of
        None \<Rightarrow> Some \<lparr>tpAllowedImages = [], tpAllowedVolumes = [], tpForceSoftnet = False, tpSoftnetAllow = []\<rparr>
      | Some a \<Rightarrow> aiTart a)"

definition VetuPolicy :: "security \<Rightarrow> string list option" where
  "VetuPolicy s = (case s of None \<Rightarrow> Some [] | Some a \<Rightarrow> aiVetu a)"

definition ImageAllowed :: "(string \<Rightarrow> string \<Rightarrow> bool) \<Rightarrow> string list \<Rightarrow> string \<Rightarrow> bool" where
  "ImageAllowed matchSimple allowed name = (allowed = [] \<or> list_ex (\<lambda>a. matchSimple a name) allowed)"

text \<open>The source of a volume as it is compared: cleaned, with a separator at its end preserved.\<close>

definition cleanedSource :: "string \<Rightarrow> string" where
  "cleanedSource source = (if HasSuffix source ''/'' then cleanPath source @ ''/'' else cleanPath source)"

definition VolumeAllowed :: "(string \<Rightarrow> string \<Rightarrow> bool) \<Rightarrow> tartPolicy \<Rightarrow> tartVolume \<Rightarrow> bool" where
  "VolumeAllowed matchSimple policy v =
     (case find (\<lambda>a. matchSimple (avSource a) (cleanedSource (tvSource v))) (tpAllowedVolumes policy) of
        None \<Rightarrow> False
      | Some a \<Rightarrow> if avForceReadOnly a then tvReadOnly v else True)"

section \<open>The factory\<close>

record tart =
  tVmName :: string
  tSshUser :: string
  tSshPassword :: string
  tSshPort :: "16 word"
  tCpu :: "32 word"
  tMemory :: "32 word"
  tSoftnet :: bool
  tSoftnetAllow :: "string list"
  tNested :: bool
  tDisplay :: string
  tVolumes :: "tartVolume list"
  tDiskSize :: "32 word"
  tSyncTime :: bool

record vetu =
  vVmName :: string
  vSshUser :: string
  vSshPassword :: string
  vSshPort :: "16 word"
  vCpu :: "32 word"
  vMemory :: "32 word"
  vDiskSize :: "32 word"
  vBridged :: string
  vHostNetworking :: bool
  vResourceModifier :: "nat option"
  vSyncTime :: bool
  vStdout :: bool

text \<open>
  The instances: the working directory that was created for it, the parameters of the virtual machine
  or of the container. A resource modifier is named by its index in the manager.
\<close>

datatype isoInst =
    NoneInst string
  | ParallelsInst string string string string
  | ContainerIsoInst containerIsolation string
  | TartInst tart
  | VetuInst vetu

text \<open>The options of package \<open>tart\<close> and of package \<open>vetu\<close>.\<close>

definition tartWithSoftnet :: "string list \<Rightarrow> tart \<Rightarrow> tart" where
  "tartWithSoftnet allow t = t\<lparr>tSoftnet := True, tSoftnetAllow := allow\<rparr>"

definition tartWithNested :: "tart \<Rightarrow> tart" where
  "tartWithNested t = t\<lparr>tNested := True\<rparr>"

definition tartWithDisplay :: "string \<Rightarrow> tart \<Rightarrow> tart" where
  "tartWithDisplay d t = t\<lparr>tDisplay := d\<rparr>"

definition tartWithVolumes :: "tartVolume list \<Rightarrow> tart \<Rightarrow> tart" where
  "tartWithVolumes vs t = t\<lparr>tVolumes := vs\<rparr>"

definition tartWithDiskSize :: "32 word \<Rightarrow> tart \<Rightarrow> tart" where
  "tartWithDiskSize n t = t\<lparr>tDiskSize := n\<rparr>"

definition tartWithSyncTimeOverSSH :: "tart \<Rightarrow> tart" where
  "tartWithSyncTimeOverSSH t = t\<lparr>tSyncTime := True\<rparr>"

definition vetuWithBridgedInterface :: "string \<Rightarrow> vetu \<Rightarrow> vetu" where
  "vetuWithBridgedInterface i v = v\<lparr>vBridged := i\<rparr>"

definition vetuWithHostNetworking :: "vetu \<Rightarrow> vetu" where
  "vetuWithHostNetworking v = v\<lparr>vHostNetworking := True\<rparr>"

definition vetuWithDiskSize :: "32 word \<Rightarrow> vetu \<Rightarrow> vetu" where
  "vetuWithDiskSize n v = v\<lparr>vDiskSize := n\<rparr>"

definition vetuWithSyncTimeOverSSH :: "vetu \<Rightarrow> vetu" where
  "vetuWithSyncTimeOverSSH v = v\<lparr>vSyncTime := True\<rparr>"

definition vetuWithStandardOutputToLogs :: "vetu \<Rightarrow> vetu" where
  "vetuWithStandardOutputToLogs v = v\<lparr>vStdout := True\<rparr>"

definition tartNew ::
  "string \<Rightarrow> string \<Rightarrow> string \<Rightarrow> 16 word \<Rightarrow> 32 word \<Rightarrow> 32 word \<Rightarrow> (tart \<Rightarrow> tart) list \<Rightarrow> tart" where
  "tartNew vmName sshUser sshPassword sshPort cpu memory opts =
     (let t = fold (\<lambda>opt. opt) opts
        \<lparr>tVmName = vmName, tSshUser = sshUser, tSshPassword = sshPassword, tSshPort = sshPort, tCpu = cpu,
         tMemory = memory, tSoftnet = False, tSoftnetAllow = [], tNested = False, tDisplay = [], tVolumes = [],
         tDiskSize = 0, tSyncTime = False\<rparr>
      in if tSshPort t = 0 then t\<lparr>tSshPort := 22\<rparr> else t)"

definition vetuNew ::
  "string \<Rightarrow> string \<Rightarrow> string \<Rightarrow> 16 word \<Rightarrow> 32 word \<Rightarrow> 32 word \<Rightarrow> nat option \<Rightarrow> (vetu \<Rightarrow> vetu) list \<Rightarrow> vetu" where
  "vetuNew vmName sshUser sshPassword sshPort cpu memory resourceModifier opts =
     (let v = fold (\<lambda>opt. opt) opts
        \<lparr>vVmName = vmName, vSshUser = sshUser, vSshPassword = sshPassword, vSshPort = sshPort, vCpu = cpu,
         vMemory = memory, vDiskSize = 0, vBridged = [], vHostNetworking = False, vResourceModifier = resourceModifier,
         vSyncTime = False, vStdout = False\<rparr>
      in if vSshPort v = 0 then v\<lparr>vSshPort := 22\<rparr> else v)"

definition notAllowed :: "string \<Rightarrow> err" where
  "notAllowed what = Plain ''invalid isolation parameters: %q isolation is not allowed by this Persistent Worker's security settings'' [what]"

definition newTart :: "(string \<Rightarrow> string \<Rightarrow> bool) \<Rightarrow> security \<Rightarrow> tartIsolation \<Rightarrow> isoInst res" where
  "newTart matchSimple sec spec =
     (case TartPolicy sec of
        None \<Rightarrow> Inl (notAllowed ''tart'')
      | Some policy \<Rightarrow>
          if \<not> ImageAllowed matchSimple (tpAllowedImages policy) (tiImage spec) then
            Inl (Plain ''invalid isolation parameters: tart VM image %q is not allowed'' [tiImage spec])
          else (case find (\<lambda>v. \<not> VolumeAllowed matchSimple policy v) (tiVolumes spec) of
                  Some v \<Rightarrow> Inl (Plain ''invalid isolation parameters: volume %q is not allowed''
                    [if tvName v \<noteq> [] then tvName v else tvSource v])
                | None \<Rightarrow>
                    Inr (TartInst (tartNew (tiImage spec) (tiUser spec) (tiPassword spec) (ucast (tiPort spec)) (tiCpu spec) (tiMemory spec)
                      ([tartWithVolumes (tiVolumes spec)]
                       @ (if tiSoftnet spec \<or> tpForceSoftnet policy then [tartWithSoftnet (tpSoftnetAllow policy)] else [])
                       @ (if tiNested spec then [tartWithNested] else [])
                       @ (if tiDisplay spec \<noteq> [] then [tartWithDisplay (tiDisplay spec)] else [])
                       @ (if tiDiskSize spec \<noteq> 0 then [tartWithDiskSize (tiDiskSize spec)] else [])
                       @ (if tiSyncTime spec then [tartWithSyncTimeOverSSH] else []))))))"

definition newVetu :: "(string \<Rightarrow> string \<Rightarrow> bool) \<Rightarrow> security \<Rightarrow> nat option \<Rightarrow> vetuIsolation \<Rightarrow> isoInst res" where
  "newVetu matchSimple sec resourceModifier spec =
     (case VetuPolicy sec of
        None \<Rightarrow> Inl (notAllowed ''vetu'')
      | Some allowed \<Rightarrow>
          if \<not> ImageAllowed matchSimple allowed (viImage spec) then
            Inl (Plain ''invalid isolation parameters: vetu VM image %q is not allowed'' [viImage spec])
          else Inr (VetuInst (vetuNew (viImage spec) (viUser spec) (viPassword spec) (ucast (viPort spec)) (viCpu spec) (viMemory spec)
                 resourceModifier
                 ((case viNetworking spec of
                     Bridged i \<Rightarrow> [vetuWithBridgedInterface i]
                   | HostNetworking \<Rightarrow> [vetuWithHostNetworking]
                   | DefaultNetworking \<Rightarrow> [])
                  @ (if viDiskSize spec \<noteq> 0 then [vetuWithDiskSize (viDiskSize spec)] else [])
                  @ (if viSyncTime spec then [vetuWithSyncTimeOverSSH] else [])
                  @ (if viStdout spec then [vetuWithStandardOutputToLogs] else [])))))"

text \<open>
  What the host contributes: the wildcard matcher, the architecture and the working directory that the
  instances without a virtual machine create.
\<close>

record isoHost =
  ihMatchSimple :: "string \<Rightarrow> string \<Rightarrow> bool"
  ihArch :: string
  ihTempDir :: "string res"

definition noneNew :: "isoHost \<Rightarrow> isoInst res" where
  "noneNew h = (case ihTempDir h of Inl e \<Rightarrow> Inl e | Inr d \<Rightarrow> Inr (NoneInst d))"

definition containerNew :: "isoHost \<Rightarrow> containerIsolation \<Rightarrow> isoInst res" where
  "containerNew h c = (case ihTempDir h of Inl e \<Rightarrow> Inl e | Inr d \<Rightarrow> Inr (ContainerIsoInst c d))"

definition platformString :: "isoPlatform \<Rightarrow> string" where
  "platformString p = (case p of PlatformLinux \<Rightarrow> ''LINUX'' | PlatformDarwin \<Rightarrow> ''DARWIN'' | PlatformWindows \<Rightarrow> ''WINDOWS'')"

definition newInstance :: "isoHost \<Rightarrow> isolation option \<Rightarrow> security \<Rightarrow> nat option \<Rightarrow> isoInst res" where
  "newInstance h spec sec resourceModifier =
     (case spec of
        None \<Rightarrow> if NonePolicy sec then noneNew h else Inl (notAllowed ''none'')
      | Some IsoNone \<Rightarrow> if NonePolicy sec then noneNew h else Inl (notAllowed ''none'')
      | Some (IsoParallels p) \<Rightarrow>
          if \<not> ParallelsPolicy sec then Inl (notAllowed ''parallels'')
          else if piPlatform p \<noteq> PlatformDarwin \<and> piPlatform p \<noteq> PlatformLinux then
            Inl (Plain ''invalid isolation parameters: only Darwin and Linux are currently supported for Parallels'' [])
          else if ihArch h \<noteq> ''amd64'' then
            Inl (Plain ''invalid isolation parameters: only Intel (amd64) is currently supported for Parallels'' [])
          else Inr (ParallelsInst (piImage p) (piUser p) (piPassword p) (ToLower (platformString (piPlatform p))))
      | Some (IsoContainer c) \<Rightarrow>
          if ContainerPolicy sec then containerNew h c else Inl (notAllowed ''container'')
      | Some (IsoTart t) \<Rightarrow> newTart (ihMatchSimple h) sec t
      | Some (IsoVetu v) \<Rightarrow> newVetu (ihMatchSimple h) sec resourceModifier v
      | Some IsoUnknown \<Rightarrow> Inl (Plain ''invalid isolation parameters: unsupported isolation type'' []))"

section \<open>Cleaned paths stay below their root\<close>

definition plainComp :: "string \<Rightarrow> bool" where
  "plainComp c = (c \<noteq> ''..'' \<and> c \<noteq> ''.'' \<and> c \<noteq> [] \<and> CHR ''/'' \<notin> set c)"

lemma cleanComps_rooted:
  assumes "\<forall>c \<in> set out. plainComp c" and "\<forall>c \<in> set cs. CHR ''/'' \<notin> set c"
  shows "\<forall>c \<in> set (cleanComps True out cs). plainComp c"
  using assms
proof (induction cs arbitrary: out)
  case (Cons c cs)
  have tl: "\<forall>c \<in> set (tl out). plainComp c" using Cons.prems(1) by (cases out) auto
  have rest: "\<forall>c \<in> set cs. CHR ''/'' \<notin> set c" "CHR ''/'' \<notin> set c" using Cons.prems(2) by auto
  consider "c = [] \<or> c = ''.''" | "c = ''..''" | "plainComp c" using rest(2) unfolding plainComp_def by blast
  then show ?case
  proof cases
    case 1
    then have "cleanComps True out (c # cs) = cleanComps True out cs" by auto
    then show ?thesis using Cons.IH [OF Cons.prems(1) rest(1)] by simp
  next
    case 2
    then have "cleanComps True out (c # cs) = cleanComps True (tl out) cs \<or> cleanComps True out (c # cs) = cleanComps True out cs"
      by simp
    then show ?thesis using Cons.IH [OF Cons.prems(1) rest(1)] Cons.IH [OF tl rest(1)] by auto
  next
    case 3
    then have eq: "cleanComps True out (c # cs) = cleanComps True (c # out) cs" unfolding plainComp_def by simp
    have "\<forall>d \<in> set (c # out). plainComp d" using 3 Cons.prems(1) by simp
    from Cons.IH [OF this rest(1)] show ?thesis unfolding eq .
  qed
qed simp

lemma cleanPath_rooted:
  assumes "HasPrefix p ''/''"
  shows "\<exists>comps. cleanPath p = ''/'' @ Join ''/'' comps \<and> (\<forall>c \<in> set comps. plainComp c)"
proof -
  have "\<forall>c \<in> set (cleanComps True [] (SplitC (CHR ''/'') p)). plainComp c"
    by (rule cleanComps_rooted) (auto dest: SplitC_no_sep)
  then show ?thesis
    using assms by (intro exI [of _ "rev (cleanComps True [] (SplitC (CHR ''/'') p))"]) (simp add: cleanPath_def Let_def)
qed

section \<open>Properties\<close>

text \<open>What the security settings say about an isolation.\<close>

definition permitted :: "(string \<Rightarrow> string \<Rightarrow> bool) \<Rightarrow> security \<Rightarrow> isolation option \<Rightarrow> bool" where
  "permitted matchSimple sec i =
     (case i of
        None \<Rightarrow> NonePolicy sec
      | Some IsoNone \<Rightarrow> NonePolicy sec
      | Some (IsoParallels _) \<Rightarrow> ParallelsPolicy sec
      | Some (IsoContainer _) \<Rightarrow> ContainerPolicy sec
      | Some (IsoTart t) \<Rightarrow>
          (\<exists>p. TartPolicy sec = Some p \<and> (tpAllowedImages p = [] \<or> (\<exists>a \<in> set (tpAllowedImages p). matchSimple a (tiImage t))) \<and>
            (\<forall>v \<in> set (tiVolumes t). \<exists>a \<in> set (tpAllowedVolumes p). matchSimple (avSource a) (cleanedSource (tvSource v)) \<and>
               (avForceReadOnly a \<longrightarrow> tvReadOnly v)))
      | Some (IsoVetu v) \<Rightarrow>
          (\<exists>allowed. VetuPolicy sec = Some allowed \<and> (allowed = [] \<or> (\<exists>a \<in> set allowed. matchSimple a (viImage v))))
      | Some IsoUnknown \<Rightarrow> False)"

text \<open>The options set exactly what they are named after.\<close>

lemmas tart_options =
  tartWithSoftnet_def tartWithNested_def tartWithDisplay_def tartWithVolumes_def tartWithDiskSize_def
  tartWithSyncTimeOverSSH_def

lemmas vetu_options =
  vetuWithBridgedInterface_def vetuWithHostNetworking_def vetuWithDiskSize_def vetuWithSyncTimeOverSSH_def
  vetuWithStandardOutputToLogs_def

lemma VolumeAllowed_ex:
  "VolumeAllowed matchSimple p v \<Longrightarrow> \<exists>a \<in> set (tpAllowedVolumes p). matchSimple (avSource a) (cleanedSource (tvSource v)) \<and>
     (avForceReadOnly a \<longrightarrow> tvReadOnly v)"
  by (auto simp: VolumeAllowed_def find_Some_iff split: option.splits if_splits)

lemma newTart_permitted:
  "newTart matchSimple sec t = Inr i \<Longrightarrow> permitted matchSimple sec (Some (IsoTart t))"
  by (auto simp: newTart_def permitted_def ImageAllowed_def list_ex_iff find_None_iff
      split: option.splits if_splits dest!: VolumeAllowed_ex)

lemma newVetu_permitted:
  "newVetu matchSimple sec m v = Inr i \<Longrightarrow> permitted matchSimple sec (Some (IsoVetu v))"
  by (auto simp: newVetu_def permitted_def ImageAllowed_def list_ex_iff split: option.splits if_splits)

lemma newInstance_permitted:
  assumes "newInstance h i sec m = Inr inst"
  shows "permitted (ihMatchSimple h) sec i"
proof (cases i)
  case None
  then show ?thesis using assms by (simp add: newInstance_def permitted_def split: if_splits)
next
  case (Some j)
  then show ?thesis using assms newTart_permitted newVetu_permitted
    by (cases j) (simp_all add: newInstance_def permitted_def split: if_splits)
qed

lemma newTart_instance:
  assumes "newTart matchSimple sec spec = Inr (TartInst t)" and "TartPolicy sec = Some p"
  shows "tVmName t = tiImage spec \<and> tVolumes t = tiVolumes spec \<and> tSshPort t \<noteq> 0 \<and>
    tSoftnet t = (tiSoftnet spec \<or> tpForceSoftnet p) \<and> (tSoftnet t \<longrightarrow> tSoftnetAllow t = tpSoftnetAllow p)"
  using assms by (auto simp: newTart_def tartNew_def tart_options Let_def split: if_splits option.splits)

lemma newVetu_instance:
  assumes "newVetu matchSimple sec m spec = Inr (VetuInst v)"
  shows "vVmName v = viImage spec \<and> vResourceModifier v = m \<and> vSshPort v \<noteq> 0"
  using assms by (auto simp: newVetu_def vetuNew_def vetu_options Let_def split: if_splits option.splits vetuNetworking.splits)

text \<open>An instance is of the kind that was asked for.\<close>

lemma newTart_TartInst: "newTart matchSimple sec spec = Inr inst \<Longrightarrow> \<exists>t. inst = TartInst t"
  unfolding newTart_def by (simp split: option.splits if_splits) blast+

lemma newVetu_VetuInst: "newVetu matchSimple sec m spec = Inr inst \<Longrightarrow> \<exists>v. inst = VetuInst v"
  unfolding newVetu_def by (simp split: option.splits if_splits) blast+

lemma newInstance_kind:
  assumes "newInstance h i sec m = Inr inst"
  obtains d where "inst = NoneInst d"
  | a b c d where "inst = ParallelsInst a b c d"
  | c d where "inst = ContainerIsoInst c d"
  | spec t where "i = Some (IsoTart spec)" "inst = TartInst t" "newTart (ihMatchSimple h) sec spec = Inr (TartInst t)"
  | spec v where "i = Some (IsoVetu spec)" "inst = VetuInst v" "newVetu (ihMatchSimple h) sec m spec = Inr (VetuInst v)"
proof (cases i)
  case None
  then show ?thesis using assms that(1) by (auto simp: newInstance_def noneNew_def split: if_splits sum.splits)
next
  case (Some j)
  show ?thesis
  proof (cases j)
    case IsoNone
    then show ?thesis using assms Some that(1) by (auto simp: newInstance_def noneNew_def split: if_splits sum.splits)
  next
    case (IsoParallels p)
    then show ?thesis using assms Some that(2) by (auto simp: newInstance_def split: if_splits)
  next
    case (IsoContainer c)
    then show ?thesis using assms Some that(3) by (auto simp: newInstance_def containerNew_def split: if_splits sum.splits)
  next
    case (IsoTart spec)
    then have "newTart (ihMatchSimple h) sec spec = Inr inst" using assms Some by (simp add: newInstance_def)
    with that(4) IsoTart Some newTart_TartInst [OF this] show ?thesis by metis
  next
    case (IsoVetu spec)
    then have "newVetu (ihMatchSimple h) sec m spec = Inr inst" using assms Some by (simp add: newInstance_def)
    with that(5) IsoVetu Some newVetu_VetuInst [OF this] show ?thesis by metis
  next
    case IsoUnknown
    then show ?thesis using assms Some by (simp add: newInstance_def)
  qed
qed

lemma newInstance_tart:
  assumes "newInstance h i sec m = Inr (TartInst t)"
  obtains spec where "i = Some (IsoTart spec)" "newTart (ihMatchSimple h) sec spec = Inr (TartInst t)"
  using assms by (rule newInstance_kind) (simp_all add: that)

lemma newInstance_vetu:
  assumes "newInstance h i sec m = Inr (VetuInst v)"
  obtains spec where "i = Some (IsoVetu spec)" "newVetu (ihMatchSimple h) sec m spec = Inr (VetuInst v)"
  using assms by (rule newInstance_kind) (simp_all add: that)


abbreviation exampleSecurity :: security where
  "exampleSecurity \<equiv> Some \<lparr>aiNone = False, aiContainer = False, aiParallels = False,
     aiTart = Some \<lparr>tpAllowedImages = [''img''], tpAllowedVolumes = [\<lparr>avSource = ''/tmp'', avForceReadOnly = True\<rparr>],
       tpForceSoftnet = True, tpSoftnetAllow = []\<rparr>, aiVetu = None\<rparr>"

abbreviation exampleTart :: tartIsolation where
  "exampleTart \<equiv> \<lparr>tiImage = ''img'', tiUser = ''admin'', tiPassword = ''admin'', tiPort = 65536, tiCpu = 4, tiMemory = 8,
     tiVolumes = [\<lparr>tvName = [], tvSource = ''/x/../tmp'', tvTarget = [], tvReadOnly = True, tvCleanup = False\<rparr>], tiSoftnet = False,
     tiNested = False, tiDisplay = [], tiDiskSize = 0, tiSyncTime = False\<rparr>"

abbreviation exampleIsoHost :: isoHost where
  "exampleIsoHost \<equiv> \<lparr>ihMatchSimple = (=), ihArch = ''arm64'', ihTempDir = Inr ''/tmp''\<rparr>"


text \<open>Without security settings no volume is allowed at all.\<close>

lemma no_security_no_volumes: "TartPolicy NoSecurity = Some p \<Longrightarrow> \<not> VolumeAllowed matchSimple p v"
  by (auto simp: TartPolicy_def NoSecurity_def VolumeAllowed_def)

text \<open>The port is cut to 16 bits before it is compared with zero: port 65536 becomes the SSH port.\<close>

lemma port_truncated:
  "newTart m sec (spec\<lparr>tiPort := 65536\<rparr>) = Inr (TartInst t) \<Longrightarrow> tSshPort t = 22"
  by (auto simp: newTart_def tartNew_def tart_options Let_def split: if_splits option.splits)

end
