(* ===== verification/Worker.thy ===== *)
theory Worker
  imports Isolation
begin

text \<open>
  Package \<open>internal/worker\<close> (worker.go, task.go), \<open>internal/worker/resourcemodifier\<close> and the state of
  \<open>internal/worker/upstream\<close>: the tasks of a persistent worker and the goroutines that run them, the
  resources they use, the modifiers they lock, the standby instance and a round of polling. Amounts of
  resources are rationals, where the code has 64-bit floating-point numbers. The answers of the service,
  the outcome of a warm-up and of a run and the version library are arguments. Telemetry and logging
  are left out.
\<close>

section \<open>Resource modifiers\<close>

type_synonym resources = "rat gomap"

definition rget :: "resources \<Rightarrow> string \<Rightarrow> rat" where
  "rget m k = (case map_of m k of None \<Rightarrow> 0 | Some v \<Rightarrow> v)"

record modifier =
  modMatch :: resources
  modLocked :: bool

definition modifierMatches :: "modifier \<Rightarrow> resources \<Rightarrow> bool" where
  "modifierMatches m requested =
     list_all (\<lambda>(k, v). case map_of requested k of None \<Rightarrow> False | Some r \<Rightarrow> \<not> v < r) (modMatch m)"

text \<open>\<open>Acquire\<close>: the index of the first modifier that matches and could be locked.\<close>

fun Acquire :: "resources \<Rightarrow> nat \<Rightarrow> modifier list \<Rightarrow> nat option \<times> modifier list" where
  "Acquire requested i [] = (None, [])"
| "Acquire requested i (m # ms) =
     (if modifierMatches m requested \<and> \<not> modLocked m then (Some i, m\<lparr>modLocked := True\<rparr> # ms)
      else let (r, ms') = Acquire requested (i + 1) ms in (r, m # ms'))"

section \<open>The worker\<close>

record standbyParameters =
  spIsolation :: "isolation option"
  spResources :: resources
  spWarmup :: "string option"

record wtask =
  wtUpstream :: nat
  wtCancelled :: bool
  wtResources :: resources

record upstream =
  upWorkerName :: string
  upSessionToken :: string
  upPollInterval :: "32 word"

text \<open>A goroutine that executes \<open>runTask\<close>.\<close>

record goroutine =
  gUpstream :: nat
  gInst :: isoInst
  gCliVersion :: string
  gTaskID :: string
  gClientSecret :: string
  gServerSecret :: string

text \<open>
  An upstream is named by its index. The channel of completions is unbuffered: \<open>wCompletions\<close> are the
  goroutines that wait to send, in the order in which they started to wait.
\<close>

record worker =
  wTasks :: "wtask gomap"
  wGoroutines :: "goroutine list"
  wCompletions :: "string list"
  wUserResources :: "resources option"
  wSecurity :: security
  wModifiers :: "modifier list"
  wStandbyParameters :: "standbyParameters option"
  wStandby :: "isoInst option"
  wPrePull :: "string list option"
  wUpstreams :: "upstream list"

definition addResources :: "(rat \<Rightarrow> rat) \<Rightarrow> resources \<Rightarrow> resources \<Rightarrow> resources" where
  "addResources sign kvs m = fold (\<lambda>(k, v) m. mset_key k (rget m k + sign v) m) kvs m"

definition resourcesInUse :: "worker \<Rightarrow> resources" where
  "resourcesInUse w = fold (\<lambda>(i, t). addResources (\<lambda>v. v) (wtResources t)) (wTasks w) []"

text \<open>Without user-specified resources the map is nil, and storing to it panics.\<close>

definition resourcesNotInUse :: "worker \<Rightarrow> resources res" where
  "resourcesNotInUse w =
     (case wUserResources w of
        None \<Rightarrow> if list_ex (\<lambda>(i, t). wtResources t \<noteq> []) (wTasks w)
                then Inl (Panic ''assignment to entry in nil map'') else Inr []
      | Some available \<Rightarrow> Inr (fold (\<lambda>(i, t). addResources uminus (wtResources t)) (wTasks w) available))"

definition canFitResources :: "worker \<Rightarrow> resources \<Rightarrow> bool res" where
  "canFitResources w requested =
     (case resourcesNotInUse w of
        Inl e \<Rightarrow> Inl e
      | Inr free \<Rightarrow> Inr (list_all (\<lambda>(k, v). \<not> rget free k < v) requested))"

definition runningTasks :: "worker \<Rightarrow> nat \<Rightarrow> string list" where
  "runningTasks w u = map fst (filter (\<lambda>(i, t). wtUpstream t = u) (wTasks w))"

definition oldRunningTasks :: "worker \<Rightarrow> nat \<Rightarrow> int list" where
  "oldRunningTasks w u = List.map_filter (\<lambda>i. case ParseInt i of Inl _ \<Rightarrow> None | Inr n \<Rightarrow> Some n) (runningTasks w u)"

section \<open>Starting and stopping tasks\<close>

text \<open>\<open>Close\<close> of an instance, as far as the worker can see: only a Vetu instance unlocks its modifier.\<close>

definition instModifier :: "isoInst \<Rightarrow> nat option" where
  "instModifier inst = (case inst of VetuInst v \<Rightarrow> vResourceModifier v | _ \<Rightarrow> None)"

definition closeInstance :: "isoInst \<Rightarrow> worker \<Rightarrow> worker" where
  "closeInstance inst w =
     (case instModifier inst of
        None \<Rightarrow> w
      | Some m \<Rightarrow> w\<lparr>wModifiers := (wModifiers w)[m := (wModifiers w ! m)\<lparr>modLocked := False\<rparr>]\<rparr>)"

text \<open>A new instance; a modifier that was acquired stays locked when the creation fails.\<close>

definition createInstance :: "isoHost \<Rightarrow> isolation option \<Rightarrow> resources \<Rightarrow> worker \<Rightarrow> isoInst res \<times> worker" where
  "createInstance h i requested w =
     (let (m, ms) = Acquire requested 0 (wModifiers w)
      in (newInstance h i (wSecurity w) m, w\<lparr>wModifiers := ms\<rparr>))"

definition getInstance :: "isoHost \<Rightarrow> isolation option \<Rightarrow> resources \<Rightarrow> worker \<Rightarrow> isoInst res \<times> worker" where
  "getInstance h i requested w =
     (case wStandby w of
        None \<Rightarrow> createInstance h i requested w
      | Some inst \<Rightarrow>
          (let w' = w\<lparr>wStandby := None\<rparr>
           in case wStandbyParameters w of
                None \<Rightarrow> (Inl (Panic ''nil pointer dereference''), w')
              | Some p \<Rightarrow> if spIsolation p = i then (Inr inst, w')
                           else createInstance h i requested (closeInstance inst w')))"

record agentAwareTask =
  aatTaskId :: string
  aatOldTaskId :: int
  aatClientSecret :: string
  aatServerSecret :: string
  aatCliVersion :: string
  aatIsolation :: "isolation option"
  aatResources :: resources

datatype startResult = AlreadyRunning | StartFailed err | Started isoInst

definition aatID :: "agentAwareTask \<Rightarrow> string" where
  "aatID a = (if aatTaskId a = [] then FormatInt (aatOldTaskId a) else aatTaskId a)"

definition startTask :: "isoHost \<Rightarrow> nat \<Rightarrow> agentAwareTask \<Rightarrow> worker \<Rightarrow> startResult \<times> worker" where
  "startTask h u a w =
     (if mhas (wTasks w) (aatID a) then (AlreadyRunning, w)
      else (let w1 = w\<lparr>wTasks := mset_key (aatID a) \<lparr>wtUpstream = u, wtCancelled = False, wtResources = aatResources a\<rparr> (wTasks w)\<rparr>;
                (r, w2) = getInstance h (aatIsolation a) (aatResources a) w1
            in case r of
                 Inl e \<Rightarrow> (StartFailed e, w2)
               | Inr inst \<Rightarrow>
                   (Started inst, w2\<lparr>wGoroutines := wGoroutines w2 @
                     [\<lparr>gUpstream = u, gInst = inst, gCliVersion = aatCliVersion a, gTaskID = aatID a,
                       gClientSecret = aatClientSecret a, gServerSecret = aatServerSecret a\<rparr>]\<rparr>)))"

definition stopTask :: "string \<Rightarrow> worker \<Rightarrow> worker" where
  "stopTask i w =
     (case map_of (wTasks w) i of
        None \<Rightarrow> w
      | Some t \<Rightarrow> w\<lparr>wTasks := mset_key i (t\<lparr>wtCancelled := True\<rparr>) (wTasks w)\<rparr>)"

text \<open>The completions that wait in the channel are taken one by one.\<close>

definition registerTaskCompletions :: "worker \<Rightarrow> worker" where
  "registerTaskCompletions w =
     w\<lparr>wTasks := fold AList.delete (wCompletions w) (wTasks w), wCompletions := []\<rparr>"

section \<open>Running a task\<close>

text \<open>The identification of a task in a notification: nil when the identifier is not a number.\<close>

definition OldTaskIdentification :: "string \<Rightarrow> string \<Rightarrow> (int \<times> string) option" where
  "OldTaskIdentification taskID clientToken =
     (case ParseInt taskID of Inl _ \<Rightarrow> None | Inr n \<Rightarrow> Some (n, clientToken))"

datatype notification =
    TaskStarted "(int \<times> string) option"
  | TaskFailed "(int \<times> string) option" err
  | TaskStopped "(int \<times> string) option"

record runConfig =
  rcProjectDir :: string
  rcServerSecret :: string
  rcClientSecret :: string
  rcTaskID :: string
  rcAdditionalEnvironment :: env
  rcAgentVersion :: string

record 'v versionLib =
  vlParse :: "string \<Rightarrow> 'v res"
  vlLess :: "'v \<Rightarrow> 'v \<Rightarrow> bool"
  vlString :: "'v \<Rightarrow> string"

definition DefaultAgentVersion :: string where
  "DefaultAgentVersion = ''0.164.2''"

definition GetAgentVersion :: "runConfig \<Rightarrow> string" where
  "GetAgentVersion rc = (if rcAgentVersion rc = [] then DefaultAgentVersion else rcAgentVersion rc)"

definition SetCLIVersionWithoutDowngrade :: "'v versionLib \<Rightarrow> string \<Rightarrow> runConfig \<Rightarrow> err option \<times> runConfig" where
  "SetCLIVersionWithoutDowngrade lib agentVersion rc =
     (if agentVersion = [] then (None, rc)
      else case vlParse lib agentVersion of
             Inl e \<Rightarrow> (Some e, rc)
           | Inr requested \<Rightarrow>
               (case vlParse lib DefaultAgentVersion of
                  Inl e \<Rightarrow> (Some (Panic ''version.Must''), rc)
                | Inr dflt \<Rightarrow>
                    (None, rc\<lparr>rcAgentVersion := vlString lib (if vlLess lib requested dflt then dflt else requested)\<rparr>)))"

text \<open>
  What a run observes: the outcome of the first notification and of the run itself, whether an error is
  (or the context of the task was) a cancellation, the host name in the address of the upstream and the
  trace context.
\<close>

record runObs =
  roUpstreamHost :: string
  roTraceparent :: string
  roTracestate :: string
  roStarted :: "err option"
  roRun :: "isoInst \<Rightarrow> runConfig \<Rightarrow> err option"
  roIsCanceled :: "err \<Rightarrow> bool"
  roContextCanceled :: bool

definition sentryTags :: "worker \<Rightarrow> runObs \<Rightarrow> goroutine \<Rightarrow> env" where
  "sentryTags w ro g =
     [(''cirrus.task_id'', gTaskID g),
      (''cirrus.upstream_worker_name'', upWorkerName (wUpstreams w ! gUpstream g)),
      (''cirrus.upstream_hostname'', roUpstreamHost ro)]"

definition taskRunConfig :: "'v versionLib \<Rightarrow> worker \<Rightarrow> runObs \<Rightarrow> goroutine \<Rightarrow> runConfig" where
  "taskRunConfig lib w ro g =
     snd (SetCLIVersionWithoutDowngrade lib (gCliVersion g)
       \<lparr>rcProjectDir = [], rcServerSecret = gServerSecret g, rcClientSecret = gClientSecret g, rcTaskID = gTaskID g,
        rcAdditionalEnvironment =
          [(''CIRRUS_SENTRY_TAGS'', Join '','' (map (\<lambda>(k, v). k @ ''='' @ v) (sentryTags w ro g))),
           (''TRACEPARENT'', roTraceparent ro), (''TRACESTATE'', roTracestate ro)],
        rcAgentVersion = []\<rparr>)"

definition runNotifications :: "'v versionLib \<Rightarrow> worker \<Rightarrow> runObs \<Rightarrow> goroutine \<Rightarrow> notification list" where
  "runNotifications lib w ro g =
     (let ident = OldTaskIdentification (gTaskID g) (gClientSecret g)
      in TaskStarted ident #
         (if roStarted ro \<noteq> None then []
          else (case roRun ro (gInst g) (taskRunConfig lib w ro g) of
                  None \<Rightarrow> []
                | Some e \<Rightarrow> if \<not> roIsCanceled ro e \<and> \<not> roContextCanceled ro then [TaskFailed ident e] else [])
               @ [TaskStopped ident]))"

text \<open>The deferred function: the instance is closed, then the goroutine offers its completion.\<close>

definition completeTask :: "goroutine \<Rightarrow> worker \<Rightarrow> worker" where
  "completeTask g w =
     (let w' = closeInstance (gInst g) w
      in w'\<lparr>wGoroutines := remove1 g (wGoroutines w), wCompletions := wCompletions w @ [gTaskID g]\<rparr>)"

definition runTask :: "'v versionLib \<Rightarrow> runObs \<Rightarrow> goroutine \<Rightarrow> worker \<Rightarrow> notification list \<times> worker" where
  "runTask lib ro g w = (runNotifications lib w ro g, completeTask g w)"

section \<open>Standby instances\<close>

definition UpdateStandby :: "standbyParameters \<Rightarrow> worker \<Rightarrow> worker" where
  "UpdateStandby p w =
     (case wStandby w of
        None \<Rightarrow> w\<lparr>wStandbyParameters := Some p\<rparr>
      | Some inst \<Rightarrow>
          if wStandbyParameters w \<noteq> Some p
          then (closeInstance inst w)\<lparr>wStandby := None, wStandbyParameters := Some p\<rparr>
          else w\<lparr>wStandbyParameters := Some p\<rparr>)"

text \<open>The image attribute of an instance, and the instances that can be warmed up.\<close>

definition instImage :: "isoInst \<Rightarrow> string option" where
  "instImage inst =
     (case inst of
        NoneInst _ \<Rightarrow> None
      | ParallelsInst img _ _ _ \<Rightarrow> Some img
      | ContainerIsoInst c _ \<Rightarrow> Some (ciImage c)
      | TartInst t \<Rightarrow> Some (tVmName t)
      | VetuInst v \<Rightarrow> Some (vVmName v))"

definition warmable :: "isoInst \<Rightarrow> bool" where
  "warmable inst = (case inst of TartInst _ \<Rightarrow> True | VetuInst _ \<Rightarrow> True | _ \<Rightarrow> False)"

text \<open>\<open>warm\<close> is the outcome of the warm-up of an instance, given whether images are pulled lazily.\<close>

definition tryCreateStandby :: "isoHost \<Rightarrow> (isoInst \<Rightarrow> bool \<Rightarrow> string option \<Rightarrow> err option) \<Rightarrow> worker \<Rightarrow> err option \<times> worker" where
  "tryCreateStandby h warm w =
     (case wStandbyParameters w of
        None \<Rightarrow> (None, w)
      | Some p \<Rightarrow>
          if wStandby w \<noteq> None then (None, w)
          else (case canFitResources w (spResources p) of
                  Inl e \<Rightarrow> (Some e, w)
                | Inr fits \<Rightarrow>
                    if \<not> fits then (None, w)
                    else (let (r, w1) = createInstance h (spIsolation p) (spResources p) w
                          in case r of
                               Inl e \<Rightarrow> (Some e, w1)
                             | Inr inst \<Rightarrow>
                                 (let lazyPull = (case wPrePull w of
                                      None \<Rightarrow> False | Some images \<Rightarrow> list_ex (\<lambda>i. instImage inst = Some i) images)
                                  in if \<not> warmable inst then (Some (Panic ''interface conversion: missing method Warmup''), w1)
                                     else case warm inst lazyPull (spWarmup p) of
                                            Some e \<Rightarrow> (Some e, closeInstance inst w1)
                                          | None \<Rightarrow> (None, w1\<lparr>wStandby := Some inst\<rparr>)))))"

section \<open>Polling\<close>

record pollResponse =
  prPollInterval :: "32 word"
  prTasksToStop :: "string list"
  prOldTaskIdsToStop :: "int list"
  prTasksToStart :: "agentAwareTask list"
  prShutdown :: bool
  prUpdatedStandby :: "standbyParameters list"

text \<open>\<open>Register\<close> (\<open>session\<close> is the answer of the service) and the part of \<open>Poll\<close> that changes the upstream.\<close>

definition upstreamRegister :: "string res \<Rightarrow> upstream \<Rightarrow> err option \<times> upstream" where
  "upstreamRegister session u =
     (if upSessionToken u \<noteq> [] then (None, u)
      else case session of Inl e \<Rightarrow> (Some e, u) | Inr token \<Rightarrow> (None, u\<lparr>upSessionToken := token\<rparr>))"

definition upstreamPoll :: "pollResponse \<Rightarrow> upstream \<Rightarrow> upstream" where
  "upstreamPoll r u =
     (if prPollInterval r \<noteq> 0 \<and> prPollInterval r \<le> 3600 then u\<lparr>upPollInterval := prPollInterval r\<rparr> else u)"

definition changeUpstream :: "nat \<Rightarrow> (upstream \<Rightarrow> upstream) \<Rightarrow> worker \<Rightarrow> worker" where
  "changeUpstream u f w = w\<lparr>wUpstreams := (wUpstreams w)[u := f (wUpstreams w ! u)]\<rparr>"

definition pollIntervalSeconds :: "worker \<Rightarrow> 32 word" where
  "pollIntervalSeconds w =
     fold (\<lambda>u result. if upPollInterval u < result then upPollInterval u else result) (wUpstreams w) 0xFFFFFFFF"

record pollRequest =
  pqRunningTasks :: "string list"
  pqOldRunningTasks :: "int list"
  pqResourcesInUse :: resources
  pqStandby :: "standbyParameters option list"

definition pollRequestOf :: "worker \<Rightarrow> nat \<Rightarrow> pollRequest" where
  "pollRequestOf w u =
     \<lparr>pqRunningTasks = runningTasks w u, pqOldRunningTasks = oldRunningTasks w u, pqResourcesInUse = resourcesInUse w,
      pqStandby = (case wStandby w of None \<Rightarrow> [] | Some _ \<Rightarrow> [wStandbyParameters w])\<rparr>"

datatype pollError = PollFailed err | ErrShutdown

text \<open>
  \<open>host\<close> says what the creation of an instance for a given task observes; \<open>reply\<close> is the answer of the
  service to a request.
\<close>

definition applyResponse :: "(string \<Rightarrow> isoHost) \<Rightarrow> nat \<Rightarrow> pollResponse \<Rightarrow> worker \<Rightarrow> pollError option \<times> worker" where
  "applyResponse host u r w =
     (let w1 = fold stopTask (prTasksToStop r) w;
          w2 = fold (\<lambda>i. stopTask (FormatInt i)) (prOldTaskIdsToStop r) w1;
          w3 = fold (\<lambda>a w. snd (startTask (host (aatID a)) u a w)) (prTasksToStart r) w2
      in if prShutdown r then (Some ErrShutdown, w3)
         else (None, case prUpdatedStandby r of [] \<Rightarrow> w3 | p # _ \<Rightarrow> UpdateStandby p w3))"

definition pollSingleUpstream ::
  "(string \<Rightarrow> isoHost) \<Rightarrow> nat \<Rightarrow> string res \<Rightarrow> (pollRequest \<Rightarrow> pollResponse res) \<Rightarrow> worker \<Rightarrow> pollError option \<times> worker" where
  "pollSingleUpstream host u session reply w =
     (case fst (upstreamRegister session (wUpstreams w ! u)) of
        Some e \<Rightarrow> (None, w)
      | None \<Rightarrow>
          (let w1 = registerTaskCompletions (changeUpstream u (\<lambda>up. snd (upstreamRegister session up)) w)
           in case reply (pollRequestOf w1 u) of
                Inl e \<Rightarrow> (Some (PollFailed e), w1)
              | Inr r \<Rightarrow> applyResponse host u r (changeUpstream u (upstreamPoll r) w1)))"

fun pollAll ::
  "(string \<Rightarrow> isoHost) \<Rightarrow> (nat \<times> string res \<times> (pollRequest \<Rightarrow> pollResponse res)) list \<Rightarrow> worker \<Rightarrow> pollError option \<times> worker" where
  "pollAll host [] w = (None, w)"
| "pollAll host ((u, session, reply) # us) w =
     (case pollSingleUpstream host u session reply w of
        (Some e, w') \<Rightarrow> (Some e, w')
      | (None, w') \<Rightarrow> pollAll host us w')"

definition pollUpstreams ::
  "(string \<Rightarrow> isoHost) \<Rightarrow> (isoInst \<Rightarrow> bool \<Rightarrow> string option \<Rightarrow> err option) \<Rightarrow>
   (string res \<times> (pollRequest \<Rightarrow> pollResponse res)) list \<Rightarrow> worker \<Rightarrow> pollError option \<times> worker" where
  "pollUpstreams host warm replies w =
     (case tryCreateStandby (host ''standby'') warm w of
        (Some e, w') \<Rightarrow> (Some (PollFailed e), w')
      | (None, w') \<Rightarrow> pollAll host (zip [0 ..< length (wUpstreams w')] replies) w')"

text \<open>\<open>SetDisabled\<close>, \<open>Resume\<close> and \<open>Pause\<close>, on the answers of the upstreams in order.\<close>

datatype statusReply = StatusNotFound | StatusError err | StatusDisabled bool

definition SetDisabled :: "string \<Rightarrow> bool \<Rightarrow> statusReply \<Rightarrow> err option" where
  "SetDisabled name disabled reply =
     (case reply of
        StatusNotFound \<Rightarrow> None
      | StatusError e \<Rightarrow> Some (Plain ''upstream failed: failed to set disabled state on upstream %s'' [name])
      | StatusDisabled d \<Rightarrow>
          if d \<noteq> disabled
          then Some (Plain ''upstream failed: failed to set disabled state on upstream %s, expected %t, got %t''
                 [name, FormatBool disabled, FormatBool d])
          else None)"

fun setAllDisabled :: "bool \<Rightarrow> (string \<times> statusReply) list \<Rightarrow> err option" where
  "setAllDisabled disabled [] = None"
| "setAllDisabled disabled ((name, r) # us) =
     (case SetDisabled name disabled r of Some e \<Rightarrow> Some e | None \<Rightarrow> setAllDisabled disabled us)"

definition Resume :: "(string \<times> statusReply) list \<Rightarrow> err option" where
  "Resume replies = setAllDisabled False replies"

text \<open>
  The waiting loop for one upstream, on the answers to its queries: the numbers of running tasks and
  whether the context is done before the next query. \<open>StillWaiting\<close> when the answers end.
\<close>

datatype waitOutcome = WaitIdle | WaitFailed err | WaitCancelled | StillWaiting

fun waitIdle :: "string \<Rightarrow> (nat \<times> nat \<times> bool) res list \<Rightarrow> waitOutcome" where
  "waitIdle name [] = StillWaiting"
| "waitIdle name (Inl e # rs) = WaitFailed (Plain ''upstream %s failed while waiting'' [name])"
| "waitIdle name (Inr (running, oldRunning, ctxDone) # rs) =
     (if running = 0 \<and> oldRunning = 0 then WaitIdle
      else if ctxDone then WaitCancelled else waitIdle name rs)"

fun waitAll :: "(string \<times> (nat \<times> nat \<times> bool) res list) list \<Rightarrow> waitOutcome" where
  "waitAll [] = WaitIdle"
| "waitAll ((name, rs) # us) = (case waitIdle name rs of WaitIdle \<Rightarrow> waitAll us | r \<Rightarrow> r)"

definition Pause ::
  "bool \<Rightarrow> (string \<times> statusReply) list \<Rightarrow> (string \<times> (nat \<times> nat \<times> bool) res list) list \<Rightarrow> waitOutcome" where
  "Pause await replies queries =
     (case setAllDisabled True replies of
        Some e \<Rightarrow> WaitFailed e
      | None \<Rightarrow> if \<not> await then WaitIdle else waitAll queries)"

section \<open>Accounting of resources\<close>

lemma rget_update: "rget (mset_key k v m) k' = (if k' = k then v else rget m k')"
  by (simp add: rget_def update_conv')

lemma rget_Cons: "rget ((k', v) # m) k = (if k = k' then v else rget m k)"
  by (simp add: rget_def)

lemma rget_missing: "k \<notin> fst ` set m \<Longrightarrow> rget m k = 0"
  by (metis map_of_eq_None_iff option.case(1) rget_def)

lemma rget_addResources:
  assumes "wf_map kvs" and "sign 0 = 0"
  shows "rget (addResources sign kvs m) k = rget m k + sign (rget kvs k)"
  using assms(1)
proof (induction kvs arbitrary: m)
  case Nil
  then show ?case using assms(2) by (simp add: addResources_def rget_def)
next
  case (Cons kv kvs)
  obtain k' v where kv: "kv = (k', v)" by (cases kv)
  have "wf_map kvs" and nin: "k' \<notin> fst ` set kvs" using Cons.prems by (auto simp: wf_map_def kv)
  from Cons.IH [OF \<open>wf_map kvs\<close>, of "mset_key k' (rget m k' + sign v) m"]
  have "rget (addResources sign (kv # kvs) m) k = rget (mset_key k' (rget m k' + sign v) m) k + sign (rget kvs k)"
    by (simp add: addResources_def kv)
  then show ?case using rget_missing [OF nin] assms(2) by (auto simp: rget_update kv rget_Cons)
qed

definition used :: "worker \<Rightarrow> string \<Rightarrow> rat" where
  "used w k = (\<Sum>(i, t) \<leftarrow> wTasks w. rget (wtResources t) k)"

lemma fold_addResources:
  assumes "\<forall>(i, t) \<in> set ts. wf_map (wtResources t)" and "\<And>x y. sign (x + y) = sign x + sign y" and "sign 0 = 0"
  shows "rget (fold (\<lambda>(i, t). addResources sign (wtResources t)) ts m) k = rget m k + sign (\<Sum>(i, t) \<leftarrow> ts. rget (wtResources t) k)"
  using assms(1)
proof (induction ts arbitrary: m)
  case (Cons it ts)
  obtain i t where it: "it = (i, t)" by (cases it)
  show ?case using Cons rget_addResources [of "wtResources t" sign] by (simp add: it assms(2,3) add.assoc)
qed (simp add: assms(3))

lemma rget_resourcesInUse:
  "\<forall>(i, t) \<in> set (wTasks w). wf_map (wtResources t) \<Longrightarrow> rget (resourcesInUse w) k = used w k"
  using fold_addResources [of "wTasks w" "\<lambda>v. v" "[]" k] by (simp add: resourcesInUse_def used_def rget_def)

text \<open>
  A request for resources fits exactly when, for every resource that it names, the amounts that
  the tasks of the worker use and the requested amount together do not exceed what the worker has; what
  the worker reports as used is the sum over its tasks. (A resource that the worker does not have counts
  as zero.)
\<close>

theorem canFit_correct:
  assumes "wUserResources w = Some available" and "\<forall>(i, t) \<in> set (wTasks w). wf_map (wtResources t)"
  shows "canFitResources w requested = Inr (\<forall>(k, v) \<in> set requested. used w k + v \<le> rget available k) \<and>
    (\<forall>k. rget (resourcesInUse w) k = used w k)"
proof -
  let ?free = "fold (\<lambda>(i, t). addResources uminus (wtResources t)) (wTasks w) available"
  have "rget ?free k = rget available k - used w k" for k
    using fold_addResources [OF assms(2), of uminus available k] by (simp add: used_def)
  then have "(\<not> rget ?free k < v) = (used w k + v \<le> rget available k)" for k v
    by (simp only: not_less) linarith
  then show ?thesis using rget_resourcesInUse [OF assms(2)]
    by (simp add: canFitResources_def resourcesNotInUse_def assms(1) list_all_iff)
qed

abbreviation exampleWorker :: worker where
  "exampleWorker \<equiv> \<lparr>wTasks = [(''1'', \<lparr>wtUpstream = 0, wtCancelled = False, wtResources = [(''tart-vms'', 1)]\<rparr>)],
     wGoroutines = [], wCompletions = [], wUserResources = Some [(''tart-vms'', 2)], wSecurity = None, wModifiers = [],
     wStandbyParameters = None, wStandby = None, wPrePull = None, wUpstreams = []\<rparr>"

theorem canFit_correct_witness: "canFitResources exampleWorker [(''tart-vms'', 1)] = Inr True"
proof -
  have "canFitResources exampleWorker [(''tart-vms'', 1)] =
      Inr (\<forall>(k, v) \<in> set [(''tart-vms'', 1)]. used exampleWorker k + v \<le> rget [(''tart-vms'', 2)] k)"
    using canFit_correct [of exampleWorker "[(''tart-vms'', 2)]" "[(''tart-vms'', 1)]"] by (simp add: wf_map_def)
  then show ?thesis by (simp add: used_def rget_def)
qed

text \<open>Without user-specified resources, a single task with resources makes the question panic.\<close>

lemma nil_resources_panic:
  assumes "wUserResources w = None" and "(i, t) \<in> set (wTasks w)" and "wtResources t \<noteq> []"
  shows "canFitResources w requested = Inl (Panic ''assignment to entry in nil map'')"
  using assms by (auto simp: canFitResources_def resourcesNotInUse_def list_ex_iff)

section \<open>Invariants\<close>

text \<open>One goroutine per task, and only for tasks that the worker knows.\<close>

definition tasksInv :: "worker \<Rightarrow> bool" where
  "tasksInv w \<longleftrightarrow> wf_map (wTasks w) \<and> distinct (map gTaskID (wGoroutines w) @ wCompletions w) \<and>
     set (map gTaskID (wGoroutines w) @ wCompletions w) \<subseteq> fst ` set (wTasks w)"

text \<open>How many of the instances hold a modifier; nobody holds one that is unlocked.\<close>

definition holders :: "nat \<Rightarrow> isoInst list \<Rightarrow> nat" where
  "holders m xs = length (filter (\<lambda>x. instModifier x = Some m) xs)"

definition modifiersOk :: "isoInst list \<Rightarrow> modifier list \<Rightarrow> bool" where
  "modifiersOk xs ms \<longleftrightarrow> (\<forall>m. holders m xs \<le> (if m < length ms \<and> modLocked (ms ! m) then 1 else 0))"

definition instances :: "worker \<Rightarrow> isoInst list" where
  "instances w = (case wStandby w of None \<Rightarrow> [] | Some i \<Rightarrow> [i]) @ map gInst (wGoroutines w)"

text \<open>The factory created the instance for this isolation under these security settings.\<close>

definition madeFor :: "(string \<Rightarrow> string \<Rightarrow> bool) \<Rightarrow> security \<Rightarrow> isolation option \<Rightarrow> isoInst \<Rightarrow> bool" where
  "madeFor matchSimple sec i inst \<longleftrightarrow> (\<exists>h m. ihMatchSimple h = matchSimple \<and> newInstance h i sec m = Inr inst)"

definition securityInv :: "(string \<Rightarrow> string \<Rightarrow> bool) \<Rightarrow> worker \<Rightarrow> bool" where
  "securityInv matchSimple w \<longleftrightarrow>
     (\<forall>g \<in> set (wGoroutines w). \<exists>i. madeFor matchSimple (wSecurity w) i (gInst g)) \<and>
     (\<forall>inst. wStandby w = Some inst \<longrightarrow>
        (\<exists>p. wStandbyParameters w = Some p \<and> madeFor matchSimple (wSecurity w) (spIsolation p) inst))"

definition intervalInv :: "worker \<Rightarrow> bool" where
  "intervalInv w \<longleftrightarrow> (\<forall>u \<in> set (wUpstreams w). 1 \<le> upPollInterval u \<and> upPollInterval u \<le> 3600)"

definition workerInv :: "(string \<Rightarrow> string \<Rightarrow> bool) \<Rightarrow> worker \<Rightarrow> bool" where
  "workerInv matchSimple w \<longleftrightarrow>
     tasksInv w \<and> modifiersOk (instances w) (wModifiers w) \<and> securityInv matchSimple w \<and> intervalInv w"

lemma holders_simps [simp]:
  "holders m [] = 0"
  "holders m (x # xs) = (if instModifier x = Some m then 1 else 0) + holders m xs"
  "holders m (xs @ ys) = holders m xs + holders m ys"
  by (simp_all add: holders_def)

lemma holders_remove1:
  "g \<in> set gs \<Longrightarrow> holders m (map gInst gs) = (if instModifier (gInst g) = Some m then 1 else 0) + holders m (map gInst (remove1 g gs))"
  by (induction gs) auto

lemma modifiersOk_mono:
  assumes "modifiersOk xs ms" and "\<And>m. holders m ys \<le> holders m xs"
  shows "modifiersOk ys ms"
  using assms le_trans unfolding modifiersOk_def by blast

lemma Acquire_spec:
  "Acquire requested i ms = (r, ms') \<Longrightarrow>
     (case r of None \<Rightarrow> ms' = ms
      | Some j \<Rightarrow> i \<le> j \<and> j < i + length ms \<and> \<not> modLocked (ms ! (j - i)) \<and> ms' = ms[j - i := (ms ! (j - i))\<lparr>modLocked := True\<rparr>])"
proof (induction requested i ms arbitrary: r ms' rule: Acquire.induct)
  case (2 requested i m ms)
  show ?case
  proof (cases "modifierMatches m requested \<and> \<not> modLocked m")
    case False
    obtain r' rest where rest: "Acquire requested (i + 1) ms = (r', rest)" by (cases "Acquire requested (i + 1) ms")
    then have "r = r'" "ms' = m # rest" using False 2(2) by auto
    moreover have "a - i = Suc (a - Suc i)" if "Suc i \<le> a" for a using that by simp
    ultimately show ?thesis using 2(1) [OF False rest] by (cases r) auto
  qed (use 2(2) in auto)
qed simp

lemma Acquire_modifiersOk:
  assumes "Acquire requested 0 ms = (r, ms')" and "modifiersOk xs ms"
  shows "modifiersOk xs ms' \<and> (instModifier x = None \<or> instModifier x = r \<longrightarrow> modifiersOk (x # xs) ms')"
proof (cases r)
  case None
  then show ?thesis using Acquire_spec [OF assms(1)] assms(2) by (auto simp: modifiersOk_def)
next
  case (Some j)
  then have j: "j < length ms" "\<not> modLocked (ms ! j)" "ms' = ms[j := (ms ! j)\<lparr>modLocked := True\<rparr>]"
    using Acquire_spec [OF assms(1)] by auto
  have bound: "holders m xs \<le> (if m < length ms \<and> modLocked (ms ! m) then 1 else 0)" for m
    using assms(2) unfolding modifiersOk_def by blast
  have new: "holders m xs + (if m = j then 1 else 0) \<le> (if m < length ms' \<and> modLocked (ms' ! m) then 1 else 0)" for m
    using bound [of m] j by (auto simp: nth_list_update)
  have "holders m xs \<le> (if m < length ms' \<and> modLocked (ms' ! m) then 1 else 0)" for m
    by (rule le_trans [OF le_add1 new])
  moreover have "holders m (x # xs) \<le> (if m < length ms' \<and> modLocked (ms' ! m) then 1 else 0)"
    if "instModifier x = None \<or> instModifier x = r" for m
    by (rule le_trans [OF _ new]) (use that Some in auto)
  ultimately show ?thesis unfolding modifiersOk_def by blast
qed

lemma closeInstance_modifiersOk:
  assumes "modifiersOk (x # xs) (wModifiers w)"
  shows "modifiersOk xs (wModifiers (closeInstance x w))"
proof (cases "instModifier x")
  case None
  then show ?thesis using assms by (simp add: closeInstance_def modifiersOk_def)
next
  case (Some j)
  have bound: "holders m (x # xs) \<le> (if m < length (wModifiers w) \<and> modLocked (wModifiers w ! m) then 1 else 0)" for m
    using assms unfolding modifiersOk_def by blast
  let ?ms = "(wModifiers w)[j := (wModifiers w ! j)\<lparr>modLocked := False\<rparr>]"
  have "holders m xs \<le> (if m < length ?ms \<and> modLocked (?ms ! m) then 1 else 0)" for m
    using bound [of m] Some by (cases "m = j") (auto split: if_splits)
  then show ?thesis unfolding modifiersOk_def closeInstance_def using Some by simp
qed

lemma closeInstance_fields [simp]:
  "wTasks (closeInstance x w) = wTasks w" "wGoroutines (closeInstance x w) = wGoroutines w"
  "wCompletions (closeInstance x w) = wCompletions w" "wSecurity (closeInstance x w) = wSecurity w"
  "wStandby (closeInstance x w) = wStandby w" "wStandbyParameters (closeInstance x w) = wStandbyParameters w"
  "wUpstreams (closeInstance x w) = wUpstreams w"
  by (simp_all add: closeInstance_def split: option.split)

lemma newInstance_modifier:
  assumes "newInstance h i sec m = Inr inst"
  shows "instModifier inst = None \<or> instModifier inst = m"
proof (cases inst)
  case (VetuInst v)
  from assms [unfolded this] obtain spec where "newVetu (ihMatchSimple h) sec m spec = Inr (VetuInst v)"
    by (rule newInstance_vetu)
  then show ?thesis using newVetu_instance VetuInst by (simp add: instModifier_def)
qed (simp_all add: instModifier_def)

lemma createInstance_spec:
  assumes "createInstance h i requested w = (r, w')" and "modifiersOk xs (wModifiers w)"
  shows "\<exists>ms. w' = w\<lparr>wModifiers := ms\<rparr> \<and> modifiersOk xs ms \<and>
    (\<forall>inst. r = Inr inst \<longrightarrow> madeFor (ihMatchSimple h) (wSecurity w) i inst \<and> modifiersOk (inst # xs) ms)"
proof -
  obtain m ms where a: "Acquire requested 0 (wModifiers w) = (m, ms)" by (cases "Acquire requested 0 (wModifiers w)")
  then have r: "r = newInstance h i (wSecurity w) m" and w': "w' = w\<lparr>wModifiers := ms\<rparr>"
    using assms(1) by (simp_all add: createInstance_def)
  have "madeFor (ihMatchSimple h) (wSecurity w) i inst \<and> modifiersOk (inst # xs) ms" if "r = Inr inst" for inst
    using that r newInstance_modifier [of h i "wSecurity w" m inst] Acquire_modifiersOk [OF a assms(2)] unfolding madeFor_def by metis
  then show ?thesis using w' Acquire_modifiersOk [OF a assms(2)] by blast
qed

lemma getInstance_spec:
  assumes "getInstance h i requested w = (r, w')" and "modifiersOk (instances w) (wModifiers w)" and "securityInv (ihMatchSimple h) w"
  shows "\<exists>ms. w' = w\<lparr>wModifiers := ms, wStandby := None\<rparr> \<and> modifiersOk (map gInst (wGoroutines w)) ms \<and>
    (\<forall>inst. r = Inr inst \<longrightarrow> madeFor (ihMatchSimple h) (wSecurity w) i inst \<and> modifiersOk (inst # map gInst (wGoroutines w)) ms)"
proof (cases "wStandby w")
  case None
  then have same: "w\<lparr>wModifiers := ms, wStandby := None\<rparr> = w\<lparr>wModifiers := ms\<rparr>" for ms by simp
  have "createInstance h i requested w = (r, w')" using assms(1) None by (simp add: getInstance_def)
  moreover have "modifiersOk (map gInst (wGoroutines w)) (wModifiers w)" using assms(2) None by (simp add: instances_def)
  ultimately show ?thesis unfolding same by (rule createInstance_spec)
next
  case (Some inst)
  have ok: "modifiersOk (inst # map gInst (wGoroutines w)) (wModifiers w)" using assms(2) Some by (simp add: instances_def)
  obtain p where p: "wStandbyParameters w = Some p" "madeFor (ihMatchSimple h) (wSecurity w) (spIsolation p) inst"
    using assms(3) Some unfolding securityInv_def by blast
  show ?thesis
  proof (cases "spIsolation p = i")
    case True
    then have "r = Inr inst" "w' = w\<lparr>wModifiers := wModifiers w, wStandby := None\<rparr>"
      using assms(1) Some p(1) by (simp_all add: getInstance_def)
    moreover have "modifiersOk (map gInst (wGoroutines w)) (wModifiers w)" by (rule modifiersOk_mono [OF ok]) simp
    ultimately show ?thesis using ok p(2) True by blast
  next
    case False
    let ?w = "closeInstance inst (w\<lparr>wStandby := None\<rparr>)"
    have c: "createInstance h i requested ?w = (r, w')" using assms(1) Some p(1) False by (simp add: getInstance_def)
    have "modifiersOk (map gInst (wGoroutines w)) (wModifiers ?w)" by (rule closeInstance_modifiersOk) (use ok in simp)
    from createInstance_spec [OF c this] obtain ms where ms: "w' = ?w\<lparr>wModifiers := ms\<rparr>" "modifiersOk (map gInst (wGoroutines w)) ms"
      "\<forall>inst. r = Inr inst \<longrightarrow> madeFor (ihMatchSimple h) (wSecurity w) i inst \<and> modifiersOk (inst # map gInst (wGoroutines w)) ms"
      by auto
    have "w' = w\<lparr>wModifiers := ms, wStandby := None\<rparr>" unfolding ms(1) by (simp add: closeInstance_def split: option.splits)
    with ms show ?thesis by blast
  qed
qed

section \<open>Every operation preserves the invariants\<close>

text \<open>
  The outcomes of \<open>startTask\<close>. When the instance cannot be created the task stays registered, although
  no goroutine will ever report its completion.
\<close>

lemma startTask_cases:
  assumes "workerInv (ihMatchSimple h) w"
  obtains "mhas (wTasks w) (aatID a)" "startTask h u a w = (AlreadyRunning, w)"
  | e ts ms where "\<not> mhas (wTasks w) (aatID a)" "ts = mset_key (aatID a) \<lparr>wtUpstream = u, wtCancelled = False, wtResources = aatResources a\<rparr> (wTasks w)"
      "startTask h u a w = (StartFailed e, w\<lparr>wTasks := ts, wModifiers := ms, wStandby := None\<rparr>)"
      "modifiersOk (map gInst (wGoroutines w)) ms"
  | g ts ms where "\<not> mhas (wTasks w) (aatID a)" "ts = mset_key (aatID a) \<lparr>wtUpstream = u, wtCancelled = False, wtResources = aatResources a\<rparr> (wTasks w)"
      "startTask h u a w = (Started (gInst g), w\<lparr>wTasks := ts, wModifiers := ms, wStandby := None, wGoroutines := wGoroutines w @ [g]\<rparr>)"
      "gTaskID g = aatID a" "madeFor (ihMatchSimple h) (wSecurity w) (aatIsolation a) (gInst g)"
      "modifiersOk (gInst g # map gInst (wGoroutines w)) ms"
proof (cases "mhas (wTasks w) (aatID a)")
  case True
  then show ?thesis using that(1) by (simp add: startTask_def)
next
  case False
  let ?ts = "mset_key (aatID a) \<lparr>wtUpstream = u, wtCancelled = False, wtResources = aatResources a\<rparr> (wTasks w)"
  let ?w = "w\<lparr>wTasks := ?ts\<rparr>"
  obtain r w2 where g: "getInstance h (aatIsolation a) (aatResources a) ?w = (r, w2)"
    by (cases "getInstance h (aatIsolation a) (aatResources a) ?w")
  have "modifiersOk (instances ?w) (wModifiers ?w)" "securityInv (ihMatchSimple h) ?w"
    using assms by (simp_all add: workerInv_def instances_def securityInv_def)
  from getInstance_spec [OF g this] obtain ms where w2: "w2 = ?w\<lparr>wModifiers := ms, wStandby := None\<rparr>"
    and ms: "modifiersOk (map gInst (wGoroutines w)) ms"
    and made: "\<And>inst. r = Inr inst \<Longrightarrow> madeFor (ihMatchSimple h) (wSecurity w) (aatIsolation a) inst \<and>
      modifiersOk (inst # map gInst (wGoroutines w)) ms"
    by auto
  show ?thesis
  proof (cases r)
    case (Inl e)
    show ?thesis by (rule that(2) [OF False refl _ ms]) (use False g Inl w2 in \<open>simp add: startTask_def\<close>)
  next
    case (Inr inst)
    let ?g = "\<lparr>gUpstream = u, gInst = inst, gCliVersion = aatCliVersion a, gTaskID = aatID a,
      gClientSecret = aatClientSecret a, gServerSecret = aatServerSecret a\<rparr>"
    show ?thesis
      by (rule that(3) [OF False refl, of ?g ms]) (use False g Inr w2 made [OF Inr] in \<open>auto simp: startTask_def\<close>)
  qed
qed

lemma startTask_inv:
  assumes "workerInv (ihMatchSimple h) w"
  shows "workerInv (ihMatchSimple h) (snd (startTask h u a w))"
proof (rule startTask_cases [OF assms, of a u])
  fix e ts ms
  assume c: "ts = mset_key (aatID a) \<lparr>wtUpstream = u, wtCancelled = False, wtResources = aatResources a\<rparr> (wTasks w)"
    "startTask h u a w = (StartFailed e, w\<lparr>wTasks := ts, wModifiers := ms, wStandby := None\<rparr>)"
    "modifiersOk (map gInst (wGoroutines w)) ms"
  have "tasksInv (w\<lparr>wTasks := ts, wModifiers := ms, wStandby := None\<rparr>)"
    using assms unfolding c(1) by (auto simp: workerInv_def tasksInv_def dom_update)
  then show ?thesis unfolding c(2) using assms c(3) by (simp add: workerInv_def instances_def securityInv_def intervalInv_def)
next
  fix g ts ms
  assume c: "\<not> mhas (wTasks w) (aatID a)"
    "ts = mset_key (aatID a) \<lparr>wtUpstream = u, wtCancelled = False, wtResources = aatResources a\<rparr> (wTasks w)"
    "startTask h u a w = (Started (gInst g), w\<lparr>wTasks := ts, wModifiers := ms, wStandby := None, wGoroutines := wGoroutines w @ [g]\<rparr>)"
    "gTaskID g = aatID a" "madeFor (ihMatchSimple h) (wSecurity w) (aatIsolation a) (gInst g)"
    "modifiersOk (gInst g # map gInst (wGoroutines w)) ms"
  have "tasksInv (w\<lparr>wTasks := ts, wModifiers := ms, wStandby := None, wGoroutines := wGoroutines w @ [g]\<rparr>)"
    using assms c(1,4) unfolding c(2) by (auto simp: workerInv_def tasksInv_def dom_update mhas_iff)
  moreover have "modifiersOk (map gInst (wGoroutines w) @ [gInst g]) ms" by (rule modifiersOk_mono [OF c(6)]) simp
  ultimately show ?thesis unfolding c(3) using assms c(5) by (auto simp: workerInv_def instances_def securityInv_def intervalInv_def)
qed (use assms in simp)

lemma stopTask_inv: "workerInv matchSimple w \<Longrightarrow> workerInv matchSimple (stopTask i w)"
proof -
  assume w: "workerInv matchSimple w"
  have "tasksInv (stopTask i w)"
    using w by (auto simp: workerInv_def tasksInv_def stopTask_def dom_update split: option.split)
  then show ?thesis using w
    by (simp add: workerInv_def stopTask_def instances_def securityInv_def intervalInv_def split: option.split)
qed

lemma delete_keys_set: "fst ` set (AList.delete k m) = fst ` set m - {k}"
  by (auto simp: AList.delete_eq)

lemma fold_delete_keys: "fst ` set (fold AList.delete is m) = fst ` set m - set is"
  by (induction "is" arbitrary: m) (auto simp: delete_keys_set)

lemma fold_delete_wf: "wf_map m \<Longrightarrow> wf_map (fold AList.delete is m)"
  by (induction "is" arbitrary: m) (simp_all add: wf_map_def distinct_delete)

lemma registerTaskCompletions_inv: "workerInv matchSimple w \<Longrightarrow> workerInv matchSimple (registerTaskCompletions w)"
proof -
  assume w: "workerInv matchSimple w"
  have "tasksInv (registerTaskCompletions w)"
    using w by (auto simp: workerInv_def tasksInv_def registerTaskCompletions_def fold_delete_keys fold_delete_wf)
  then show ?thesis using w
    by (simp add: workerInv_def registerTaskCompletions_def instances_def securityInv_def intervalInv_def)
qed

lemma completeTask_inv:
  assumes "workerInv matchSimple w" and "g \<in> set (wGoroutines w)"
  shows "workerInv matchSimple (completeTask g w)"
proof -
  from assms(2) obtain gs gs' where gs: "wGoroutines w = gs @ g # gs'" "g \<notin> set gs" by (meson split_list_first)
  then have rest: "remove1 g (gs @ g # gs') = gs @ gs'" by (simp add: remove1_append)
  have "tasksInv (completeTask g w)"
    using assms(1) by (auto simp: workerInv_def tasksInv_def completeTask_def Let_def gs(1) rest)
  moreover have "modifiersOk (gInst g # instances (w\<lparr>wGoroutines := gs @ gs'\<rparr>)) (wModifiers w)"
    by (rule modifiersOk_mono [of "instances w"])
      (use assms(1) gs(1) in \<open>auto simp: workerInv_def instances_def split: option.split\<close>)
  then have "modifiersOk (instances (completeTask g w)) (wModifiers (completeTask g w))"
    using closeInstance_modifiersOk by (simp add: completeTask_def Let_def gs(1) rest instances_def)
  ultimately show ?thesis using assms(1)
    by (auto simp: workerInv_def securityInv_def intervalInv_def completeTask_def Let_def gs(1) rest)
qed

lemma UpdateStandby_inv:
  assumes "workerInv matchSimple w"
  shows "workerInv matchSimple (UpdateStandby p w)"
proof (cases "wStandby w")
  case None
  then show ?thesis using assms
    by (simp add: UpdateStandby_def workerInv_def tasksInv_def securityInv_def intervalInv_def instances_def)
next
  case (Some inst)
  then have "modifiersOk (inst # map gInst (wGoroutines w)) (wModifiers w)"
    using assms by (simp add: workerInv_def instances_def)
  from closeInstance_modifiersOk [OF this] show ?thesis using assms Some
    by (auto simp: UpdateStandby_def workerInv_def tasksInv_def securityInv_def intervalInv_def instances_def)
qed

lemma tryCreateStandby_inv:
  assumes "workerInv (ihMatchSimple h) w"
  shows "workerInv (ihMatchSimple h) (snd (tryCreateStandby h warm w))"
proof (cases "snd (tryCreateStandby h warm w) = w")
  case False
  then obtain p where p: "wStandbyParameters w = Some p" and none: "wStandby w = None"
    by (auto simp: tryCreateStandby_def split: option.splits if_splits)
  obtain r w1 where c: "createInstance h (spIsolation p) (spResources p) w = (r, w1)"
    by (cases "createInstance h (spIsolation p) (spResources p) w")
  have "modifiersOk (map gInst (wGoroutines w)) (wModifiers w)" using assms none by (simp add: workerInv_def instances_def)
  from createInstance_spec [OF c this] obtain ms where w1: "w1 = w\<lparr>wModifiers := ms\<rparr>"
    and ms: "modifiersOk (map gInst (wGoroutines w)) ms"
    and made: "\<And>inst. r = Inr inst \<Longrightarrow> madeFor (ihMatchSimple h) (wSecurity w) (spIsolation p) inst \<and>
      modifiersOk (inst # map gInst (wGoroutines w)) ms" by blast
  have kept: "workerInv (ihMatchSimple h) (w\<lparr>wModifiers := ms'\<rparr>)" if "modifiersOk (map gInst (wGoroutines w)) ms'" for ms'
    using assms none that by (simp add: workerInv_def tasksInv_def securityInv_def intervalInv_def instances_def)
  consider "snd (tryCreateStandby h warm w) = w1"
    | inst where "r = Inr inst" "snd (tryCreateStandby h warm w) = closeInstance inst w1"
    | inst where "r = Inr inst" "snd (tryCreateStandby h warm w) = w1\<lparr>wStandby := Some inst\<rparr>"
    using False p none c by (auto simp: tryCreateStandby_def Let_def split: option.splits if_splits sum.splits)
  then show ?thesis
  proof cases
    case 1
    then show ?thesis using kept [OF ms] w1 by simp
  next
    case (2 inst)
    then have "modifiersOk (map gInst (wGoroutines w)) (wModifiers (closeInstance inst w1))"
      using made [OF 2(1)] closeInstance_modifiersOk by (simp add: w1)
    moreover have "closeInstance inst w1 = w\<lparr>wModifiers := wModifiers (closeInstance inst w1)\<rparr>"
      by (simp add: w1 closeInstance_def split: option.split)
    ultimately show ?thesis using kept 2(2) by metis
  next
    case (3 inst)
    then show ?thesis using made [OF 3(1)] assms p
      by (simp add: w1 workerInv_def tasksInv_def securityInv_def intervalInv_def instances_def)
  qed
qed (use assms in simp)

lemma changeUpstream_inv:
  assumes "workerInv matchSimple w" and "\<And>x. upPollInterval (f x) = upPollInterval x \<or> 1 \<le> upPollInterval (f x) \<and> upPollInterval (f x) \<le> 3600"
  shows "workerInv matchSimple (changeUpstream u f w)"
proof (cases "u < length (wUpstreams w)")
  case True
  then have old: "1 \<le> upPollInterval (wUpstreams w ! u) \<and> upPollInterval (wUpstreams w ! u) \<le> 3600"
    using assms(1) nth_mem unfolding workerInv_def intervalInv_def by blast
  then have "1 \<le> upPollInterval (f (wUpstreams w ! u)) \<and> upPollInterval (f (wUpstreams w ! u)) \<le> 3600"
    using assms(2) [of "wUpstreams w ! u"] by auto
  then have "intervalInv (changeUpstream u f w)"
    using assms(1) set_update_subset_insert [of "wUpstreams w" u] unfolding workerInv_def intervalInv_def changeUpstream_def by auto
  then show ?thesis using assms(1) by (simp add: workerInv_def tasksInv_def securityInv_def instances_def changeUpstream_def)
next
  case False
  then have "changeUpstream u f w = w" by (simp add: changeUpstream_def list_update_beyond)
  then show ?thesis using assms(1) by simp
qed

lemma upstreamPoll_interval:
  "upPollInterval (upstreamPoll r u) = upPollInterval u \<or> 1 \<le> upPollInterval (upstreamPoll r u) \<and> upPollInterval (upstreamPoll r u) \<le> 3600"
  by (auto simp: upstreamPoll_def word_le_nat_alt unat_eq_zero linorder_not_less less_one not_less_eq_eq Suc_le_eq unat_gt_0)

lemma upstreamRegister_interval: "upPollInterval (snd (upstreamRegister session u)) = upPollInterval u"
  by (simp add: upstreamRegister_def split: sum.split)

section \<open>The interleavings of polling and of the goroutines\<close>

text \<open>
  The polling loop and the goroutines of the tasks interleave: a goroutine may end between any two
  operations of the loop.
\<close>

inductive workerStep :: "(string \<Rightarrow> string \<Rightarrow> bool) \<Rightarrow> worker \<Rightarrow> worker \<Rightarrow> bool"
  for matchSimple :: "string \<Rightarrow> string \<Rightarrow> bool" where
  step_register: "workerStep matchSimple w (changeUpstream u (\<lambda>up. snd (upstreamRegister session up)) w)"
| step_polled: "workerStep matchSimple w (changeUpstream u (upstreamPoll r) w)"
| step_completions: "workerStep matchSimple w (registerTaskCompletions w)"
| step_stop: "workerStep matchSimple w (stopTask i w)"
| step_start: "ihMatchSimple h = matchSimple \<Longrightarrow> workerStep matchSimple w (snd (startTask h u a w))"
| step_standby: "ihMatchSimple h = matchSimple \<Longrightarrow> workerStep matchSimple w (snd (tryCreateStandby h warm w))"
| step_update: "workerStep matchSimple w (UpdateStandby p w)"
| step_finish: "g \<in> set (wGoroutines w) \<Longrightarrow> workerStep matchSimple w (completeTask g w)"

definition freshWorker :: "worker \<Rightarrow> bool" where
  "freshWorker w \<longleftrightarrow> wTasks w = [] \<and> wGoroutines w = [] \<and> wCompletions w = [] \<and> wStandby w = None \<and> intervalInv w"

lemma freshWorker_inv: "freshWorker w \<Longrightarrow> workerInv matchSimple w"
  by (simp add: freshWorker_def workerInv_def tasksInv_def modifiersOk_def instances_def securityInv_def)

lemma workerStep_inv:
  assumes "workerStep matchSimple w w'" and "workerInv matchSimple w"
  shows "workerInv matchSimple w'"
  using assms
proof (induction rule: workerStep.induct)
  case (step_register w u session)
  then show ?case by (intro changeUpstream_inv) (simp_all add: upstreamRegister_interval)
next
  case (step_polled w u r)
  then show ?case by (intro changeUpstream_inv upstreamPoll_interval)
next
  case (step_start h w u a)
  then show ?case using startTask_inv by metis
next
  case (step_standby h w warm)
  then show ?case using tryCreateStandby_inv by metis
qed (simp_all add: registerTaskCompletions_inv stopTask_inv UpdateStandby_inv completeTask_inv)

interpretation workerSystem: transition_system "workerStep matchSimple" freshWorker "workerInv matchSimple" for matchSimple
  by unfold_locales (rule freshWorker_inv, assumption, rule workerStep_inv)

text \<open>A round of polling consists of such steps.\<close>

lemma fold_steps:
  "(\<And>x w. (workerStep matchSimple)\<^sup>*\<^sup>* w (f x w)) \<Longrightarrow> (workerStep matchSimple)\<^sup>*\<^sup>* w (fold f xs w)"
  by (induction xs arbitrary: w) (auto intro: rtranclp_trans)

lemma applyResponse_steps:
  assumes "\<forall>i. ihMatchSimple (host i) = matchSimple"
  shows "(workerStep matchSimple)\<^sup>*\<^sup>* w (snd (applyResponse host u r w))"
proof -
  let ?w1 = "fold stopTask (prTasksToStop r) w"
  let ?w2 = "fold (\<lambda>i. stopTask (FormatInt i)) (prOldTaskIdsToStop r) ?w1"
  let ?w3 = "fold (\<lambda>a w. snd (startTask (host (aatID a)) u a w)) (prTasksToStart r) ?w2"
  have "(workerStep matchSimple)\<^sup>*\<^sup>* w ?w1" "(workerStep matchSimple)\<^sup>*\<^sup>* ?w1 ?w2" "(workerStep matchSimple)\<^sup>*\<^sup>* ?w2 ?w3"
    by (rule fold_steps, rule r_into_rtranclp, rule step_stop step_start, (rule assms [rule_format])?)+
  then have "(workerStep matchSimple)\<^sup>*\<^sup>* w ?w3" by (meson rtranclp_trans)
  moreover have "(workerStep matchSimple)\<^sup>*\<^sup>* ?w3 (snd (applyResponse host u r w))"
    by (auto simp: applyResponse_def Let_def split: list.split intro: r_into_rtranclp step_update)
  ultimately show ?thesis by (rule rtranclp_trans)
qed

lemma pollSingleUpstream_steps:
  assumes "\<forall>i. ihMatchSimple (host i) = matchSimple"
  shows "(workerStep matchSimple)\<^sup>*\<^sup>* w (snd (pollSingleUpstream host u session reply w))"
proof -
  let ?w = "changeUpstream u (\<lambda>up. snd (upstreamRegister session up)) w"
  have 1: "(workerStep matchSimple)\<^sup>*\<^sup>* w (registerTaskCompletions ?w)"
    by (rule converse_rtranclp_into_rtranclp, rule step_register, rule r_into_rtranclp, rule step_completions)
  have 2: "(workerStep matchSimple)\<^sup>*\<^sup>* w (snd (applyResponse host u r (changeUpstream u (upstreamPoll r) (registerTaskCompletions ?w))))" for r
    by (rule rtranclp_trans [OF 1], rule converse_rtranclp_into_rtranclp, rule step_polled, rule applyResponse_steps [OF assms])
  show ?thesis using 1 2 by (simp add: pollSingleUpstream_def Let_def split: option.split sum.split)
qed

lemma pollAll_steps:
  assumes "\<forall>i. ihMatchSimple (host i) = matchSimple"
  shows "(workerStep matchSimple)\<^sup>*\<^sup>* w (snd (pollAll host us w))"
proof (induction us arbitrary: w)
  case (Cons x us)
  obtain u session reply where x: "x = (u, session, reply)" by (cases x)
  obtain e w' where p: "pollSingleUpstream host u session reply w = (e, w')" by (cases "pollSingleUpstream host u session reply w")
  then have "(workerStep matchSimple)\<^sup>*\<^sup>* w w'" using pollSingleUpstream_steps [OF assms, of w u session reply] by simp
  then show ?case using p Cons.IH [of w'] by (auto simp: x split: option.split)
qed simp

lemma pollUpstreams_steps:
  assumes "\<forall>i. ihMatchSimple (host i) = matchSimple"
  shows "(workerStep matchSimple)\<^sup>*\<^sup>* w (snd (pollUpstreams host warm replies w))"
proof -
  obtain e w' where t: "tryCreateStandby (host ''standby'') warm w = (e, w')" by (cases "tryCreateStandby (host ''standby'') warm w")
  then have "workerStep matchSimple w w'" using step_standby [OF assms [rule_format], of w "''standby''" warm] by simp
  then show ?thesis using converse_rtranclp_into_rtranclp [OF _ pollAll_steps [OF assms, of w']] t
    by (auto simp: pollUpstreams_def split: option.split)
qed

lemma startTask_made:
  assumes "startTask h u a w = (Started inst, w')" and "workerInv (ihMatchSimple h) w"
  shows "madeFor (ihMatchSimple h) (wSecurity w) (aatIsolation a) inst"
  by (rule startTask_cases [OF assms(2), of a u]) (use assms(1) in auto)

lemma madeFor_permitted: "madeFor matchSimple sec i inst \<Longrightarrow> permitted matchSimple sec i"
  using newInstance_permitted unfolding madeFor_def by blast

lemma pollInterval_bounds:
  assumes "intervalInv w" and "wUpstreams w \<noteq> []"
  shows "1 \<le> pollIntervalSeconds w \<and> pollIntervalSeconds w \<le> 3600"
proof -
  let ?f = "\<lambda>u result. if upPollInterval u < result then upPollInterval u else result"
  have low: "1 \<le> fold ?f us r" if "\<forall>u \<in> set us. 1 \<le> upPollInterval u" "1 \<le> r" for us and r :: "32 word"
    using that by (induction us arbitrary: r) auto
  have keep: "fold ?f us r \<le> 3600" if "r \<le> 3600" for us and r :: "32 word"
    using that by (induction us arbitrary: r) auto
  obtain u us where us: "wUpstreams w = u # us" using assms(2) by (cases "wUpstreams w") auto
  have u: "upPollInterval u \<le> 3600" "\<forall>u \<in> set (wUpstreams w). 1 \<le> upPollInterval u" using assms(1) us by (auto simp: intervalInv_def)
  have "upPollInterval u < 0xFFFFFFFF" using u(1) by (simp add: word_less_nat_alt word_le_nat_alt)
  then have "fold ?f (wUpstreams w) 0xFFFFFFFF \<le> 3600" using keep [OF u(1), of us] us by simp
  then show ?thesis using low [OF u(2), of "0xFFFFFFFF"] by (simp add: pollIntervalSeconds_def)
qed

text \<open>
  C4. Whatever the services answer and however the goroutines of the tasks interleave with the polling
  loop: no task is run by two goroutines and every running task is registered; no resource modifier is
  in the hands of two virtual machines; every running instance was created for an isolation that the
  security settings permit; a task that starts is given an instance made for its own isolation, also when
  that is the standby instance; the pause between two rounds lasts between a second and an hour. A round
  of polling, for any answers of the upstreams, stays within these states.
\<close>

theorem worker_safe:
  assumes "freshWorker w0" and "(workerStep matchSimple)\<^sup>*\<^sup>* w0 w"
  shows "distinct (map gTaskID (wGoroutines w)) \<and> gTaskID ` set (wGoroutines w) \<subseteq> fst ` set (wTasks w) \<and>
    (\<forall>m. holders m (instances w) \<le> 1) \<and>
    (\<forall>g \<in> set (wGoroutines w). \<exists>i. madeFor matchSimple (wSecurity w) i (gInst g) \<and> permitted matchSimple (wSecurity w) i) \<and>
    (\<forall>h u a inst w'. ihMatchSimple h = matchSimple \<and> startTask h u a w = (Started inst, w') \<longrightarrow>
       madeFor matchSimple (wSecurity w) (aatIsolation a) inst \<and> permitted matchSimple (wSecurity w) (aatIsolation a)) \<and>
    (wUpstreams w \<noteq> [] \<longrightarrow> 1 \<le> pollIntervalSeconds w \<and> pollIntervalSeconds w \<le> 3600) \<and>
    (\<forall>host warm replies. (\<forall>i. ihMatchSimple (host i) = matchSimple) \<longrightarrow>
       (workerStep matchSimple)\<^sup>*\<^sup>* w0 (snd (pollUpstreams host warm replies w)))"
proof -
  have inv: "workerInv matchSimple w" by (rule workerSystem.reachable_inv [OF assms])
  have holders: "holders m (instances w) \<le> 1" for m
  proof -
    have "holders m (instances w) \<le> (if m < length (wModifiers w) \<and> modLocked (wModifiers w ! m) then 1 else 0)"
      using inv unfolding workerInv_def modifiersOk_def by blast
    also have "\<dots> \<le> 1" by simp
    finally show ?thesis .
  qed
  have made: "\<exists>i. madeFor matchSimple (wSecurity w) i (gInst g) \<and> permitted matchSimple (wSecurity w) i"
    if "g \<in> set (wGoroutines w)" for g
    using inv that madeFor_permitted unfolding workerInv_def securityInv_def by blast
  have start: "madeFor matchSimple (wSecurity w) (aatIsolation a) inst \<and> permitted matchSimple (wSecurity w) (aatIsolation a)"
    if "ihMatchSimple h = matchSimple" "startTask h u a w = (Started inst, w')" for h u a inst w'
    using startTask_made [OF that(2)] inv that(1) madeFor_permitted by blast
  have poll: "(workerStep matchSimple)\<^sup>*\<^sup>* w0 (snd (pollUpstreams host warm replies w))" if "\<forall>i. ihMatchSimple (host i) = matchSimple"
    for host warm replies
    by (rule rtranclp_trans [OF assms(2) pollUpstreams_steps [OF that]])
  have "tasksInv w" "intervalInv w" using inv by (simp_all add: workerInv_def)
  then show ?thesis using holders made start poll pollInterval_bounds [of w]
    by (intro conjI allI ballI impI; (elim conjE)?) (auto simp: tasksInv_def)
qed

abbreviation exampleFresh :: worker where
  "exampleFresh \<equiv> exampleWorker\<lparr>wTasks := [], wUpstreams := [\<lparr>upWorkerName = ''w'', upSessionToken = [], upPollInterval = 10\<rparr>]\<rparr>"

abbreviation exampleAgentTask :: agentAwareTask where
  "exampleAgentTask \<equiv> \<lparr>aatTaskId = ''7'', aatOldTaskId = 0, aatClientSecret = [], aatServerSecret = [], aatCliVersion = [],
     aatIsolation = None, aatResources = []\<rparr>"

theorem worker_safe_witness:
  "freshWorker exampleFresh \<and> map gTaskID (wGoroutines (snd (startTask exampleIsoHost 0 exampleAgentTask exampleFresh))) = [''7''] \<and>
   (\<forall>m. holders m (instances (snd (startTask exampleIsoHost 0 exampleAgentTask exampleFresh))) \<le> 1)"
proof -
  have fresh: "freshWorker exampleFresh" by (simp add: freshWorker_def intervalInv_def)
  have step: "(workerStep (=))\<^sup>*\<^sup>* exampleFresh (snd (startTask exampleIsoHost 0 exampleAgentTask exampleFresh))"
    by (rule r_into_rtranclp, rule step_start) simp
  have "map gTaskID (wGoroutines (snd (startTask exampleIsoHost 0 exampleAgentTask exampleFresh))) = [''7'']" by code_simp
  with fresh worker_safe [OF fresh step] show ?thesis by blast
qed

section \<open>What is never released\<close>

text \<open>
  A task whose instance could not be created keeps its entry, and its resources, for ever: no later step
  removes it, and every further attempt to start it is refused as already running.
\<close>

definition leaked :: "string \<Rightarrow> worker \<Rightarrow> bool" where
  "leaked i w \<longleftrightarrow> i \<in> fst ` set (wTasks w) \<and> i \<notin> gTaskID ` set (wGoroutines w) \<and> i \<notin> set (wCompletions w)"

lemma getInstance_fields:
  "getInstance h i requested w = (r, w') \<Longrightarrow>
     wTasks w' = wTasks w \<and> wGoroutines w' = wGoroutines w \<and> wCompletions w' = wCompletions w"
  by (auto simp: getInstance_def createInstance_def Let_def split: option.splits if_splits prod.splits)

lemma leaked_start:
  assumes "leaked i w"
  shows "leaked i (snd (startTask h u a w))"
proof (cases "mhas (wTasks w) (aatID a)")
  case False
  then have "aatID a \<noteq> i" using assms by (auto simp: leaked_def mhas_iff)
  moreover obtain r w2 where g: "getInstance h (aatIsolation a) (aatResources a) (w\<lparr>wTasks := mset_key (aatID a)
      \<lparr>wtUpstream = u, wtCancelled = False, wtResources = aatResources a\<rparr> (wTasks w)\<rparr>) = (r, w2)"
    by (rule prod.exhaust)
  ultimately show ?thesis using assms False getInstance_fields [OF g]
    by (cases r) (simp_all add: startTask_def leaked_def dom_update)
qed (use assms in \<open>simp add: startTask_def\<close>)

lemma leaked_step:
  assumes "workerStep matchSimple w w'" and "leaked i w"
  shows "leaked i w'"
  using assms
proof (induction rule: workerStep.induct)
  case (step_completions w)
  then show ?case by (simp add: leaked_def registerTaskCompletions_def fold_delete_keys)
next
  case (step_stop w j)
  then show ?case by (auto simp: leaked_def stopTask_def dom_update split: option.split)
next
  case (step_standby h w warm)
  then show ?case
    by (auto simp: leaked_def tryCreateStandby_def createInstance_def Let_def split: option.splits sum.splits prod.splits)
next
  case (step_finish g w)
  then show ?case using set_remove1_subset [of g "wGoroutines w"] by (auto simp: leaked_def completeTask_def Let_def)
qed (auto simp: leaked_def changeUpstream_def UpdateStandby_def leaked_start [unfolded leaked_def] split: option.split)

interpretation leakSystem: transition_system "workerStep matchSimple" "leaked i" "leaked i" for matchSimple i
  by unfold_locales (assumption, rule leaked_step)

lemma failed_start_leaks:
  assumes "startTask h u a w = (StartFailed e, w1)" and "tasksInv w" and "(workerStep matchSimple)\<^sup>*\<^sup>* w1 w2"
  shows "aatID a \<in> fst ` set (wTasks w2) \<and> startTask h' u' a w2 = (AlreadyRunning, w2)"
proof -
  have new: "\<not> mhas (wTasks w) (aatID a)" using assms(1) by (auto simp: startTask_def)
  obtain r wi where g: "getInstance h (aatIsolation a) (aatResources a) (w\<lparr>wTasks := mset_key (aatID a)
      \<lparr>wtUpstream = u, wtCancelled = False, wtResources = aatResources a\<rparr> (wTasks w)\<rparr>) = (r, wi)"
    by (rule prod.exhaust)
  then have "w1 = wi" using assms(1) new by (cases r) (simp_all add: startTask_def)
  then have "leaked (aatID a) w1"
    using getInstance_fields [OF g] new assms(2) by (auto simp: leaked_def tasksInv_def mhas_iff dom_update)
  then have "leaked (aatID a) w2" using assms(3) by (rule leakSystem.reachable_inv)
  then show ?thesis by (simp add: leaked_def startTask_def mhas_iff)
qed

text \<open>
  A modifier that is acquired for an instance other than a Vetu virtual machine stays locked when that
  instance is closed.
\<close>

lemma modifier_never_unlocked:
  assumes "Acquire requested 0 (wModifiers w) = (Some m, ms)" and "createInstance h i requested w = (Inr inst, w')"
    and "\<forall>v. inst \<noteq> VetuInst v"
  shows "modLocked (wModifiers (closeInstance inst w') ! m)"
proof -
  have "wModifiers w' = ms" using assms(1,2) by (auto simp: createInstance_def)
  moreover have "instModifier inst = None" using assms(3) by (cases inst) (simp_all add: instModifier_def)
  ultimately show ?thesis using Acquire_spec [OF assms(1)] by (simp add: closeInstance_def)
qed

end
