(* ===== verification/CacheRPC.thy ===== *)
theory CacheRPC
  imports BlobCache Executor Isolation
begin

text \<open>
  Package \<open>internal/executor/rpc\<close>, cache.go, artifacts.go and the addresses of gha_cache.go: the services
  through which an agent uploads and downloads caches and uploads artifacts. A stream of requests is
  a list of received messages or errors, its end is the end of the list; the outcome of sending a
  response is an argument. The cache directory is the one of \<open>BlobCache\<close>, the artifacts directory is a
  map from paths to contents.
\<close>

section \<open>The server\<close>

text \<open>\<open>rsHttpPort\<close> is the port of the listener for the HTTP caches, if there is one.\<close>

record rpcServer =
  rsClientSecret :: string
  rsBuild :: build
  rsContainerEndpoint :: string
  rsDirectEndpoint :: string
  rsHttpPort :: "nat option"
  rsGetenv :: "string \<Rightarrow> string"
  rsHost :: host
  rsArtifactsDir :: string

abbreviation rpcTask :: "rpcServer \<Rightarrow> requestMD \<Rightarrow> btask res" where
  "rpcTask r md \<equiv> taskFromMetadata (rsClientSecret r) (rsBuild r) md"

definition ghaCacheEnabled :: "rpcServer \<Rightarrow> bool" where
  "ghaCacheEnabled r = (rsGetenv r ''GITHUB_ACTIONS'' = ''true'' \<and> rsGetenv r ''ACTIONS_RESULTS_URL'' \<noteq> [])"

section \<open>Addresses\<close>

definition cacheEndpoint :: "rpcServer \<Rightarrow> requestMD \<Rightarrow> string" where
  "cacheEndpoint r md =
     (case md of
        None \<Rightarrow> rsContainerEndpoint r
      | Some m \<Rightarrow>
          (case map_of m ''org.cirruslabs.api-endpoint'' of
             Some (e # _) \<Rightarrow> if e \<noteq> [] then e else rsContainerEndpoint r
           | _ \<Rightarrow> rsContainerEndpoint r))"

definition asGRPCEndpoint :: "string \<Rightarrow> string" where
  "asGRPCEndpoint e =
     (if HasPrefix e ''http://'' then ''grpc://'' @ TrimPrefix e ''http://''
      else if HasPrefix e ''https://'' then ''grpcs://'' @ TrimPrefix e ''https://''
      else e)"

text \<open>\<open>strings.LastIndex(s, ":")\<close> as the text before the last colon.\<close>

definition beforeLastColon :: "string \<Rightarrow> string option" where
  "beforeLastColon s =
     (if CHR '':'' \<in> set s then Some (rev (tl (dropWhile (\<lambda>c. c \<noteq> CHR '':'') (rev s)))) else None)"

text \<open>The host that \<open>net.SplitHostPort\<close> returns, \<open>None\<close> for its errors.\<close>

definition splitHost :: "string \<Rightarrow> string option" where
  "splitHost s =
     (case beforeLastColon s of
        None \<Rightarrow> None
      | Some before \<Rightarrow>
          if HasPrefix s ''['' then
            (let inner = takeWhile (\<lambda>c. c \<noteq> CHR '']'') (tl s); end = length inner + 1
             in if end \<ge> length s \<or> length before \<noteq> end + 1 then None
                else if CHR ''['' \<in> set (drop 1 s) \<or> CHR '']'' \<in> set (drop (end + 1) s) then None
                else Some inner)
          else if CHR '':'' \<in> set before \<or> CHR ''['' \<in> set s \<or> CHR '']'' \<in> set s then None
          else Some before)"

definition containerReachableHost :: "rpcServer \<Rightarrow> string" where
  "containerReachableHost r = (if hostOS (rsHost r) = ''linux'' then ''172.17.0.1'' else ''host.docker.internal'')"

definition extractHost :: "string \<Rightarrow> string" where
  "extractHost endpoint =
     (let e = TrimPrefix (TrimPrefix (TrimPrefix endpoint ''http://'') ''https://'') ''unix:''
      in case beforeLastColon e of Some h \<Rightarrow> h | None \<Rightarrow> e)"

definition ghaCacheReachableHost :: "rpcServer \<Rightarrow> string \<Rightarrow> string" where
  "ghaCacheReachableHost r directEndpoint =
     (if HasPrefix directEndpoint ''unix:'' then containerReachableHost r
      else case splitHost (TrimPrefix (TrimPrefix directEndpoint ''http://'') ''https://'') of
          None \<Rightarrow> extractHost directEndpoint
        | Some h \<Rightarrow>
            if h \<in> {[], ''127.0.0.1'', ''::1'', ''::'', ''0.0.0.0''} then containerReachableHost r else h)"

definition ghaCacheHTTPBase :: "rpcServer \<Rightarrow> string res" where
  "ghaCacheHTTPBase r =
     (case rsHttpPort r of
        None \<Rightarrow> Inl (Panic ''nil pointer dereference'')
      | Some port \<Rightarrow> Inr (''http://'' @ ghaCacheReachableHost r (rsDirectEndpoint r) @ '':'' @ FormatUint port))"

definition ghaCacheHTTPBaseForTask :: "rpcServer \<Rightarrow> requestMD \<Rightarrow> string res" where
  "ghaCacheHTTPBaseForTask r md =
     (case (rpcTask r md, rsHttpPort r) of
        (Inr t, Some port) \<Rightarrow>
          if btInstance t = FreeBSDI then Inr (''http://10.0.2.2:'' @ FormatUint port) else ghaCacheHTTPBase r
      | _ \<Rightarrow> ghaCacheHTTPBase r)"

text \<open>\<open>url.PathEscape\<close>.\<close>

definition upperHex :: "nat \<Rightarrow> char" where
  "upperHex n = ''0123456789ABCDEF'' ! n"

definition pathSafeChar :: "char \<Rightarrow> bool" where
  "pathSafeChar c = (isDigit c \<or> isLower c \<or> isUpper c \<or> c \<in> set ''-_.~$&+:=@'')"

definition PathEscape :: "string \<Rightarrow> string" where
  "PathEscape s =
     concat (map (\<lambda>c. if pathSafeChar c then [c]
                      else [CHR ''%'', upperHex (of_char c div 16), upperHex (of_char c mod 16)]) s)"

definition GenerateCacheUploadURL :: "rpcServer \<Rightarrow> requestMD \<Rightarrow> string \<Rightarrow> string res" where
  "GenerateCacheUploadURL r md key =
     (if \<not> ghaCacheEnabled r then Inr (asGRPCEndpoint (cacheEndpoint r md))
      else case ghaCacheHTTPBaseForTask r md of
          Inl e \<Rightarrow> Inl e
        | Inr base \<Rightarrow> Inr (base @ ''/cirrus-gha-cache/upload/'' @ PathEscape key))"

definition GenerateCacheDownloadURLs :: "rpcServer \<Rightarrow> requestMD \<Rightarrow> string \<Rightarrow> string list res" where
  "GenerateCacheDownloadURLs r md key =
     (if \<not> ghaCacheEnabled r then Inr [asGRPCEndpoint (cacheEndpoint r md)]
      else case ghaCacheHTTPBaseForTask r md of
          Inl e \<Rightarrow> Inl e
        | Inr base \<Rightarrow> Inr [base @ ''/cirrus-gha-cache/download/'' @ PathEscape key])"

section \<open>Uploads of caches\<close>

record writeRequest =
  wrResourceName :: string
  wrData :: string
  wrFinishWrite :: bool

text \<open>
  The loop over the stream: the put operation is created by the first message. It ends with the
  error of the stream or with the put operation and the number of bytes written to it.
\<close>

fun writeLoop ::
  "string \<Rightarrow> int \<Rightarrow> (err + writeRequest) list \<Rightarrow> (putOperation option \<times> int) \<Rightarrow> dir \<Rightarrow>
     (putOperation option \<times> int) res \<times> dir" where
  "writeLoop suffx now [] st d = (Inr st, d)"
| "writeLoop suffx now (Inl e # ms) st d = (Inl e, d)"
| "writeLoop suffx now (Inr m # ms) (putOp, bytesSaved) d =
     (let (op, d1) = (case putOp of None \<Rightarrow> Put suffx now (wrResourceName m) d | Some op \<Rightarrow> (op, d));
          (op2, d2) = Write now (wrData m) (op, d1);
          st = (Some op2, bytesSaved + int (length (wrData m)))
      in if wrFinishWrite m then (Inr st, d2) else writeLoop suffx now ms st d2)"

definition RPC_Write ::
  "rpcServer \<Rightarrow> string \<Rightarrow> int \<Rightarrow> requestMD \<Rightarrow> err option \<Rightarrow> (err + writeRequest) list \<Rightarrow> dir \<Rightarrow> int res \<times> dir" where
  "RPC_Write r suffx now md closeErr stream d =
     (case rpcTask r md of
        Inl e \<Rightarrow> (Inl e, d)
      | Inr _ \<Rightarrow>
          (case writeLoop suffx now stream (None, 0) d of
             (Inl e, d') \<Rightarrow> (Inl e, d')
           | (Inr (None, _), d') \<Rightarrow>
               (Inl (Plain ''FailedPrecondition: attempted to upload cache without actually sending anything'' []), d')
           | (Inr (Some op, bytesSaved), d') \<Rightarrow>
               (case closeErr of Some e \<Rightarrow> Inl e | None \<Rightarrow> Inr bytesSaved, Finalize now op d')))"

section \<open>Downloads of caches\<close>

definition sendBufSize :: nat where
  "sendBufSize = 1024 * 1024"

datatype sendResult = SendOk | SendEOF | SendErr err

fun sendLoop :: "(nat \<Rightarrow> sendResult) \<Rightarrow> nat \<Rightarrow> string list \<Rightarrow> err option \<times> string list" where
  "sendLoop snd_result i [] = (None, [])"
| "sendLoop snd_result i (c # cs) =
     (case snd_result i of
        SendOk \<Rightarrow> (let (e, sent) = sendLoop snd_result (Suc i) cs in (e, c # sent))
      | SendEOF \<Rightarrow> (None, [])
      | SendErr e \<Rightarrow> (Some e, []))"

text \<open>
  A read of a regular file fills the buffer unless less is left; a directory can be opened but not
  read. The result is the error and the chunks that were sent.
\<close>

definition RPC_Read ::
  "rpcServer \<Rightarrow> requestMD \<Rightarrow> (nat \<Rightarrow> sendResult) \<Rightarrow> string \<Rightarrow> dir \<Rightarrow> err option \<times> string list" where
  "RPC_Read r md snd_result key d =
     (case rpcTask r md of
        Inl e \<Rightarrow> (Some e, [])
      | Inr _ \<Rightarrow>
          (case Get d key of
             Inl e \<Rightarrow> (Some (Plain ''NotFound: cache blob with the specified key not found'' []), [])
           | Inr f \<Rightarrow>
               if fIsDir f then (Some (Plain ''Internal: failed to read cache blob'' []), [])
               else sendLoop snd_result 0 (chunksOf sendBufSize (fContent f))))"

section \<open>Information about caches\<close>

record cacheInfo =
  ciKey :: string
  ciSizeInBytes :: int
  ciCreationTimestamp :: int

text \<open>
  The loop over the prefixes starts with the error of the lookup by key, if there was one, and ends
  with the error of its last lookup.
\<close>

fun prefixLoop :: "dir \<Rightarrow> string list \<Rightarrow> err option \<Rightarrow> (string \<times> blobFile) option \<times> err option" where
  "prefixLoop d [] e = (None, e)"
| "prefixLoop d (p # ps) e =
     (case FindByPrefix d p of
        Inl e' \<Rightarrow> prefixLoop d ps (Some e')
      | Inr nf \<Rightarrow> (Some nf, None))"

text \<open>\<open>ghaInfo\<close> is the answer of the GitHub service; \<open>size\<close> of a directory is not modelled, it is 0 here.\<close>

definition CacheInfo ::
  "rpcServer \<Rightarrow> requestMD \<Rightarrow> (string \<Rightarrow> string list \<Rightarrow> cacheInfo res) \<Rightarrow> string \<Rightarrow> string list \<Rightarrow> dir \<Rightarrow> cacheInfo res" where
  "CacheInfo r md ghaInfo cacheKey pfxs d =
     (case rpcTask r md of
        Inl e \<Rightarrow> Inl e
      | Inr _ \<Rightarrow>
          if ghaCacheEnabled r then ghaInfo cacheKey pfxs
          else
            (let byKey = (if cacheKey \<noteq> [] then Some (Get d cacheKey) else None);
                 info = (\<lambda>k f. \<lparr>ciKey = k, ciSizeInBytes = int (length (fContent f)), ciCreationTimestamp = fTime f\<rparr>)
             in case byKey of
                  Some (Inr f) \<Rightarrow> Inr (info cacheKey f)
                | _ \<Rightarrow>
                    (case prefixLoop d pfxs (case byKey of Some (Inl e) \<Rightarrow> Some e | _ \<Rightarrow> None) of
                       (Some (n, f), _) \<Rightarrow> Inr (info n f)
                     | (None, Some e) \<Rightarrow> Inl (Plain ''NotFound: cache blob with the specified key not found'' [])
                     | (None, None) \<Rightarrow> Inl (Plain ''invalid argument'' []))))"

section \<open>Artifacts\<close>

datatype artifactEntry =
    ArtifactsUpload string
  | ArtifactChunk string string
  | OtherEntry

text \<open>
  The writer: the open file is the one at \<open>awPath\<close>. \<open>fsFails\<close> is the error of the file system, if any,
  for the creation of the directories and the file of a path; the bytes of an open file can be written.
\<close>

record artifactWriter =
  awBaseDir :: string
  awPath :: string
  awOpen :: bool

definition NewArtifactWriter :: "string \<Rightarrow> artifactWriter" where
  "NewArtifactWriter baseDir = \<lparr>awBaseDir = baseDir, awPath = [], awOpen = False\<rparr>"

definition appendTo :: "string \<Rightarrow> string \<Rightarrow> env \<Rightarrow> env" where
  "appendTo pth bytes fs = mset_key pth (mget fs pth @ bytes) fs"

definition WriteTo ::
  "(string \<Rightarrow> err option) \<Rightarrow> string \<Rightarrow> string \<Rightarrow> artifactWriter \<times> env \<Rightarrow> err option \<times> artifactWriter \<times> env" where
  "WriteTo fsFails name bytes st =
     (case st of (aw, fs) \<Rightarrow>
        let pth = filepathJoin [awBaseDir aw, name]
        in if awPath aw \<noteq> pth then
             (case fsFails pth of
                Some e \<Rightarrow> (Some e, aw\<lparr>awOpen := False\<rparr>, fs)
              | None \<Rightarrow> (None, aw\<lparr>awPath := pth, awOpen := True\<rparr>, appendTo pth bytes (mset_key pth [] fs)))
           else if awOpen aw then (None, aw, appendTo pth bytes fs)
           else (Some (Plain ''invalid argument'' []), aw, fs))"

fun artifactLoop ::
  "rpcServer \<Rightarrow> (string \<Rightarrow> err option) \<Rightarrow> (err + artifactEntry) list \<Rightarrow> string \<Rightarrow> artifactWriter \<times> env \<Rightarrow>
     err option \<times> artifactWriter \<times> env" where
  "artifactLoop r fsFails [] curName st = (None, st)"
| "artifactLoop r fsFails (Inl e # ms) curName st = (Some e, st)"
| "artifactLoop r fsFails (Inr m # ms) curName st =
     (if rsArtifactsDir r = [] then artifactLoop r fsFails ms curName st
      else case m of
          ArtifactsUpload n \<Rightarrow> artifactLoop r fsFails ms n st
        | ArtifactChunk p bytes \<Rightarrow>
            if \<not> IsPathSafe (rsHost r) curName then artifactLoop r fsFails ms curName st
            else (case WriteTo fsFails (filepathJoin [curName, p]) bytes st of
                    (Some e, st') \<Rightarrow> (Some e, st')
                  | (None, st') \<Rightarrow> artifactLoop r fsFails ms curName st')
        | OtherEntry \<Rightarrow> artifactLoop r fsFails ms curName st)"

definition UploadArtifacts ::
  "rpcServer \<Rightarrow> (string \<Rightarrow> err option) \<Rightarrow> err option \<Rightarrow> (err + artifactEntry) list \<Rightarrow> env \<Rightarrow> err option \<times> env" where
  "UploadArtifacts r fsFails closeErr stream fs =
     (case artifactLoop r fsFails stream [] (NewArtifactWriter (rsArtifactsDir r), fs) of
        (Some e, _, fs') \<Rightarrow> (Some e, fs')
      | (None, _, fs') \<Rightarrow> (closeErr, fs'))"

section \<open>Chunks\<close>

lemma concat_chunksOf: "0 < n \<Longrightarrow> concat (chunksOf n xs) = xs"
  by (induction n xs rule: chunksOf.induct) (subst chunksOf.simps, simp)

lemma chunksOf_sizes: "c \<in> set (chunksOf n xs) \<Longrightarrow> c \<noteq> [] \<and> length c \<le> n"
proof (induction n xs rule: chunksOf.induct)
  case (1 n xs)
  then have ne: "n \<noteq> 0" "xs \<noteq> []" by (auto simp: chunksOf.simps [of n xs] split: if_splits)
  then consider "c = take n xs" | "c \<in> set (chunksOf n (drop n xs))"
    using "1.prems" by (auto simp: chunksOf.simps [of n xs])
  then show ?case using "1.IH" ne by cases auto
qed

lemma sendLoop_ok: "sendLoop (\<lambda>_. SendOk) i cs = (None, cs)"
  by (induction cs arbitrary: i) auto

lemma RPC_Read_cong: "Get d' key = Get d key \<Longrightarrow> RPC_Read r md snd_result key d' = RPC_Read r md snd_result key d"
  by (cases "rpcTask r md") (simp_all add: RPC_Read_def)

section \<open>What a put keeps of the other files\<close>

lemma Write_map:
  assumes "Write now p (op, d) = (op', d')"
  shows "tmpBlobFile op' = tmpBlobFile op \<and> finalBlobPath op' = finalBlobPath op \<and>
    (\<forall>n. n \<noteq> tmpBlobFile op \<longrightarrow> map_of d' n = map_of d n) \<and>
    (\<forall>n. map_option fIsDir (map_of d' n) = map_option fIsDir (map_of d n))"
  using assms
  by (auto simp: Write_def Let_def case_prod_unfold map_of_appendFile option.map_comp comp_def)

lemma fold_Write_map:
  assumes "fold (Write now) chunks (op, d) = (op', d')"
  shows "tmpBlobFile op' = tmpBlobFile op \<and> finalBlobPath op' = finalBlobPath op \<and>
    (\<forall>n. n \<noteq> tmpBlobFile op \<longrightarrow> map_of d' n = map_of d n) \<and>
    (\<forall>n. map_option fIsDir (map_of d' n) = map_option fIsDir (map_of d n))"
  using assms
proof (induction chunks arbitrary: op d)
  case (Cons p chunks)
  obtain op1 d1 where w: "Write now p (op, d) = (op1, d1)" by force
  then show ?case using Cons.IH [of op1 d1] Cons.prems Write_map [OF w] by auto
qed simp

lemma Finalize_map:
  assumes "map_of d (tmpBlobFile op) = Some f" and "finalBlobPath op \<noteq> tmpBlobFile op"
  shows "map_option fIsDir (map_of (Finalize now op d) (finalBlobPath op)) = Some (fIsDir f) \<and>
    (\<forall>n. n \<noteq> finalBlobPath op \<longrightarrow> n \<noteq> tmpBlobFile op \<longrightarrow> map_of (Finalize now op d) n = map_of d n)"
  using assms by (auto simp: Finalize_def Rename_def map_of_appendFile update_conv' delete_conv')

lemma putBlob_map:
  "map_option fIsDir (map_of (putBlob suffx now key chunks d) (blobName key)) = Some False \<and>
   (\<forall>n. n \<noteq> blobName key \<longrightarrow> n \<noteq> tmpName suffx \<longrightarrow> map_of (putBlob suffx now key chunks d) n = map_of d n)"
proof -
  obtain op0 d0 where p: "Put suffx now key d = (op0, d0)" by force
  obtain op1 d1 where w: "fold (Write now) chunks (op0, d0) = (op1, d1)" by force
  have o0: "tmpBlobFile op0 = tmpName suffx" "finalBlobPath op0 = blobName key"
    "map_option fIsDir (map_of d0 (tmpName suffx)) = Some False"
    "\<And>m. m \<noteq> tmpName suffx \<Longrightarrow> map_of d0 m = map_of d m"
    using p by (auto simp: Put_def Let_def update_conv')
  have o1: "tmpBlobFile op1 = tmpName suffx" "finalBlobPath op1 = blobName key"
    "\<And>m. m \<noteq> tmpName suffx \<Longrightarrow> map_of d1 m = map_of d m"
    "map_option fIsDir (map_of d1 (tmpName suffx)) = Some False"
    using fold_Write_map [OF w] o0 by auto
  obtain f where f: "map_of d1 (tmpBlobFile op1) = Some f" "fIsDir f = False" using o1(1,4) by auto
  show ?thesis
    using Finalize_map [OF f(1), of now] f(2) o1 blobName_not_tmp by (simp add: putBlob_def p w Let_def)
qed

section \<open>The upload loop\<close>

lemma writeLoop_some:
  assumes "\<forall>m \<in> set (butlast reqs). \<not> wrFinishWrite m" and "reqs = [] \<or> rest = [] \<or> wrFinishWrite (last reqs)"
    and "reqs = [] \<longrightarrow> rest = []" and "fold (Write now) (map wrData reqs) (op, d) = (op', d')"
  shows "writeLoop suffx now (map Inr reqs @ rest) (Some op, n) d =
    (Inr (Some op', n + int (length (concat (map wrData reqs)))), d')"
  using assms
proof (induction reqs arbitrary: op n d)
  case (Cons m reqs)
  obtain op1 d1 where w: "Write now (wrData m) (op, d) = (op1, d1)" by force
  have eq: "fold (Write now) (map wrData reqs) (op1, d1) = (op', d')" using Cons.prems(4) w by simp
  show ?case
  proof (cases "reqs = []")
    case True
    then show ?thesis using Cons.prems(2,3) w eq by (auto simp: Let_def)
  next
    case False
    then have "\<not> wrFinishWrite m" "\<forall>m \<in> set (butlast reqs). \<not> wrFinishWrite m" "rest = [] \<or> wrFinishWrite (last reqs)"
      using Cons.prems(1,2) by auto
    then show ?thesis using Cons.IH [of op1 d1 "n + int (length (wrData m))"] eq w False by simp
  qed
qed simp

lemma writeLoop_complete:
  assumes "reqs \<noteq> []" and "\<forall>m \<in> set (butlast reqs). \<not> wrFinishWrite m" and "rest = [] \<or> wrFinishWrite (last reqs)"
    and "fold (Write now) (map wrData reqs) (Put suffx now (wrResourceName (hd reqs)) d) = (op', d')"
  shows "writeLoop suffx now (map Inr reqs @ rest) (None, 0) d =
    (Inr (Some op', int (length (concat (map wrData reqs)))), d')"
proof -
  obtain op0 d0 where p: "Put suffx now (wrResourceName (hd reqs)) d = (op0, d0)" by force
  have "writeLoop suffx now (map Inr reqs @ rest) (None, 0) d = writeLoop suffx now (map Inr reqs @ rest) (Some op0, 0) d0"
    using assms(1) p by (cases reqs) auto
  then show ?thesis using writeLoop_some [of reqs rest now op0 d0 op' d' suffx 0] assms p by simp
qed

lemma RPC_Write_complete:
  assumes "rpcTask r md = Inr t" and "reqs \<noteq> []" and "\<forall>m \<in> set (butlast reqs). \<not> wrFinishWrite m"
    and "rest = [] \<or> wrFinishWrite (last reqs)"
  shows "RPC_Write r suffx now md None (map Inr reqs @ rest) d =
    (Inr (int (length (concat (map wrData reqs)))), putBlob suffx now (wrResourceName (hd reqs)) (map wrData reqs) d)"
proof -
  obtain op' d' where f: "fold (Write now) (map wrData reqs) (Put suffx now (wrResourceName (hd reqs)) d) = (op', d')" by force
  show ?thesis
    using assms(1) writeLoop_complete [OF assms(2-4) f] f by (simp add: RPC_Write_def putBlob_def Let_def)
qed

lemma writeLoop_keeps:
  assumes "writeLoop suffx now ms (putOp, n) d = (res, d')"
    and "\<forall>op. putOp = Some op \<longrightarrow> tmpBlobFile op = tmpName suffx"
  shows "m \<noteq> tmpName suffx \<longrightarrow> map_of d' m = map_of d m"
  using assms
proof (induction ms arbitrary: putOp n d)
  case (Cons x ms)
  show ?case
  proof (cases x)
    case (Inr req)
    obtain op d1 where o: "(case putOp of None \<Rightarrow> Put suffx now (wrResourceName req) d | Some op \<Rightarrow> (op, d)) = (op, d1)" by force
    obtain op2 d2 where w: "Write now (wrData req) (op, d1) = (op2, d2)" by force
    have tmp: "tmpBlobFile op = tmpName suffx" "m \<noteq> tmpName suffx \<longrightarrow> map_of d1 m = map_of d m"
      using o Cons.prems(2) by (auto simp: Put_def Let_def update_conv' split: option.splits)
    then have d2: "m \<noteq> tmpName suffx \<longrightarrow> map_of d2 m = map_of d m" "tmpBlobFile op2 = tmpName suffx"
      using Write_map [OF w] by auto
    show ?thesis
    proof (cases "wrFinishWrite req")
      case True
      then show ?thesis using Cons.prems(1) Inr o w d2 by simp
    next
      case False
      then show ?thesis using Cons.prems(1) Inr o w d2 Cons.IH [of "Some op2" _ d2] by simp
    qed
  qed (use Cons.prems in simp)
qed simp

section \<open>Properties\<close>

text \<open>A server with one task, and the metadata of its agent.\<close>

definition witnessTask :: btask where
  "witnessTask = \<lparr>btID = 1, btRequired = [], btName = ''t'', btLabels = [], btStatus = New, btInstance = FreeBSDI,
    btTimeout = 0, btEnvironment = [], btCommands = []\<rparr>"

definition witnessServer :: rpcServer where
  "witnessServer = \<lparr>rsClientSecret = ''s'', rsBuild = [(1, witnessTask)], rsContainerEndpoint = [], rsDirectEndpoint = [],
    rsHttpPort = None, rsGetenv = (\<lambda>_. []),
    rsHost = \<lparr>hostOS = ''linux'', hostArch = ''amd64'', hostBinfmt = (\<lambda>_. False), hostWindowsContainers = False, hostQemu = False\<rparr>,
    rsArtifactsDir = ''/a''\<rparr>"

definition witnessMD :: requestMD where
  "witnessMD = Some [(''org.cirruslabs.task-id'', [''1'']), (''org.cirruslabs.client-secret'', [''s''])]"

lemma witness_auth: "rpcTask witnessServer witnessMD = Inr witnessTask"
proof -
  have "parseDigits 0 ''1'' = Some 1" by code_simp
  then have "ParseInt ''1'' = Inr 1" by (simp add: ParseInt_def HasPrefix_def)
  then show ?thesis
    by (simp add: witnessServer_def witnessMD_def taskFromMetadata_def extractTaskAuthMetadata_def GetTask_def)
qed

text \<open>
  C15. Upload and download: an authenticated upload whose messages arrive answers with the number of
  bytes, and a download under the same key then sends exactly these bytes, in non-empty chunks of at
  most 1 MiB. It leaves no temporary file, and downloads under other keys are what they were.
\<close>

theorem upload_download:
  assumes "rpcTask r md = Inr t" and "reqs \<noteq> []" and "\<forall>m \<in> set (butlast reqs). \<not> wrFinishWrite m"
    and "rest = [] \<or> wrFinishWrite (last reqs)"
  shows "\<exists>d' sent. RPC_Write r suffx now md None (map Inr reqs @ rest) d = (Inr (int (length (concat (map wrData reqs)))), d') \<and>
    RPC_Read r md (\<lambda>_. SendOk) (wrResourceName (hd reqs)) d' = (None, sent) \<and>
    concat sent = concat (map wrData reqs) \<and> (\<forall>c \<in> set sent. c \<noteq> [] \<and> length c \<le> 1024 * 1024) \<and>
    map_of d' (tmpName suffx) = None \<and>
    (\<forall>k snd_result. blobName k \<noteq> blobName (wrResourceName (hd reqs)) \<longrightarrow> RPC_Read r md snd_result k d' = RPC_Read r md snd_result k d)"
proof -
  let ?key = "wrResourceName (hd reqs)" and ?chunks = "map wrData reqs"
  let ?d = "putBlob suffx now ?key ?chunks d"
  obtain f where f: "map_of ?d (blobName ?key) = Some f" "fContent f = concat ?chunks" "\<not> fIsDir f"
    using putBlob_content [of suffx now ?key ?chunks d "blobName ?key"] putBlob_map [of suffx now ?key ?chunks d] by auto
  have read: "RPC_Read r md (\<lambda>_. SendOk) ?key ?d = (None, chunksOf sendBufSize (concat ?chunks))"
    using assms(1) f by (simp add: RPC_Read_def Get_def sendLoop_ok)
  have "sendBufSize > 0" by (simp add: sendBufSize_def)
  then have chunks: "concat (chunksOf sendBufSize (concat ?chunks)) = concat ?chunks" by (rule concat_chunksOf)
  have sizes: "\<forall>c \<in> set (chunksOf sendBufSize (concat ?chunks)). c \<noteq> [] \<and> length c \<le> 1024 * 1024"
    using chunksOf_sizes [of _ sendBufSize "concat ?chunks"] unfolding sendBufSize_def by blast
  have tmp: "map_of ?d (tmpName suffx) = None"
    using putBlob_content [of suffx now ?key ?chunks d "tmpName suffx"] blobName_not_tmp [of ?key suffx] by auto
  have "RPC_Read r md sr k ?d = RPC_Read r md sr k d" if "blobName k \<noteq> blobName ?key" for k sr
  proof -
    have "Get ?d k = Get d k"
      using that putBlob_map [of suffx now ?key ?chunks d] blobName_not_tmp [of k suffx] by (simp add: Get_def)
    then show ?thesis by (rule RPC_Read_cong)
  qed
  then show ?thesis using RPC_Write_complete [OF assms, of suffx now d] read chunks sizes tmp by blast
qed

theorem upload_download_witness:
  "\<exists>d' sent. RPC_Write witnessServer ''1'' 7 witnessMD None
      (map Inr [\<lparr>wrResourceName = ''k'', wrData = ''ab'', wrFinishWrite = False\<rparr>, \<lparr>wrResourceName = [], wrData = ''c'', wrFinishWrite = True\<rparr>]
       @ [Inl (Plain ''reset'' [])]) [] = (Inr 3, d') \<and>
    RPC_Read witnessServer witnessMD (\<lambda>_. SendOk) ''k'' d' = (None, sent) \<and> concat sent = ''abc''"
  using upload_download [of witnessServer witnessMD witnessTask
      "[\<lparr>wrResourceName = ''k'', wrData = ''ab'', wrFinishWrite = False\<rparr>, \<lparr>wrResourceName = [], wrData = ''c'', wrFinishWrite = True\<rparr>]"
      "[Inl (Plain ''reset'' [])]" "''1''" 7 "[]"] witness_auth
  by simp blast



text \<open>
  The directory as uploads make it: regular files that are blobs or unfinished uploads. Uploads keep it so,
  whether they succeed or fail.
\<close>

definition ownName :: "string \<Rightarrow> bool" where
  "ownName n = (isTmp n \<or> (\<exists>k. n = blobName k))"

definition cacheDirectory :: "dir \<Rightarrow> bool" where
  "cacheDirectory d = (wf_map d \<and> (\<forall>n f. map_of d n = Some f \<longrightarrow> \<not> fIsDir f \<and> ownName n))"

lemma ownName_intros [simp, intro]: "ownName (tmpName suffx)" "ownName (blobName k)"
  by (auto simp: ownName_def isTmp_def)

lemma isSafeChar_hex: "c \<in> set ''0123456789abcdef'' \<Longrightarrow> isSafeChar c"
proof -
  have "list_all isSafeChar ''0123456789abcdef''" by code_simp
  then show "c \<in> set ''0123456789abcdef'' \<Longrightarrow> isSafeChar c" unfolding list_all_iff by blast
qed

lemma blobName_idem: "blobName (blobName k) = blobName k"
proof (cases "needsSanitization k")
  case True
  have "sha256hex k \<noteq> []" using length_sha256hex [of k] by auto
  then have "\<not> needsSanitization (sha256hex k)"
    using set_sha256hex [of k] isSafeChar_hex by (auto simp: needsSanitization_def list_ex_iff)
  then show ?thesis using True by (simp add: blobName_def)
qed (simp add: blobName_def)

lemma cacheDirectory_appendFile:
  assumes "cacheDirectory d"
  shows "cacheDirectory (appendFile n bytes now d)"
proof -
  have "wf_map (appendFile n bytes now d)" using assms by (auto simp: appendFile_def cacheDirectory_def split: option.splits)
  then show ?thesis using assms by (auto simp: cacheDirectory_def map_of_appendFile split: if_splits)
qed

lemma cacheDirectory_Write: "cacheDirectory d \<Longrightarrow> Write now p (op, d) = (op', d') \<Longrightarrow> cacheDirectory d'"
  by (auto simp: Write_def Let_def case_prod_unfold cacheDirectory_appendFile)

lemma cacheDirectory_Put: "cacheDirectory d \<Longrightarrow> Put suffx now key d = (op, d') \<Longrightarrow> cacheDirectory d'"
  by (auto simp: Put_def Let_def cacheDirectory_def update_conv' split: if_splits)

lemma cacheDirectory_Finalize:
  assumes "cacheDirectory d" and "finalBlobPath op = blobName k"
  shows "cacheDirectory (Finalize now op d)"
proof -
  have ren: "cacheDirectory (Rename n (finalBlobPath op) e)" if "cacheDirectory e" for n e
  proof -
    have "wf_map (Rename n (finalBlobPath op) e)"
      using that by (auto simp: Rename_def cacheDirectory_def wf_map_def distinct_update distinct_delete split: option.splits)
    then show ?thesis
      using that assms(2)
      by (auto simp: Rename_def cacheDirectory_def update_conv' delete_conv' split: option.splits if_splits)
  qed
  show ?thesis using assms(1) by (simp add: Finalize_def ren cacheDirectory_appendFile)
qed

lemma cacheDirectory_writeLoop:
  assumes "writeLoop suffx now ms (putOp, n) d = (res, d')" and "cacheDirectory d"
    and "\<forall>op. putOp = Some op \<longrightarrow> (\<exists>k. finalBlobPath op = blobName k)"
  shows "cacheDirectory d' \<and> (\<forall>op m. res = Inr (Some op, m) \<longrightarrow> (\<exists>k. finalBlobPath op = blobName k))"
  using assms
proof (induction ms arbitrary: putOp n d)
  case (Cons x ms)
  show ?case
  proof (cases x)
    case (Inr req)
    obtain op d1 where o: "(case putOp of None \<Rightarrow> Put suffx now (wrResourceName req) d | Some op \<Rightarrow> (op, d)) = (op, d1)" by force
    obtain op2 d2 where w: "Write now (wrData req) (op, d1) = (op2, d2)" by force
    have op: "cacheDirectory d1" "\<exists>k. finalBlobPath op = blobName k"
      using o Cons.prems(2,3) cacheDirectory_Put by (auto simp: Put_def Let_def split: option.splits)
    then have d2: "cacheDirectory d2" "\<exists>k. finalBlobPath op2 = blobName k"
      using Write_map [OF w] cacheDirectory_Write [OF _ w] by auto
    show ?thesis
    proof (cases "wrFinishWrite req")
      case True
      then show ?thesis using Cons.prems(1) Inr o w d2 by auto
    next
      case False
      then show ?thesis using Cons.prems(1) Inr o w d2 Cons.IH [of "Some op2" _ d2] by simp
    qed
  qed (use Cons.prems in auto)
qed auto

lemma cacheDirectory_RPC_Write:
  assumes "cacheDirectory d" and "RPC_Write r suffx now md closeErr stream d = (res, d')"
  shows "cacheDirectory d'"
proof (cases "rpcTask r md")
  case (Inr t)
  obtain res1 d1 where w: "writeLoop suffx now stream (None, 0) d = (res1, d1)" by force
  have d1: "cacheDirectory d1" "\<And>op m. res1 = Inr (Some op, m) \<Longrightarrow> \<exists>k. finalBlobPath op = blobName k"
    using cacheDirectory_writeLoop [OF w assms(1)] by auto
  consider e where "res1 = Inl e" | m where "res1 = Inr (None, m)" | op m where "res1 = Inr (Some op, m)"
    by (cases res1) (use prod.exhaust option.exhaust in metis)+
  then show ?thesis
  proof cases
    case (3 op m)
    then show ?thesis using assms(2) Inr w d1 cacheDirectory_Finalize by (auto simp: RPC_Write_def)
  qed (use assms(2) Inr w d1 in \<open>auto simp: RPC_Write_def\<close>)
qed (use assms in \<open>auto simp: RPC_Write_def\<close>)

text \<open>
  C39. What \<open>CacheInfo\<close> reports can be downloaded: the key it answers with, be it the one that was asked for or
  the name of a blob found by a prefix, is one under which a download sends as many bytes as reported. The
  prefixes must not match the temporary files of unfinished uploads.
\<close>

theorem reported_cache_downloads:
  assumes "cacheDirectory d" and "\<not> ghaCacheEnabled r" and "rpcTask r md = Inr t"
    and "\<forall>p \<in> set pfxs. p \<noteq> [] \<and> hd p \<noteq> CHR ''.''" and "CacheInfo r md ghaInfo key pfxs d = Inr info"
  shows "(ciKey info = key \<or> (\<exists>p \<in> set pfxs. prefix p (ciKey info))) \<and>
    (\<exists>sent. RPC_Read r md (\<lambda>_. SendOk) (ciKey info) d = (None, sent) \<and> int (length (concat sent)) = ciSizeInBytes info)"
proof -
  have read: "\<exists>sent. RPC_Read r md (\<lambda>_. SendOk) k d = (None, sent) \<and> int (length (concat sent)) = int (length (fContent f))"
    if "map_of d (blobName k) = Some f" for k f
  proof -
    have "\<not> fIsDir f" using assms(1) that unfolding cacheDirectory_def by blast
    moreover have "sendBufSize > 0" by (simp add: sendBufSize_def)
    ultimately show ?thesis
      using assms(3) that concat_chunksOf [of sendBufSize "fContent f"] by (simp add: RPC_Read_def Get_def sendLoop_ok)
  qed
  have loop: "\<exists>p \<in> set ps. FindByPrefix d p = Inr nf" if "prefixLoop d ps e = (Some nf, e')" for ps e nf e'
    using that by (induction ps arbitrary: e) (auto split: sum.splits)
  have found: "prefix p n \<and> map_of d (blobName n) = Some f" if "p \<in> set pfxs" "FindByPrefix d p = Inr (n, f)" for p n f
  proof -
    have "(n, f) \<in> set (sort_key (\<lambda>(n, f). fTime f) (sort_key fst d))" "prefix p n"
      using that(2) by (auto simp: FindByPrefix_def HasPrefix_iff find_Some_iff in_set_conv_nth simp del: set_sort split: option.splits)
    moreover then have n: "map_of d n = Some f" using assms(1) by (auto simp: cacheDirectory_def wf_map_def)
    moreover have "\<not> isTmp n"
      using assms(4) that(1) \<open>prefix p n\<close> by (cases p) (auto simp: isTmp_def tmpName_def)
    ultimately show ?thesis using assms(1) blobName_idem unfolding cacheDirectory_def ownName_def by metis
  qed
  show ?thesis
  proof (cases "key \<noteq> [] \<and> is_ok (Get d key)")
    case True
    then obtain f where f: "Get d key = Inr f" "map_of d (blobName key) = Some f"
      by (auto simp: is_ok_iff Get_def split: option.splits)
    then have "info = \<lparr>ciKey = key, ciSizeInBytes = int (length (fContent f)), ciCreationTimestamp = fTime f\<rparr>"
      using assms(2,3,5) True by (simp add: CacheInfo_def)
    then show ?thesis using read [OF f(2)] by simp
  next
    case False
    then obtain n f e e' where l: "prefixLoop d pfxs e = (Some (n, f), e')" and
      i: "info = \<lparr>ciKey = n, ciSizeInBytes = int (length (fContent f)), ciCreationTimestamp = fTime f\<rparr>"
      using assms(2,3,5)
      by (auto simp: CacheInfo_def Let_def is_ok_iff split: if_splits sum.splits option.splits prod.splits)
    obtain p where "p \<in> set pfxs" "FindByPrefix d p = Inr (n, f)" using loop [OF l] by blast
    then show ?thesis using found [of p n f] read [of n f] i by auto
  qed
qed

theorem reported_cache_downloads_witness:
  "\<exists>info sent. CacheInfo witnessServer witnessMD (\<lambda>_ _. Inl (Plain [] [])) ''j'' [''k''] (putBlob ''1'' 7 ''k'' [''abc''] []) = Inr info \<and>
     RPC_Read witnessServer witnessMD (\<lambda>_. SendOk) (ciKey info) (putBlob ''1'' 7 ''k'' [''abc''] []) = (None, sent) \<and>
     int (length (concat sent)) = ciSizeInBytes info"
proof -
  let ?f = "\<lparr>fContent = ''abc'', fTime = 7, fIsDir = False\<rparr>" and ?d = "putBlob ''1'' 7 ''k'' [''abc''] []"
  have b: "blobName ''k'' = ''k''" "blobName ''j'' = ''j''" by code_simp+
  have w: "bufferedWrite [] ''abc'' = ([], ''abc'')" by (subst bufferedWrite.simps) (simp add: bufSize_def)
  have d: "?d = [(''k'', ?f)]"
    by (simp add: putBlob_def Put_def Write_def Finalize_def Rename_def appendFile_def tmpName_def w b Let_def)
  have "cacheDirectory ?d" using ownName_intros(2) [of "''k''"] b(1) by (simp add: d cacheDirectory_def wf_map_def)
  moreover have gha: "\<not> ghaCacheEnabled witnessServer" by (simp add: ghaCacheEnabled_def witnessServer_def)
  moreover have "CacheInfo witnessServer witnessMD (\<lambda>_ _. Inl (Plain [] [])) ''j'' [''k''] ?d =
      Inr \<lparr>ciKey = ''k'', ciSizeInBytes = 3, ciCreationTimestamp = 7\<rparr>"
    by (simp add: CacheInfo_def witness_auth gha d Get_def b FindByPrefix_def HasPrefix_def)
  ultimately show ?thesis
    using reported_cache_downloads [of ?d witnessServer witnessMD witnessTask "[''k'']" _ "''j''"] witness_auth by fastforce
qed

section \<open>Artifacts: what is stored and where\<close>

text \<open>The writes that a stream of entries asks for: the cleaned path below the artifacts directory and the bytes.\<close>

fun artifactWrites :: "rpcServer \<Rightarrow> artifactEntry list \<Rightarrow> string \<Rightarrow> (string \<times> string) list" where
  "artifactWrites r [] curName = []"
| "artifactWrites r (ArtifactsUpload n # ms) curName = artifactWrites r ms n"
| "artifactWrites r (ArtifactChunk p bytes # ms) curName =
     (if IsPathSafe (rsHost r) curName then
        (filepathJoin [rsArtifactsDir r, filepathJoin [curName, p]], bytes) # artifactWrites r ms curName
      else artifactWrites r ms curName)"
| "artifactWrites r (OtherEntry # ms) curName = artifactWrites r ms curName"

text \<open>The chunks of one path follow each other, as an agent that sends file after file sends them.\<close>

fun contiguous :: "'a list \<Rightarrow> bool" where
  "contiguous (x # y # ys) = ((x = y \<or> x \<notin> set (y # ys)) \<and> contiguous (y # ys))"
| "contiguous xs = True"

definition contentOf :: "(string \<times> string) list \<Rightarrow> string \<Rightarrow> string" where
  "contentOf ws q = concat (map snd (filter (\<lambda>w. fst w = q) ws))"

text \<open>One write to the open path \<open>p\<close>.\<close>

fun storeWrites :: "string \<Rightarrow> (string \<times> string) list \<Rightarrow> env \<Rightarrow> env" where
  "storeWrites p [] fs = fs"
| "storeWrites p ((q, bytes) # ws) fs = storeWrites q ws (appendTo q bytes (if p = q then fs else mset_key q [] fs))"

lemma artifactLoop_writes:
  assumes "rsArtifactsDir r \<noteq> []" and "awBaseDir aw = rsArtifactsDir r" and "awPath aw \<noteq> [] \<longrightarrow> awOpen aw"
    and "[] \<notin> fst ` set (artifactWrites r ms curName)"
  shows "\<exists>aw'. artifactLoop r (\<lambda>_. None) (map Inr ms) curName (aw, fs) =
    (None, aw', storeWrites (awPath aw) (artifactWrites r ms curName) fs)"
  using assms
proof (induction r ms curName arbitrary: aw fs rule: artifactWrites.induct)
  case (3 r p bytes ms curName)
  show ?case
  proof (cases "IsPathSafe (rsHost r) curName")
    case True
    let ?q = "filepathJoin [rsArtifactsDir r, filepathJoin [curName, p]]"
    have ne: "?q \<noteq> []" and rest: "[] \<notin> fst ` set (artifactWrites r ms curName)" using "3.prems"(4) True by auto
    show ?thesis
    proof (cases "awPath aw = ?q")
      case same: True
      then show ?thesis
        using "3.IH"(1) [OF True "3.prems"(1-3) rest, of "appendTo ?q bytes fs"] "3.prems"(1-3) True ne
        by (auto simp: WriteTo_def Let_def)
    next
      case False
      then show ?thesis
        using "3.IH"(1) [OF True "3.prems"(1), of "aw\<lparr>awPath := ?q, awOpen := True\<rparr>" "appendTo ?q bytes (mset_key ?q [] fs)"]
          "3.prems"(1-3) True ne rest
        by (auto simp: WriteTo_def Let_def)
    qed
  qed (use 3 in simp)
qed simp_all

lemma storeWrites_contents:
  assumes "contiguous (p # map fst ws)"
  shows "map_of (storeWrites p ws fs) q =
    (if q \<in> fst ` set ws then Some ((if q = p then mget fs q else []) @ contentOf ws q) else map_of fs q)"
  using assms
proof (induction p ws fs rule: storeWrites.induct)
  case (2 p q' bytes ws fs)
  let ?fs = "appendTo q' bytes (if p = q' then fs else mset_key q' [] fs)"
  have c: "contiguous (q' # map fst ws)" "p = q' \<or> p \<notin> fst ` set ((q', bytes) # ws)" using "2.prems" by auto
  have own: "mget ?fs q' = (if p = q' then mget fs q' else []) @ bytes" "map_of ?fs q' \<noteq> None"
    by (auto simp: appendTo_def mget_def update_conv')
  have other: "q \<noteq> q' \<Longrightarrow> map_of ?fs q = map_of fs q" by (simp add: appendTo_def update_conv')
  have own': "map_of ?fs q' = Some ((if p = q' then mget fs q' else []) @ bytes)" using own by (auto simp: mget_def)
  consider "q = q'" "q \<in> fst ` set ws" | "q = q'" "q \<notin> fst ` set ws" | "q \<noteq> q'" by blast
  then show ?case
  proof cases
    case 1
    then show ?thesis using "2.IH" [OF c(1)] own(1) by (auto simp: contentOf_def)
  next
    case 2
    then have "filter (\<lambda>w. fst w = q) ws = []" by (auto simp: filter_empty_conv)
    then show ?thesis using "2.IH" [OF c(1)] own' 2 by (auto simp: contentOf_def)
  next
    case 3
    then show ?thesis using "2.IH" [OF c(1)] other c(2) by (auto simp: contentOf_def mget_def)
  qed
qed simp

subsection \<open>Cleaned paths\<close>

lemma notin_tl [simp]: "x \<notin> set xs \<Longrightarrow> x \<notin> set (tl xs)"
  by (cases xs) auto

lemma artifactWrites_ne: "rsArtifactsDir r \<noteq> [] \<Longrightarrow> [] \<notin> fst ` set (artifactWrites r ms curName)"
  by (induction r ms curName rule: artifactWrites.induct) (simp_all add: filepathJoin_ne [symmetric] filepathJoin_ne)

text \<open>
  C40. Uploaded artifacts: when the chunks of a path follow each other, an upload stores for every path the
  concatenation of its chunks, replacing what was there, and touches no other file. Chunks of an artifact whose
  name is not safe are skipped. \<open>artifactWrites\<close> lists the paths and bytes that the entries ask for.
\<close>

theorem artifacts_stored:
  assumes "rsArtifactsDir r \<noteq> []" and "ws = artifactWrites r entries []" and "contiguous (map fst ws)"
  shows "\<exists>fs'. UploadArtifacts r (\<lambda>_. None) None (map Inr entries) fs = (None, fs') \<and>
    (\<forall>q. map_of fs' q = (if q \<in> fst ` set ws then Some (contentOf ws q) else map_of fs q))"
proof -
  have ne: "[] \<notin> fst ` set ws" using artifactWrites_ne assms(1,2) by blast
  obtain aw' where l: "artifactLoop r (\<lambda>_. None) (map Inr entries) [] (NewArtifactWriter (rsArtifactsDir r), fs) =
      (None, aw', storeWrites [] ws fs)"
    using artifactLoop_writes [of r "NewArtifactWriter (rsArtifactsDir r)" entries "[]" fs] assms(1,2) ne
    by (auto simp: NewArtifactWriter_def)
  have "contiguous ([] # map fst ws)" using assms(3) ne by (cases ws) auto
  then have "map_of (storeWrites [] ws fs) q = (if q \<in> fst ` set ws then Some (contentOf ws q) else map_of fs q)" for q
    using storeWrites_contents [of "[]" ws fs q] ne by auto
  then show ?thesis using l by (simp add: UploadArtifacts_def)
qed

theorem artifacts_stored_witness:
  "\<exists>fs'. UploadArtifacts witnessServer (\<lambda>_. None) None
      (map Inr [ArtifactsUpload ''bin'', ArtifactChunk ''x/y'' ''ab'', ArtifactChunk ''x/y'' ''c'', ArtifactsUpload ''..'', ArtifactChunk ''z'' ''d''])
      [(''/a/bin/x/y'', ''old'')] = (None, fs') \<and> map_of fs' ''/a/bin/x/y'' = Some ''abc'' \<and> map_of fs' ''/z'' = None"
proof -
  let ?es = "[ArtifactsUpload ''bin'', ArtifactChunk ''x/y'' ''ab'', ArtifactChunk ''x/y'' ''c'', ArtifactsUpload ''..'', ArtifactChunk ''z'' ''d'']"
  have ws: "artifactWrites witnessServer ?es [] = [(''/a/bin/x/y'', ''ab''), (''/a/bin/x/y'', ''c'')]" by code_simp
  have "rsArtifactsDir witnessServer \<noteq> []" by (simp add: witnessServer_def)
  from artifacts_stored [OF this refl, of ?es "[(''/a/bin/x/y'', ''old'')]"] show ?thesis
    unfolding ws by (auto simp: contentOf_def)
qed

subsection \<open>Where artifacts are stored\<close>

lemma IsPathSafe_comp: "IsPathSafe h n \<Longrightarrow> n \<noteq> [] \<and> n \<noteq> ''.'' \<and> n \<noteq> ''..'' \<and> CHR ''/'' \<notin> set n"
proof -
  have "\<not> (isUpper CHR ''/'' \<or> isLower CHR ''/'' \<or> isDigit CHR ''/'')"
    "\<not> (isUpper CHR ''.'' \<or> isLower CHR ''.'' \<or> isDigit CHR ''.'')" by code_simp+
  then show "IsPathSafe h n \<Longrightarrow> n \<noteq> [] \<and> n \<noteq> ''.'' \<and> n \<noteq> ''..'' \<and> CHR ''/'' \<notin> set n"
    by (auto simp: IsPathSafe_def list_all_iff)
qed

text \<open>
  A chunk path without \<open>..\<close> stays below the directory of its artifact: the components of the cleaned artifacts
  directory, then the name of the artifact, then components of the path.
\<close>

lemma filepathJoin_name:
  assumes "IsPathSafe h n" and "''..'' \<notin> set (SplitC (CHR ''/'') p)"
  shows "filepathJoin [n, p] = Join ''/'' (n # properComps (SplitC (CHR ''/'') p))"
proof -
  note n = IsPathSafe_comp [OF assms(1)]
  let ?s = "if p = [] then n else n @ ''/'' @ p"
  have j: "filepathJoin [n, p] = cleanPath ?s" using n by (simp add: filepathJoin_def)
  have split: "SplitC (CHR ''/'') ?s = n # (if p = [] then [] else SplitC (CHR ''/'') p)"
    using n SplitC_notin [of "CHR ''/''" n] SplitC_append [of "CHR ''/''" n p] by simp
  have "\<not> HasPrefix ?s ''/''" using n by (cases n) (auto simp: HasPrefix_def)
  moreover have "cleanComps False [] (SplitC (CHR ''/'') ?s) = rev (properComps (SplitC (CHR ''/'') ?s))"
    using cleanComps_proper [of "SplitC (CHR ''/'') ?s" False "[]"] assms(2) n unfolding split by auto
  moreover have "properComps (SplitC (CHR ''/'') ?s) = n # properComps (SplitC (CHR ''/'') p)"
    using n unfolding split by (simp add: properComps_def)
  ultimately show ?thesis unfolding j cleanPath_def by (simp add: Let_def)
qed

text \<open>
  Artifacts stay in their directory: for a safe artifact name, a chunk whose path has no \<open>..\<close> component is written
  below the directory of the artifact in the artifacts directory.
\<close>

theorem artifact_inside:
  assumes "IsPathSafe h n" and "''..'' \<notin> set (SplitC (CHR ''/'') p)" and "HasPrefix dirName ''/''"
  shows "\<exists>above below. cleanPath dirName = ''/'' @ Join ''/'' above \<and>
    filepathJoin [dirName, filepathJoin [n, p]] = ''/'' @ Join ''/'' (above @ n # below) \<and>
    (\<forall>c \<in> set below. c \<in> set (SplitC (CHR ''/'') p))"
proof -
  let ?below = "properComps (SplitC (CHR ''/'') p)" and ?sep = "CHR ''/''"
  let ?above = "rev (cleanComps True [] (SplitC ?sep dirName))"
  note n = IsPathSafe_comp [OF assms(1)]
  have ne: "filepathJoin [n, p] \<noteq> []" "dirName \<noteq> []" using n assms(3) by (auto simp: filepathJoin_ne HasPrefix_def)
  have j: "filepathJoin [dirName, filepathJoin [n, p]] = cleanPath (dirName @ ''/'' @ Join ''/'' (n # ?below))"
    using ne filepathJoin_name [OF assms(1,2)] by (simp add: filepathJoin_def [of "[dirName, _]"])
  have rooted: "HasPrefix (dirName @ xs) ''/''" for xs using assms(3) by (cases dirName) (auto simp: HasPrefix_def)
  have sep: "\<forall>c \<in> set (n # ?below). ?sep \<notin> set c" using n properComps_no_sep by auto
  have below: "\<forall>c \<in> set ?below. c \<in> set (SplitC ?sep p)" by (auto simp: properComps_def)
  have "SplitC ?sep (dirName @ ''/'' @ Join ''/'' (n # ?below)) = SplitC ?sep dirName @ n # ?below"
    using SplitC_append [of ?sep dirName "Join ''/'' (n # ?below)"] SplitC_Join [of "n # ?below" ?sep] sep by simp
  moreover have "''..'' \<notin> set (n # ?below)" using n below assms(2) by auto
  then have "cleanComps True out (n # ?below) = rev (n # ?below) @ out" for out
    using cleanComps_proper [of "n # ?below" True out] n by (simp add: properComps_def)
  ultimately have "cleanComps True [] (SplitC ?sep (dirName @ ''/'' @ Join ''/'' (n # ?below))) = rev (?above @ n # ?below)"
    by (simp add: cleanComps_append)
  then have "cleanPath (dirName @ ''/'' @ Join ''/'' (n # ?below)) = ''/'' @ Join ''/'' (?above @ n # ?below)"
    using rooted [of "''/'' @ Join ''/'' (n # ?below)"] by (simp add: cleanPath_def [of "dirName @ _"] Let_def)
  moreover have "cleanPath dirName = ''/'' @ Join ''/'' ?above" using assms(3) by (simp add: cleanPath_def Let_def)
  ultimately show ?thesis unfolding j by (intro exI [of _ ?above] exI [of _ ?below]) (use below in simp)
qed

theorem artifact_inside_witness:
  "\<exists>above below. cleanPath ''/a/./b'' = ''/'' @ Join ''/'' above \<and>
    filepathJoin [''/a/./b'', filepathJoin [''bin'', ''x//y'']] = ''/'' @ Join ''/'' (above @ ''bin'' # below) \<and>
    (\<forall>c \<in> set below. c \<in> set (SplitC (CHR ''/'') ''x//y''))"
proof -
  have "IsPathSafe exampleHost ''bin''" "''..'' \<notin> set (SplitC (CHR ''/'') ''x//y'')" "HasPrefix ''/a/./b'' ''/''" by code_simp+
  then show ?thesis by (rule artifact_inside)
qed

section \<open>Divergences\<close>

text \<open>
  Only the name of an artifact is checked, the path of a chunk is not: with \<open>..\<close> components it leaves the artifacts
  directory. Chunks that return to an earlier path truncate what was stored for it. Artifacts are accepted from
  requests without any metadata.
\<close>

lemma artifact_escapes:
  "UploadArtifacts witnessServer (\<lambda>_. None) None
     [Inr (ArtifactsUpload ''bin''), Inr (ArtifactChunk ''../../etc/x'' ''evil'')] [] = (None, [(''/etc/x'', ''evil'')])"
  by code_simp

lemma interleaved_artifact_truncated:
  "UploadArtifacts witnessServer (\<lambda>_. None) None
     [Inr (ArtifactsUpload ''bin''), Inr (ArtifactChunk ''x'' ''1''), Inr (ArtifactChunk ''y'' ''2''), Inr (ArtifactChunk ''x'' ''3'')] []
   = (None, [(''/a/bin/x'', ''3''), (''/a/bin/y'', ''2'')])"
  by code_simp

text \<open>
  The prefixes of restored caches are compared with file names: a key with a character outside of the safe ones is
  stored under its digest, which no prefix of the key matches.
\<close>

lemma hashed_key_not_found_by_prefix:
  assumes "blobName (''a/'' @ k) = sha256hex (''a/'' @ k)"
  shows "is_ok (FindByPrefix [(blobName (''a/'' @ k), f)] ''a/'') = False"
proof -
  have "CHR ''/'' \<notin> set (sha256hex (''a/'' @ k))" using set_sha256hex [of "''a/'' @ k"] by auto
  then have "\<not> HasPrefix (sha256hex (''a/'' @ k)) ''a/''" by (auto simp: HasPrefix_iff prefix_def)
  then show ?thesis using assms by (simp add: FindByPrefix_def)
qed

text \<open>An upload that breaks off leaves its temporary file in the cache directory.\<close>

lemma broken_upload_leaves_file:
  assumes "rpcTask r md = Inr t"
  shows "\<exists>e d' f. RPC_Write r suffx now md None [Inr (m\<lparr>wrFinishWrite := False\<rparr>), Inl e] [] = (Inl e, d') \<and> map_of d' (tmpName suffx) = Some f"
proof -
  obtain op2 d2 where w: "Write now (wrData m) (Put suffx now (wrResourceName m) []) = (op2, d2)" by force
  have "map_option fIsDir (map_of d2 (tmpName suffx)) = Some False"
    using Write_map [of now "wrData m" "fst (Put suffx now (wrResourceName m) [])" "snd (Put suffx now (wrResourceName m) [])" op2 d2] w
    by (simp add: Put_def Let_def)
  then show ?thesis using assms w by (auto simp: RPC_Write_def Let_def)
qed

end
