(* ===== verification/Instances.thy ===== *)
theory Instances
  imports Proto Isolation Environ
begin

text \<open>
  Package \<open>pkg/parser/instance\<close>: the parsers of the execution environments of a task, as tables of fields over
  the generic field parser. Number syntax of floating point values, durations and shell words is an argument
  (\<open>instKit\<close>). Letters are those of ASCII.
\<close>

section \<open>Services and callbacks\<close>

record instKit =
  ikKit :: parserKit
  parseFloat32 :: "string \<Rightarrow> gofloat res"
  parseFloat64 :: "string \<Rightarrow> gofloat res"
  formatFloat32 :: "gofloat \<Rightarrow> string"
  shlexSplit :: "string \<Rightarrow> string list res"
  durationSeconds :: "string \<Rightarrow> 64 word res"

definition wrapError :: "node \<Rightarrow> string \<Rightarrow> 'a res \<Rightarrow> 'a res" where
  "wrapError n fmt r = (case r of Inl e \<Rightarrow> Inl (ParserError n fmt (errText e)) | Inr v \<Rightarrow> Inr v)"

text \<open>A value that is read from the expanded string of a node.\<close>

definition getVia :: "env \<Rightarrow> (node \<Rightarrow> string \<Rightarrow> 'v res) \<Rightarrow> node \<Rightarrow> 'v res" where
  "getVia mergedEnv f n = (case GetExpandedStringValue n mergedEnv of Inl e \<Rightarrow> Inl e | Inr s \<Rightarrow> f n s)"

abbreviation strField :: "string \<Rightarrow> env \<Rightarrow> (string \<Rightarrow> 'a \<Rightarrow> 'a) \<Rightarrow> 'a treeState field" where
  "strField name mergedEnv upd \<equiv>
     OptionalField (SimpleNameable name) (setValue (\<lambda>n. GetExpandedStringValue n mergedEnv) upd)"

definition getFloat32 :: "instKit \<Rightarrow> env \<Rightarrow> node \<Rightarrow> gofloat res" where
  "getFloat32 kit mergedEnv = getVia mergedEnv (\<lambda>_. parseFloat32 kit)"

text \<open>\<open>uint32(memoryParsed)\<close> keeps the low 32 bits.\<close>

definition getMemory :: "env \<Rightarrow> node \<Rightarrow> 32 word res" where
  "getMemory mergedEnv =
     getVia mergedEnv (\<lambda>n s. map_sum id ucast (wrapError n ''%s'' (ParseMegaBytes s)))"

definition getUint :: "nat \<Rightarrow> string \<Rightarrow> env \<Rightarrow> node \<Rightarrow> 32 word res" where
  "getUint bits fmt mergedEnv =
     getVia mergedEnv (\<lambda>n s. map_sum id of_nat (wrapError n fmt (ParseUint s bits)))"

definition getBool :: "instKit \<Rightarrow> env \<Rightarrow> node \<Rightarrow> bool res" where
  "getBool kit mergedEnv n = GetBoolValue (boolEval (ikKit kit)) n mergedEnv"

definition platformValue :: "string \<Rightarrow> platform option" where
  "platformValue s =
     (let u = ToUpper s
      in if u = ''LINUX'' then Some LINUX else if u = ''WINDOWS'' then Some WINDOWS
         else if u = ''DARWIN'' then Some DARWIN else None)"

definition getPlatform :: "string \<Rightarrow> env \<Rightarrow> node \<Rightarrow> platform res" where
  "getPlatform fmt mergedEnv =
     getVia mergedEnv (\<lambda>n s. case platformValue s of None \<Rightarrow> Inl (ParserError n fmt [s]) | Some p \<Rightarrow> Inr p)"

text \<open>A callback that runs another parser on the node, and one that runs it on every child.\<close>

definition nested :: "(node \<Rightarrow> issue list \<Rightarrow> 'v res \<times> issue list) \<Rightarrow> ('v \<Rightarrow> 'a \<Rightarrow> 'a) \<Rightarrow> 'a treeState nodeFunc" where
  "nested parse upd n s =
     (case parse n (issues s) of
        (Inl e, is) \<Rightarrow> (Some e, s\<lparr>issues := is\<rparr>)
      | (Inr v, is) \<Rightarrow> (None, s\<lparr>issues := is, val := upd v (val s)\<rparr>))"

fun nestedEach ::
  "(node \<Rightarrow> issue list \<Rightarrow> 'v res \<times> issue list) \<Rightarrow> ('v \<Rightarrow> 'a \<Rightarrow> 'a) \<Rightarrow> node list \<Rightarrow> 'a treeState \<Rightarrow>
     err option \<times> 'a treeState" where
  "nestedEach parse upd [] s = (None, s)"
| "nestedEach parse upd (c # cs) s =
     (case nested parse upd c s of
        (Some e, s') \<Rightarrow> (Some e, s')
      | (None, s') \<Rightarrow> nestedEach parse upd cs s')"

definition ignored :: "string \<Rightarrow> 'a treeState field" where
  "ignored name = OptionalField (SimpleNameable name) (\<lambda>n s. (None, s))"

text \<open>What a parser returns after its fields have been read.\<close>

definition finish :: "(node \<Rightarrow> 'a \<Rightarrow> 'b res) \<Rightarrow> node \<Rightarrow> err option \<times> 'a treeState \<Rightarrow> 'b res \<times> issue list" where
  "finish f n r = (case r of (Some e, s) \<Rightarrow> (Inl e, issues s) | (None, s) \<Rightarrow> (f n (val s), issues s))"

section \<open>Additional containers\<close>

record portMapping =
  pmContainerPort :: "32 word"
  pmHostPort :: "32 word"

definition parsePort :: "string \<Rightarrow> portMapping res" where
  "parsePort port =
     (case SplitC2 (CHR '':'') port of
        [h, c] \<Rightarrow>
          (case ParseUint h 32 of
             Inl e \<Rightarrow> Inl e
           | Inr hostPort \<Rightarrow>
               (case ParseUint c 32 of
                  Inl e \<Rightarrow> Inl e
                | Inr containerPort \<Rightarrow> Inr \<lparr>pmContainerPort = of_nat containerPort, pmHostPort = of_nat hostPort\<rparr>))
      | ps \<Rightarrow>
          (case ParseUint (hd ps) 32 of
             Inl e \<Rightarrow> Inl e
           | Inr containerPort \<Rightarrow> Inr \<lparr>pmContainerPort = of_nat containerPort, pmHostPort = 0\<rparr>))"

record additionalContainer =
  acName :: string
  acImage :: string
  acPorts :: "portMapping list"
  acCpu :: gofloat
  acMemory :: "32 word"
  acCommand :: "string list"
  acReadinessCommand :: "string list"
  acPrivileged :: bool
  acEnvironment :: env

definition newAdditionalContainer :: additionalContainer where
  "newAdditionalContainer = \<lparr>acName = [], acImage = [], acPorts = [], acCpu = FloatFin 0, acMemory = 0, acCommand = [],
     acReadinessCommand = [], acPrivileged = False, acEnvironment = []\<rparr>"

abbreviation quotedArg :: string where
  "quotedArg \<equiv> [CHR 0x27] @ ''%s'' @ [CHR 0x27]"

definition getAcName :: "env \<Rightarrow> node \<Rightarrow> string res" where
  "getAcName mergedEnv =
     getVia mergedEnv (\<lambda>n name.
       if name = ''main'' then Inl (ParserError n (''use of reserved name '' @ quotedArg @ '' for an additional container,'' @
         '' please choose another one'') [name])
       else if list_ex (\<lambda>c. \<not> (isLower c \<or> isUpper c)) name then
         Inl (ParserError n (''additional container name '' @ quotedArg @ '' is invalid,'' @
           '' please only use letters without special symbols'') [name])
       else Inr name)"

definition getPorts :: "env \<Rightarrow> node \<Rightarrow> portMapping list res" where
  "getPorts mergedEnv n =
     (case GetSliceOfExpandedStrings n mergedEnv of
        Inl e \<Rightarrow> Inl e
      | Inr ports \<Rightarrow> mapE (\<lambda>port. wrapError n ''failed to parse port: %v'' (parsePort port)) ports)"

definition additionalContainerFields :: "instKit \<Rightarrow> env \<Rightarrow> additionalContainer treeState field list" where
  "additionalContainerFields kit mergedEnv =
     [OptionalField (SimpleNameable ''name'') (setValue (getAcName mergedEnv) (\<lambda>v a. a\<lparr>acName := v\<rparr>)),
      OptionalField (SimpleNameable ''environment'')
        (setValue GetMapOrListOfMaps (\<lambda>v a. a\<lparr>acEnvironment := Merge [acEnvironment a, v]\<rparr>)),
      OptionalField (SimpleNameable ''env'')
        (setValue GetMapOrListOfMaps (\<lambda>v a. a\<lparr>acEnvironment := Merge [acEnvironment a, v]\<rparr>)),
      RequiredField (SimpleNameable ''image'')
        (setValue (\<lambda>n. GetExpandedStringValue n mergedEnv) (\<lambda>v a. a\<lparr>acImage := v\<rparr>)),
      OptionalField (SimpleNameable ''port'')
        (setValue (getVia mergedEnv (\<lambda>n p. wrapError n ''failed to parse port: %v'' (parsePort p)))
          (\<lambda>v a. a\<lparr>acPorts := acPorts a @ [v]\<rparr>)),
      OptionalField (SimpleNameable ''ports'')
        (setValue (getPorts mergedEnv) (\<lambda>v a. a\<lparr>acPorts := acPorts a @ v\<rparr>)),
      OptionalField (SimpleNameable ''cpu'') (setValue (getFloat32 kit mergedEnv) (\<lambda>v a. a\<lparr>acCpu := v\<rparr>)),
      OptionalField (SimpleNameable ''memory'') (setValue (getMemory mergedEnv) (\<lambda>v a. a\<lparr>acMemory := v\<rparr>)),
      OptionalField (SimpleNameable ''command'')
        (setValue (getVia mergedEnv (\<lambda>n c. wrapError n ''failed to tokenize command: %v'' (shlexSplit kit c)))
          (\<lambda>v a. a\<lparr>acCommand := v\<rparr>)),
      OptionalField (SimpleNameable ''readiness_command'')
        (setValue GetSliceOfNonEmptyStrings (\<lambda>v a. a\<lparr>acReadinessCommand := v\<rparr>)),
      OptionalField (SimpleNameable ''privileged'')
        (setValue (getBool kit mergedEnv) (\<lambda>v a. a\<lparr>acPrivileged := v\<rparr>))]"

definition finishAdditionalContainer :: "node \<Rightarrow> additionalContainer \<Rightarrow> additionalContainer res" where
  "finishAdditionalContainer n a =
     (if HasChild n ''port'' \<and> HasChild n ''ports'' then
        Inl (ParserError n ''please only use \"ports\" field'' [])
      else Inr (a\<lparr>acCpu := (if acCpu a = FloatFin 0 then FloatFin (1 / 2) else acCpu a),
                  acMemory := (if acMemory a = 0 then 512 else acMemory a)\<rparr>))"

definition parseAdditionalContainer ::
  "instKit \<Rightarrow> env \<Rightarrow> node \<Rightarrow> issue list \<Rightarrow> additionalContainer res \<times> issue list" where
  "parseAdditionalContainer kit mergedEnv n is =
     finish finishAdditionalContainer n (parseOwn (additionalContainerFields kit mergedEnv) n is newAdditionalContainer)"

section \<open>Containers\<close>

datatype arch = ArchAMD64 | ArchARM64

record containerMsg =
  cmImage :: string
  cmCpu :: gofloat
  cmMemory :: "32 word"
  cmAdditionalContainers :: "additionalContainer list"
  cmPlatform :: platform
  cmDockerfile :: string
  cmDockerArguments :: env
  cmOsVersion :: string
  cmPrivileged :: bool
  cmArchitecture :: arch

definition newContainer :: "arch \<Rightarrow> containerMsg" where
  "newContainer a = \<lparr>cmImage = [], cmCpu = FloatFin 0, cmMemory = 0, cmAdditionalContainers = [], cmPlatform = LINUX,
     cmDockerfile = [], cmDockerArguments = [], cmOsVersion = [], cmPrivileged = False, cmArchitecture = a\<rparr>"

text \<open>The reset of \<open>dockerfile\<close> by \<open>image\<close> happens before the value is read.\<close>

definition setImage :: "env \<Rightarrow> containerMsg treeState nodeFunc" where
  "setImage mergedEnv n s =
     setValue (\<lambda>n. GetExpandedStringValue n mergedEnv) (\<lambda>v a. a\<lparr>cmImage := v\<rparr>) n
       (s\<lparr>val := (val s)\<lparr>cmDockerfile := []\<rparr>\<rparr>)"

definition containerFields :: "instKit \<Rightarrow> env \<Rightarrow> containerMsg treeState field list" where
  "containerFields kit mergedEnv =
     [OptionalField (SimpleNameable ''image'') (setImage mergedEnv),
      strField ''dockerfile'' mergedEnv (\<lambda>v a. a\<lparr>cmDockerfile := v\<rparr>),
      OptionalField (SimpleNameable ''docker_arguments'')
        (setValue (\<lambda>n. GetMapOrListOfMapsWithExpansion n mergedEnv) (\<lambda>v a. a\<lparr>cmDockerArguments := v\<rparr>)),
      OptionalField (SimpleNameable ''cpu'') (setValue (getFloat32 kit mergedEnv) (\<lambda>v a. a\<lparr>cmCpu := v\<rparr>)),
      OptionalField (SimpleNameable ''memory'') (setValue (getMemory mergedEnv) (\<lambda>v a. a\<lparr>cmMemory := v\<rparr>)),
      OptionalField (SimpleNameable ''privileged'')
        (setValue (getBool kit mergedEnv) (\<lambda>v a. a\<lparr>cmPrivileged := v\<rparr>)),
      OptionalField (SimpleNameable ''additional_containers'')
        (\<lambda>n. nestedEach (parseAdditionalContainer kit mergedEnv)
          (\<lambda>v a. a\<lparr>cmAdditionalContainers := cmAdditionalContainers a @ [v]\<rparr>) (nkids n)),
      ignored ''kvm'', ignored ''registry_config'', ignored ''use_in_memory_disk'', ignored ''use_static_ip'']"

definition finishContainer :: "node \<Rightarrow> containerMsg \<Rightarrow> containerMsg res" where
  "finishContainer n c =
     Inr (c\<lparr>cmCpu := (if cmCpu c = FloatFin 0 then FloatFin 2 else cmCpu c),
            cmMemory := (if cmMemory c = 0 then 4096 else cmMemory c),
            cmDockerArguments := (if cmDockerfile c = [] then [] else cmDockerArguments c)\<rparr>)"

definition parseContainer ::
  "instKit \<Rightarrow> arch \<Rightarrow> env \<Rightarrow> node \<Rightarrow> issue list \<Rightarrow> containerMsg res \<times> issue list" where
  "parseContainer kit a mergedEnv n is =
     finish finishContainer n (parseOwn (containerFields kit mergedEnv) n is (newContainer a))"

definition windowsContainerFields :: "instKit \<Rightarrow> env \<Rightarrow> containerMsg treeState field list" where
  "windowsContainerFields kit mergedEnv =
     [OptionalField (SimpleNameable ''image'') (setImage mergedEnv),
      strField ''dockerfile'' mergedEnv (\<lambda>v a. a\<lparr>cmDockerfile := v\<rparr>),
      OptionalField (SimpleNameable ''docker_arguments'')
        (setValue GetStringMapping (\<lambda>v a. a\<lparr>cmDockerArguments := v\<rparr>)),
      strField ''os_version'' mergedEnv (\<lambda>v a. a\<lparr>cmOsVersion := v\<rparr>),
      OptionalField (SimpleNameable ''cpu'') (setValue (getFloat32 kit mergedEnv) (\<lambda>v a. a\<lparr>cmCpu := v\<rparr>)),
      OptionalField (SimpleNameable ''memory'') (setValue (getMemory mergedEnv) (\<lambda>v a. a\<lparr>cmMemory := v\<rparr>)),
      ignored ''use_static_ip'']"

definition newWindowsContainer :: containerMsg where
  "newWindowsContainer = (newContainer ArchAMD64)\<lparr>cmPlatform := WINDOWS, cmOsVersion := ''2019''\<rparr>"

definition parseWindowsContainer :: "instKit \<Rightarrow> env \<Rightarrow> node \<Rightarrow> issue list \<Rightarrow> containerMsg res \<times> issue list" where
  "parseWindowsContainer kit mergedEnv n is =
     finish finishContainer n (parseOwn (windowsContainerFields kit mergedEnv) n is newWindowsContainer)"

section \<open>macOS\<close>

record macOSMsg =
  moImage :: string
  moUser :: string
  moPassword :: string
  moCpu :: "32 word"
  moMemory :: "32 word"

text \<open>The error of the number of processors is returned as it is.\<close>

definition macOSFields :: "env \<Rightarrow> macOSMsg treeState field list" where
  "macOSFields mergedEnv =
     [strField ''image'' mergedEnv (\<lambda>v a. a\<lparr>moImage := v\<rparr>),
      strField ''user'' mergedEnv (\<lambda>v a. a\<lparr>moUser := v\<rparr>),
      strField ''password'' mergedEnv (\<lambda>v a. a\<lparr>moPassword := v\<rparr>),
      OptionalField (SimpleNameable ''cpu'')
        (setValue (getVia mergedEnv (\<lambda>_ s. map_sum id of_nat (ParseUint s 16))) (\<lambda>v a. a\<lparr>moCpu := v\<rparr>)),
      OptionalField (SimpleNameable ''memory'') (setValue (getMemory mergedEnv) (\<lambda>v a. a\<lparr>moMemory := v\<rparr>))]"

definition parseMacOS :: "env \<Rightarrow> node \<Rightarrow> issue list \<Rightarrow> macOSMsg res \<times> issue list" where
  "parseMacOS mergedEnv n is =
     finish (\<lambda>_ a. Inr a) n (parseOwn (macOSFields mergedEnv) n is
       \<lparr>moImage = [], moUser = ''admin'', moPassword = ''admin'', moCpu = 4, moMemory = 8192\<rparr>)"

section \<open>Isolations of persistent workers\<close>

definition parallelsFields :: "env \<Rightarrow> parallelsIsolation treeState field list" where
  "parallelsFields mergedEnv =
     [strField ''image'' mergedEnv (\<lambda>v a. a\<lparr>piImage := v\<rparr>),
      strField ''user'' mergedEnv (\<lambda>v a. a\<lparr>piUser := v\<rparr>),
      strField ''password'' mergedEnv (\<lambda>v a. a\<lparr>piPassword := v\<rparr>),
      OptionalField (SimpleNameable ''platform'')
        (setValue (getPlatform ''unsupported platform name: %q'' mergedEnv)
          (\<lambda>v a. a\<lparr>parallelsIsolation.piPlatform :=
             (case v of LINUX \<Rightarrow> PlatformLinux | WINDOWS \<Rightarrow> PlatformWindows | DARWIN \<Rightarrow> PlatformDarwin)\<rparr>))]"

definition parseParallels :: "env \<Rightarrow> node \<Rightarrow> issue list \<Rightarrow> parallelsIsolation res \<times> issue list" where
  "parseParallels mergedEnv n is =
     finish (\<lambda>_ a. Inr a) n (parseOwn (parallelsFields mergedEnv) n is
       \<lparr>piImage = [], piUser = [], piPassword = [], piPlatform = PlatformLinux\<rparr>)"

text \<open>The message of a container isolation: what the worker reads, and what the parser needs for Dockerfiles.\<close>

record isoContainerMsg = containerIsolation +
  icDockerfile :: string
  icDockerArguments :: env
  icPlatform :: platform

definition newIsoContainer :: isoContainerMsg where
  "newIsoContainer = \<lparr>ciImage = [], ciCpu = FloatFin 0, ciMemory = 0, ciVolumes = [], icDockerfile = [],
     icDockerArguments = [], icPlatform = LINUX\<rparr>"

definition getVolumes :: "env \<Rightarrow> node \<Rightarrow> isoVolume list res" where
  "getVolumes mergedEnv n =
     (case GetSliceOfExpandedStrings n mergedEnv of
        Inl e \<Rightarrow> Inl e
      | Inr vs \<Rightarrow>
          mapE (\<lambda>v. map_sum id (\<lambda>w. \<lparr>ivSource = volSource w, ivTarget = volTarget w, ivReadOnly = volReadOnly w\<rparr>)
                  (ParseVolume n v)) vs)"

definition isoContainerFields :: "instKit \<Rightarrow> env \<Rightarrow> isoContainerMsg treeState field list" where
  "isoContainerFields kit mergedEnv =
     [OptionalField (SimpleNameable ''image'')
        (\<lambda>n s. setValue (\<lambda>n. GetExpandedStringValue n mergedEnv) (\<lambda>v a. a\<lparr>containerIsolation.ciImage := v\<rparr>) n
           (s\<lparr>val := (val s)\<lparr>icDockerfile := []\<rparr>\<rparr>)),
      OptionalField (SimpleNameable ''cpu'') (setValue (getFloat32 kit mergedEnv) (\<lambda>v a. a\<lparr>ciCpu := v\<rparr>)),
      OptionalField (SimpleNameable ''memory'') (setValue (getMemory mergedEnv) (\<lambda>v a. a\<lparr>ciMemory := v\<rparr>)),
      OptionalField (SimpleNameable ''volumes'')
        (setValue (getVolumes mergedEnv) (\<lambda>v a. a\<lparr>ciVolumes := ciVolumes a @ v\<rparr>)),
      OptionalField (SimpleNameable ''dockerfile'')
        (setValue (getVia mergedEnv (\<lambda>n s. if mget mergedEnv ''CIRRUS_ARCH'' = [] then
            Inl (ParserError n (''container with \"dockerfile:\" also needs'' @
              '' a CIRRUS_ARCH environment variable to be specified'') [])
          else Inr s)) (\<lambda>v a. a\<lparr>icDockerfile := v\<rparr>)),
      OptionalField (SimpleNameable ''docker_arguments'')
        (setValue (\<lambda>n. GetMapOrListOfMapsWithExpansion n mergedEnv) (\<lambda>v a. a\<lparr>icDockerArguments := v\<rparr>)),
      OptionalField (SimpleNameable ''platform'')
        (setValue (getPlatform ''unsupported platform name: %q'' mergedEnv) (\<lambda>v a. a\<lparr>icPlatform := v\<rparr>))]"

definition finishIsoContainer :: "node \<Rightarrow> isoContainerMsg \<Rightarrow> isoContainerMsg res" where
  "finishIsoContainer n c =
     Inr (c\<lparr>ciCpu := (if ciCpu c = FloatFin 0 then FloatFin 2 else ciCpu c),
            ciMemory := (if ciMemory c = 0 then 4096 else ciMemory c),
            icDockerArguments := (if icDockerfile c = [] then [] else icDockerArguments c)\<rparr>)"

definition parseIsoContainer :: "instKit \<Rightarrow> env \<Rightarrow> node \<Rightarrow> issue list \<Rightarrow> isoContainerMsg res \<times> issue list" where
  "parseIsoContainer kit mergedEnv n is =
     finish finishIsoContainer n (parseOwn (isoContainerFields kit mergedEnv) n is newIsoContainer)"

definition tartVolumeFields :: "instKit \<Rightarrow> env \<Rightarrow> tartVolume treeState field list" where
  "tartVolumeFields kit mergedEnv =
     [strField ''name'' mergedEnv (\<lambda>v a. a\<lparr>tvName := v\<rparr>),
      RequiredField (SimpleNameable ''source'')
        (setValue (\<lambda>n. GetExpandedStringValue n mergedEnv) (\<lambda>v a. a\<lparr>tvSource := v\<rparr>)),
      strField ''target'' mergedEnv (\<lambda>v a. a\<lparr>tvTarget := v\<rparr>),
      OptionalField (SimpleNameable ''readonly'') (setValue (getBool kit mergedEnv) (\<lambda>v a. a\<lparr>tvReadOnly := v\<rparr>))]"

definition parseTartVolume :: "instKit \<Rightarrow> env \<Rightarrow> node \<Rightarrow> issue list \<Rightarrow> tartVolume res \<times> issue list" where
  "parseTartVolume kit mergedEnv n is =
     finish (\<lambda>_ a. Inr a) n (parseOwn (tartVolumeFields kit mergedEnv) n is
       \<lparr>tvName = [], tvSource = [], tvTarget = [], tvReadOnly = False, tvCleanup = False\<rparr>)"

definition tartFields :: "instKit \<Rightarrow> env \<Rightarrow> tartIsolation treeState field list" where
  "tartFields kit mergedEnv =
     [strField ''image'' mergedEnv (\<lambda>v a. a\<lparr>tiImage := v\<rparr>),
      strField ''user'' mergedEnv (\<lambda>v a. a\<lparr>tiUser := v\<rparr>),
      strField ''password'' mergedEnv (\<lambda>v a. a\<lparr>tiPassword := v\<rparr>),
      OptionalField (SimpleNameable ''port'')
        (setValue (getUint 16 ''failed to parse \"port:\" value: %v'' mergedEnv) (\<lambda>v a. a\<lparr>tiPort := v\<rparr>)),
      OptionalField (SimpleNameable ''cpu'') (setValue (getUint 32 ''%s'' mergedEnv) (\<lambda>v a. a\<lparr>tiCpu := v\<rparr>)),
      OptionalField (SimpleNameable ''memory'') (setValue (getMemory mergedEnv) (\<lambda>v a. a\<lparr>tiMemory := v\<rparr>)),
      OptionalField (SimpleNameable ''softnet'') (setValue (getBool kit mergedEnv) (\<lambda>v a. a\<lparr>tiSoftnet := v\<rparr>)),
      strField ''display'' mergedEnv (\<lambda>v a. a\<lparr>tiDisplay := v\<rparr>),
      OptionalField (SimpleNameable ''volumes'')
        (\<lambda>n. nestedEach (parseTartVolume kit mergedEnv) (\<lambda>v a. a\<lparr>tiVolumes := tiVolumes a @ [v]\<rparr>) (nkids n))]"

definition newTartMsg :: tartIsolation where
  "newTartMsg = \<lparr>tiImage = [], tiUser = ''admin'', tiPassword = ''admin'', tiPort = 0, tiCpu = 0, tiMemory = 0, tiVolumes = [],
     tiSoftnet = False, tiNested = False, tiDisplay = [], tiDiskSize = 0, tiSyncTime = False\<rparr>"

definition parseTart :: "instKit \<Rightarrow> env \<Rightarrow> node \<Rightarrow> issue list \<Rightarrow> tartIsolation res \<times> issue list" where
  "parseTart kit mergedEnv n is = finish (\<lambda>_ a. Inr a) n (parseOwn (tartFields kit mergedEnv) n is newTartMsg)"

definition vetuFields :: "env \<Rightarrow> vetuIsolation treeState field list" where
  "vetuFields mergedEnv =
     [strField ''image'' mergedEnv (\<lambda>v a. a\<lparr>viImage := v\<rparr>),
      strField ''user'' mergedEnv (\<lambda>v a. a\<lparr>viUser := v\<rparr>),
      strField ''password'' mergedEnv (\<lambda>v a. a\<lparr>viPassword := v\<rparr>),
      OptionalField (SimpleNameable ''port'')
        (setValue (getUint 16 ''failed to parse \"port:\" value: %v'' mergedEnv) (\<lambda>v a. a\<lparr>viPort := v\<rparr>)),
      OptionalField (SimpleNameable ''cpu'') (setValue (getUint 32 ''%s'' mergedEnv) (\<lambda>v a. a\<lparr>viCpu := v\<rparr>)),
      OptionalField (SimpleNameable ''memory'') (setValue (getMemory mergedEnv) (\<lambda>v a. a\<lparr>viMemory := v\<rparr>)),
      OptionalField (SimpleNameable ''networking'')
        (setValue (\<lambda>n. if HasChild n ''host'' then Inr HostNetworking
                       else Inl (ParserError n ''please specify the networking to use'' []))
          (\<lambda>v a. a\<lparr>viNetworking := v\<rparr>)),
      OptionalField (SimpleNameable ''disk_size'') (setValue (getUint 16 ''%v'' mergedEnv) (\<lambda>v a. a\<lparr>viDiskSize := v\<rparr>))]"

definition newVetuMsg :: vetuIsolation where
  "newVetuMsg = \<lparr>viImage = [], viUser = ''admin'', viPassword = ''admin'', viPort = 0, viCpu = 0, viMemory = 0,
     viNetworking = DefaultNetworking, viDiskSize = 0, viSyncTime = False, viStdout = False\<rparr>"

definition parseVetu :: "env \<Rightarrow> node \<Rightarrow> issue list \<Rightarrow> vetuIsolation res \<times> issue list" where
  "parseVetu mergedEnv n is = finish (\<lambda>_ a. Inr a) n (parseOwn (vetuFields mergedEnv) n is newVetuMsg)"

text \<open>The \<open>oneof\<close> of the isolation message; \<open>NoIsolationType\<close> when no field of it was given.\<close>

datatype isolationMsg =
    NoIsolationType
  | ParallelsMsg parallelsIsolation
  | ContainerIsoMsg isoContainerMsg
  | TartMsg tartIsolation
  | VetuMsg vetuIsolation

definition isolationFields :: "instKit \<Rightarrow> env \<Rightarrow> isolationMsg treeState field list" where
  "isolationFields kit mergedEnv =
     [OptionalField (SimpleNameable ''parallels'') (nested (parseParallels mergedEnv) (\<lambda>v _. ParallelsMsg v)),
      OptionalField (SimpleNameable ''container'') (nested (parseIsoContainer kit mergedEnv) (\<lambda>v _. ContainerIsoMsg v)),
      OptionalField (SimpleNameable ''tart'') (nested (parseTart kit mergedEnv) (\<lambda>v _. TartMsg v)),
      OptionalField (SimpleNameable ''vetu'') (nested (parseVetu mergedEnv) (\<lambda>v _. VetuMsg v))]"

definition parseIsolation :: "instKit \<Rightarrow> env \<Rightarrow> node \<Rightarrow> issue list \<Rightarrow> isolationMsg res \<times> issue list" where
  "parseIsolation kit mergedEnv n is =
     finish (\<lambda>_ a. Inr a) n (parseOwn (isolationFields kit mergedEnv) n is NoIsolationType)"

section \<open>Persistent workers and standby instances\<close>

record persistentWorkerMsg =
  pwLabels :: env
  pwResources :: "gofloat gomap"
  pwIsolation :: "isolationMsg option"

definition persistentWorkerFields :: "instKit \<Rightarrow> env \<Rightarrow> persistentWorkerMsg treeState field list" where
  "persistentWorkerFields kit mergedEnv =
     [OptionalField (SimpleNameable ''labels'')
        (setValue (\<lambda>n. GetMapOrListOfMapsWithExpansion n mergedEnv) (\<lambda>v a. a\<lparr>pwLabels := v\<rparr>)),
      OptionalField (SimpleNameable ''resources'')
        (setValue (\<lambda>n. GetFloat64Mapping (parseFloat64 kit) n mergedEnv) (\<lambda>v a. a\<lparr>pwResources := v\<rparr>)),
      OptionalField (SimpleNameable ''isolation'')
        (nested (parseIsolation kit mergedEnv) (\<lambda>v a. a\<lparr>pwIsolation := Some v\<rparr>))]"

definition parsePersistentWorker ::
  "instKit \<Rightarrow> env \<Rightarrow> node \<Rightarrow> issue list \<Rightarrow> persistentWorkerMsg res \<times> issue list" where
  "parsePersistentWorker kit mergedEnv n is =
     finish (\<lambda>_ a. Inr a) n (parseOwn (persistentWorkerFields kit mergedEnv) n is
       \<lparr>pwLabels = [], pwResources = [], pwIsolation = None\<rparr>)"

record warmupMsg =
  wuScript :: string
  wuTimeoutSeconds :: "64 word"

record standbyMsg =
  sbIsolation :: "isolationMsg option"
  sbResources :: "gofloat gomap"
  sbWarmup :: "warmupMsg option"

definition parseWarmup :: "instKit \<Rightarrow> env \<Rightarrow> node \<Rightarrow> issue list \<Rightarrow> warmupMsg res \<times> issue list" where
  "parseWarmup kit mergedEnv n is =
     finish (\<lambda>_ a. Inr a) n (parseOwn
       [strField ''script'' mergedEnv (\<lambda>v a. a\<lparr>wuScript := v\<rparr>),
        OptionalField (SimpleNameable ''timeout'')
          (setValue (getVia mergedEnv (\<lambda>n s. wrapError n ''%s'' (durationSeconds kit s))) (\<lambda>v a. a\<lparr>wuTimeoutSeconds := v\<rparr>))]
       n is \<lparr>wuScript = [], wuTimeoutSeconds = 0\<rparr>)"

definition parseStandby :: "instKit \<Rightarrow> env \<Rightarrow> node \<Rightarrow> issue list \<Rightarrow> standbyMsg res \<times> issue list" where
  "parseStandby kit mergedEnv n is =
     finish (\<lambda>_ a. Inr a) n (parseOwn
       [OptionalField (SimpleNameable ''isolation'')
          (nested (parseIsolation kit mergedEnv) (\<lambda>v a. a\<lparr>sbIsolation := Some v\<rparr>)),
        OptionalField (SimpleNameable ''resources'')
          (setValue (\<lambda>n. GetFloat64Mapping (parseFloat64 kit) n mergedEnv) (\<lambda>v a. a\<lparr>sbResources := v\<rparr>)),
        OptionalField (SimpleNameable ''warmup'')
          (nested (parseWarmup kit mergedEnv) (\<lambda>v a. a\<lparr>sbWarmup := Some v\<rparr>))]
       n is \<lparr>sbIsolation = None, sbResources = [], sbWarmup = None\<rparr>)"

section \<open>FreeBSD\<close>

record freeBSD =
  fbImageFamily :: string
  fbImageName :: string
  fbCpu :: gofloat
  fbMemory :: "32 word"

definition freeBSDFields :: "instKit \<Rightarrow> env \<Rightarrow> freeBSD treeState field list" where
  "freeBSDFields kit mergedEnv =
     [strField ''image_family'' mergedEnv (\<lambda>v a. a\<lparr>fbImageFamily := v\<rparr>),
      strField ''image_name'' mergedEnv (\<lambda>v a. a\<lparr>fbImageName := v\<rparr>),
      OptionalField (SimpleNameable ''cpu'') (setValue (getFloat32 kit mergedEnv) (\<lambda>v a. a\<lparr>fbCpu := v\<rparr>)),
      OptionalField (SimpleNameable ''memory'') (setValue (getMemory mergedEnv) (\<lambda>v a. a\<lparr>fbMemory := v\<rparr>))]"

definition finishFreeBSD :: "node \<Rightarrow> freeBSD \<Rightarrow> freeBSD res" where
  "finishFreeBSD n f =
     (if fbImageFamily f = [] \<and> fbImageName f = [] then
        Inl (ParserError n ''freebsd_instance needs either \"image_family:\" or \"image_name:\" to be specified'' [])
      else if fbImageFamily f \<noteq> [] \<and> fbImageName f \<noteq> [] then
        Inl (ParserError n (''please either use image_family: or image_name:, '' @ ''since otherwise there'' @
          [CHR 0x27] @ ''s ambiguity about which image to prefer'') [])
      else Inr (f\<lparr>fbCpu := (if fbCpu f = FloatFin 0 then FloatFin 2 else fbCpu f),
                  fbMemory := (if fbMemory f = 0 then 4096 else fbMemory f)\<rparr>))"

definition parseFreeBSD :: "instKit \<Rightarrow> env \<Rightarrow> node \<Rightarrow> issue list \<Rightarrow> freeBSD res \<times> issue list" where
  "parseFreeBSD kit mergedEnv n is =
     finish finishFreeBSD n (parseOwn (freeBSDFields kit mergedEnv) n is
       \<lparr>fbImageFamily = [], fbImageName = [], fbCpu = FloatFin 0, fbMemory = 0\<rparr>)"

definition freeBSDEnvironment :: "instKit \<Rightarrow> freeBSD \<Rightarrow> env" where
  "freeBSDEnvironment kit f =
     [(''CIRRUS_FREEBSD_IMAGE_FAMILY'', fbImageFamily f), (''CIRRUS_FREEBSD_IMAGE_NAME'', fbImageName f),
      (''CIRRUS_FREEBSD_CPU'', formatFloat32 kit (fbCpu f)), (''CIRRUS_FREEBSD_MEMORY'', FormatUint (unat (fbMemory f)))]"

section \<open>Invariants of field tables\<close>

text \<open>A field whose callback keeps a property of the object under construction, whether it succeeds or not.\<close>

definition fieldKeeps :: "('a \<Rightarrow> bool) \<Rightarrow> 'a treeState field \<Rightarrow> bool" where
  "fieldKeeps I f \<longleftrightarrow> (\<forall>c u. I (val u) \<longrightarrow> I (val (snd (onFound f c u))))"

named_theorems keeps \<open>fields that keep a property\<close>

lemma snd_setValue: "val (snd (setValue get upd n s)) = (case get n of Inl _ \<Rightarrow> val s | Inr v \<Rightarrow> upd v (val s))"
  by (simp add: setValue_def split: sum.split)

lemma fieldKeeps_setValue [keeps]:
  assumes "\<And>n v a. get n = Inr v \<Longrightarrow> I a \<Longrightarrow> I (upd v a)"
  shows "fieldKeeps I (OptionalField nm (setValue get upd))" "fieldKeeps I (RequiredField nm (setValue get upd))"
  using assms by (auto simp: fieldKeeps_def OptionalField_def RequiredField_def snd_setValue split: sum.split)

lemma fieldKeeps_ignored [keeps]: "fieldKeeps I (ignored nm)"
  by (simp add: fieldKeeps_def ignored_def OptionalField_def)

lemma val_nested: "val (snd (nested p upd n s)) = (case fst (p n (issues s)) of Inl _ \<Rightarrow> val s | Inr v \<Rightarrow> upd v (val s))"
  by (auto simp: nested_def split: prod.split sum.split)

lemma fieldKeeps_nested [keeps]:
  assumes "\<And>n is v is' a. p n is = (Inr v, is') \<Longrightarrow> I a \<Longrightarrow> I (upd v a)"
  shows "fieldKeeps I (OptionalField nm (nested p upd))"
proof -
  have "I (upd v a)" if "fst (p n iss) = Inr v" "I a" for n iss v a
    using that assms [of n iss v "snd (p n iss)" a] by (metis prod.collapse)
  then show ?thesis by (auto simp: fieldKeeps_def OptionalField_def val_nested split: sum.split)
qed

lemma fieldKeeps_nestedEach [keeps]:
  assumes "\<And>n is v is' a. p n is = (Inr v, is') \<Longrightarrow> I a \<Longrightarrow> I (upd v a)"
  shows "fieldKeeps I (OptionalField nm (\<lambda>n. nestedEach p upd (nkids n)))"
proof -
  have one: "I (val (snd (nested p upd c s)))" if "I (val s)" for c s
    using fieldKeeps_nested [where p = p and upd = upd and I = I, OF assms] that
    by (auto simp: fieldKeeps_def OptionalField_def)
  have "I (val (snd (nestedEach p upd cs s)))" if "I (val s)" for cs s
    using that
  proof (induction cs arbitrary: s)
    case (Cons c cs)
    obtain e s' where n: "nested p upd c s = (e, s')" by force
    then have "I (val s')" using one [OF Cons.prems, of c] by simp
    then show ?case using Cons.IH n by (cases e) auto
  qed simp
  then show ?thesis by (simp add: fieldKeeps_def OptionalField_def)
qed

lemma parseOwn_fields:
  assumes "parseOwn flds n is a = (e, s)" and "\<forall>f \<in> set flds. fieldKeeps I f" and "I a"
  shows "I (val s)"
proof -
  have "I (val (snd (parseOwn flds n is a)))"
    by (rule parseOwn_keeps) (use assms(2,3) in \<open>auto simp: fieldKeeps_def FindFieldByName_def find_Some_iff\<close>)
  then show ?thesis using assms(1) by simp
qed

lemma finish_fields:
  assumes "finish f n (parseOwn flds n is a) = (Inr v, is')" and "\<forall>f \<in> set flds. fieldKeeps I f" and "I a"
  shows "\<exists>b. f n b = Inr v \<and> I b"
proof -
  obtain e s where p: "parseOwn flds n is a = (e, s)" by force
  then have "I (val s)" by (rule parseOwn_fields) (use assms in auto)
  then show ?thesis using assms(1) p by (auto simp: finish_def split: option.splits)
qed

section \<open>Well-formed instances\<close>

definition wf_additional :: "additionalContainer \<Rightarrow> bool" where
  "wf_additional a \<longleftrightarrow> acName a \<noteq> ''main'' \<and> (\<forall>c \<in> set (acName a). isLower c \<or> isUpper c) \<and>
     acCpu a \<noteq> FloatFin 0 \<and> acMemory a \<noteq> 0 \<and> wf_map (acEnvironment a)"

definition wf_container :: "containerMsg \<Rightarrow> bool" where
  "wf_container c \<longleftrightarrow> cmCpu c \<noteq> FloatFin 0 \<and> cmMemory c \<noteq> 0 \<and> (cmDockerfile c = [] \<longrightarrow> cmDockerArguments c = []) \<and>
     (\<forall>a \<in> set (cmAdditionalContainers c). wf_additional a)"

lemma getVia_Inr: "getVia e f n = Inr v \<Longrightarrow> \<exists>s. f n s = Inr v"
  by (auto simp: getVia_def split: sum.splits)

lemma parseAdditionalContainer_wf:
  assumes "parseAdditionalContainer kit mergedEnv n is = (Inr a, is')"
  shows "wf_additional a"
proof -
  let ?I = "\<lambda>a. acName a \<noteq> ''main'' \<and> (\<forall>c \<in> set (acName a). isLower c \<or> isUpper c) \<and> wf_map (acEnvironment a)"
  have flds: "\<forall>f \<in> set (additionalContainerFields kit mergedEnv). fieldKeeps ?I f"
    unfolding additionalContainerFields_def
    by (auto intro!: keeps simp: Merge_wf getAcName_def list_ex_iff dest!: getVia_Inr split: if_splits)
  have init: "?I newAdditionalContainer" by (simp add: newAdditionalContainer_def)
  obtain b where "finishAdditionalContainer n b = Inr a" "?I b"
    using finish_fields [OF assms [unfolded parseAdditionalContainer_def] flds init] by blast
  then show ?thesis by (auto simp: finishAdditionalContainer_def wf_additional_def split: if_splits)
qed

lemma fieldKeeps_setImage [keeps]:
  assumes "\<And>v a. I a \<Longrightarrow> I (a\<lparr>cmDockerfile := []\<rparr>)" and "\<And>v a. I a \<Longrightarrow> I (a\<lparr>cmImage := v\<rparr>)"
  shows "fieldKeeps I (OptionalField nm (setImage mergedEnv))"
  using assms by (auto simp: fieldKeeps_def OptionalField_def setImage_def snd_setValue split: sum.split)

lemma finishContainer_wf:
  "finishContainer n b = Inr c \<Longrightarrow> \<forall>a \<in> set (cmAdditionalContainers b). wf_additional a \<Longrightarrow> wf_container c"
  by (auto simp: finishContainer_def wf_container_def split: if_splits)

lemma parseContainer_wf:
  assumes "parseContainer kit ar mergedEnv n is = (Inr c, is')"
  shows "wf_container c \<and> cmArchitecture c = ar \<and> cmPlatform c = LINUX \<and> cmOsVersion c = []"
proof -
  let ?I = "\<lambda>c. (\<forall>a \<in> set (cmAdditionalContainers c). wf_additional a) \<and> cmArchitecture c = ar \<and> cmPlatform c = LINUX \<and> cmOsVersion c = []"
  have flds: "\<forall>f \<in> set (containerFields kit mergedEnv). fieldKeeps ?I f"
    unfolding containerFields_def by (auto intro!: keeps dest: parseAdditionalContainer_wf)
  have init: "?I (newContainer ar)" by (simp add: newContainer_def)
  obtain b where b: "finishContainer n b = Inr c" "?I b"
    using finish_fields [OF assms [unfolded parseContainer_def] flds init] by blast
  then show ?thesis using finishContainer_wf [OF b(1)] by (auto simp: finishContainer_def)
qed

lemma parseWindowsContainer_wf:
  assumes "parseWindowsContainer kit mergedEnv n is = (Inr c, is')"
  shows "wf_container c \<and> cmArchitecture c = ArchAMD64 \<and> cmPlatform c = WINDOWS \<and> cmAdditionalContainers c = []"
proof -
  let ?I = "\<lambda>c. cmAdditionalContainers c = [] \<and> cmArchitecture c = ArchAMD64 \<and> cmPlatform c = WINDOWS"
  have flds: "\<forall>f \<in> set (windowsContainerFields kit mergedEnv). fieldKeeps ?I f"
    unfolding windowsContainerFields_def by (auto intro!: keeps)
  have init: "?I newWindowsContainer" by (simp add: newWindowsContainer_def newContainer_def)
  obtain b where b: "finishContainer n b = Inr c" "?I b"
    using finish_fields [OF assms [unfolded parseWindowsContainer_def] flds init] by blast
  then show ?thesis using finishContainer_wf [OF b(1)] by (auto simp: finishContainer_def)
qed

text \<open>
  A well-formed isolation: ports and disk sizes fit 16 bits, the settings that the configuration cannot give have
  their defaults, containers have resources, and a Dockerfile is only used when the architecture is known.
\<close>

definition wf_isolation :: "env \<Rightarrow> isolationMsg \<Rightarrow> bool" where
  "wf_isolation mergedEnv i =
     (case i of
        TartMsg t \<Rightarrow> unat (tiPort t) < 2 ^ 16 \<and> \<not> tiNested t \<and> tiDiskSize t = 0 \<and> \<not> tiSyncTime t \<and>
          (\<forall>v \<in> set (tiVolumes t). \<not> tvCleanup v)
      | VetuMsg v \<Rightarrow> unat (viPort v) < 2 ^ 16 \<and> unat (viDiskSize v) < 2 ^ 16 \<and> (\<forall>b. viNetworking v \<noteq> Bridged b)
      | ContainerIsoMsg c \<Rightarrow> ciCpu c \<noteq> FloatFin 0 \<and> ciMemory c \<noteq> 0 \<and> (icDockerfile c = [] \<longrightarrow> icDockerArguments c = []) \<and>
          (icDockerfile c \<noteq> [] \<longrightarrow> mget mergedEnv ''CIRRUS_ARCH'' \<noteq> [])
      | _ \<Rightarrow> True)"

lemma getUint_bound: "getUint bits fmt e n = Inr w \<Longrightarrow> bits \<le> 32 \<Longrightarrow> unat w < 2 ^ bits"
proof -
  assume a: "getUint bits fmt e n = Inr w" and b: "bits \<le> 32"
  then obtain s k where "ParseUint s bits = Inr k" "w = of_nat k"
    by (auto simp: getUint_def getVia_def wrapError_def split: sum.splits)
  then have k: "k < 2 ^ bits" and w: "w = of_nat k" using ParseUint_bound by auto
  have "(2 :: nat) ^ bits \<le> 2 ^ 32" using b by (intro power_increasing) auto
  then have "k < 2 ^ 32" using k by linarith
  then have "unat w = k" unfolding w by (simp add: unat_of_nat)
  then show "unat w < 2 ^ bits" using k by simp
qed

lemma parseIsoContainer_wf:
  assumes "parseIsoContainer kit mergedEnv n is = (Inr c, is')"
  shows "wf_isolation mergedEnv (ContainerIsoMsg c)"
proof -
  let ?I = "\<lambda>c. icDockerfile c \<noteq> [] \<longrightarrow> mget mergedEnv ''CIRRUS_ARCH'' \<noteq> []"
  have image: "fieldKeeps ?I (OptionalField nm
      (\<lambda>n s. setValue (\<lambda>n. GetExpandedStringValue n mergedEnv) (\<lambda>v a. a\<lparr>containerIsolation.ciImage := v\<rparr>) n
           (s\<lparr>val := (val s)\<lparr>icDockerfile := []\<rparr>\<rparr>)))" for nm
    by (auto simp: fieldKeeps_def OptionalField_def snd_setValue split: sum.split)
  have flds: "\<forall>f \<in> set (isoContainerFields kit mergedEnv). fieldKeeps ?I f"
    unfolding isoContainerFields_def by (auto intro!: image keeps dest!: getVia_Inr split: if_splits)
  have init: "?I newIsoContainer" by (simp add: newIsoContainer_def)
  obtain b where b: "finishIsoContainer n b = Inr c" "?I b"
    using finish_fields [where I = ?I, OF assms [unfolded parseIsoContainer_def] flds init] by blast
  then show ?thesis by (auto simp: finishIsoContainer_def wf_isolation_def split: if_splits)
qed

lemma parseTartVolume_wf:
  assumes "parseTartVolume kit mergedEnv n is = (Inr v, is')"
  shows "\<not> tvCleanup v"
proof -
  have flds: "\<forall>f \<in> set (tartVolumeFields kit mergedEnv). fieldKeeps (\<lambda>a. \<not> tvCleanup a) f"
    unfolding tartVolumeFields_def by (auto intro!: keeps)
  show ?thesis using finish_fields [OF assms [unfolded parseTartVolume_def] flds] by auto
qed

lemma parseTart_wf:
  assumes "parseTart kit mergedEnv n is = (Inr t, is')"
  shows "wf_isolation mergedEnv (TartMsg t)"
proof -
  let ?I = "\<lambda>t. wf_isolation mergedEnv (TartMsg t)"
  have port: "unat w < 65536" if "getUint 16 fmt e n = Inr w" for fmt e n w using getUint_bound [OF that] by simp
  have flds: "\<forall>f \<in> set (tartFields kit mergedEnv). fieldKeeps ?I f"
    unfolding tartFields_def by (auto intro!: keeps simp: wf_isolation_def dest: port parseTartVolume_wf)
  show ?thesis
    using finish_fields [OF assms [unfolded parseTart_def] flds] by (auto simp: newTartMsg_def wf_isolation_def)
qed

lemma parseVetu_wf:
  assumes "parseVetu mergedEnv n is = (Inr t, is')"
  shows "wf_isolation mergedEnv (VetuMsg t)"
proof -
  let ?I = "\<lambda>t. wf_isolation mergedEnv (VetuMsg t)"
  have port: "unat w < 65536" if "getUint 16 fmt e n = Inr w" for fmt e n w using getUint_bound [OF that] by simp
  have flds: "\<forall>f \<in> set (vetuFields mergedEnv). fieldKeeps ?I f"
    unfolding vetuFields_def by (auto intro!: keeps simp: wf_isolation_def dest: port split: if_splits)
  show ?thesis
    using finish_fields [OF assms [unfolded parseVetu_def] flds] by (auto simp: newVetuMsg_def wf_isolation_def)
qed

lemma parseIsolation_wf:
  assumes "parseIsolation kit mergedEnv n is = (Inr i, is')"
  shows "wf_isolation mergedEnv i"
proof -
  have par: "wf_isolation mergedEnv (ParallelsMsg p)" "wf_isolation mergedEnv NoIsolationType" for p
    by (simp_all add: wf_isolation_def)
  have flds: "\<forall>f \<in> set (isolationFields kit mergedEnv). fieldKeeps (wf_isolation mergedEnv) f"
    unfolding isolationFields_def
    by (auto intro!: keeps par dest: parseIsoContainer_wf parseTart_wf parseVetu_wf)
  show ?thesis using finish_fields [OF assms [unfolded parseIsolation_def] flds par(2)] by auto
qed

lemma parsePersistentWorker_wf:
  assumes "parsePersistentWorker kit mergedEnv n is = (Inr w, is')"
  shows "pwIsolation w = Some i \<longrightarrow> wf_isolation mergedEnv i"
proof -
  let ?I = "\<lambda>w. \<forall>i. pwIsolation w = Some i \<longrightarrow> wf_isolation mergedEnv i"
  have flds: "\<forall>f \<in> set (persistentWorkerFields kit mergedEnv). fieldKeeps ?I f"
    unfolding persistentWorkerFields_def by (auto intro!: keeps dest: parseIsolation_wf)
  show ?thesis using finish_fields [OF assms [unfolded parsePersistentWorker_def] flds] by auto
qed

lemma parseFreeBSD_wf:
  assumes "parseFreeBSD kit mergedEnv n is = (Inr f, is')"
  shows "(fbImageFamily f = []) \<noteq> (fbImageName f = []) \<and> fbCpu f \<noteq> FloatFin 0 \<and> fbMemory f \<noteq> 0"
  using assms by (auto simp: parseFreeBSD_def finish_def finishFreeBSD_def split: prod.splits option.splits if_splits)

section \<open>The last of image and dockerfile\<close>

text \<open>
  When the last \<open>image\<close> follows every \<open>dockerfile\<close>, the container has no Dockerfile and so no build
  arguments: the configuration of a task overrides the Dockerfile it inherited.
\<close>

lemma setImage_clears: "cmDockerfile (val (snd (setImage mergedEnv n s))) = []"
  by (simp add: setImage_def snd_setValue split: sum.split)

lemma runCallbacks_append:
  "runCallbacks (xs @ ys) s = (case runCallbacks xs s of (Some e, s') \<Rightarrow> (Some e, s') | (None, s') \<Rightarrow> runCallbacks ys s')"
  by (induction xs s rule: runCallbacks.induct) (auto split: prod.splits option.splits)

lemma containerField_keeps_dockerfile:
  assumes "FindFieldByName (containerFields kit mergedEnv) name = Some f" and "name \<noteq> ''dockerfile''"
    and "cmDockerfile (val u) = []"
  shows "cmDockerfile (val (snd (onFound f c u))) = []"
proof -
  let ?J = "\<lambda>c. cmDockerfile c = []"
  have f: "f \<in> set (containerFields kit mergedEnv)" "Matches (fieldName f) name"
    using assms(1) by (auto simp: FindFieldByName_def find_Some_iff)
  have "\<forall>f \<in> set (containerFields kit mergedEnv). fieldName f \<noteq> SimpleNameable ''dockerfile'' \<longrightarrow> fieldKeeps ?J f"
    unfolding containerFields_def by (auto intro!: keeps simp: OptionalField_def [of "SimpleNameable ''dockerfile''"])
  moreover have "fieldName f \<noteq> SimpleNameable ''dockerfile''" using f(2) assms(2) by auto
  ultimately have "fieldKeeps ?J f" using f(1) by blast
  then show ?thesis using assms(3) by (simp add: fieldKeeps_def)
qed

lemma image_after_dockerfile:
  assumes "parseContainer kit ar mergedEnv n is = (Inr c, is')" and "nkids n = before @ img # after"
    and "nname img = ''image''" and "''image'' \<notin> nname ` set after" and "''dockerfile'' \<notin> nname ` set after"
  shows "cmDockerfile c = [] \<and> cmDockerArguments c = []"
proof -
  let ?flds = "containerFields kit mergedEnv" and ?s = "warnNotMap treeHost \<lparr>tree = n, path = [], issues = is, val = newContainer ar\<rparr>"
  let ?f = "OptionalField (SimpleNameable ''image'') (setImage mergedEnv)"
  have find: "FindFieldByName ?flds ''image'' = Some ?f"
    by (simp add: FindFieldByName_def containerFields_def OptionalField_def)
  have "\<exists>ys. calls ?flds (xs @ img # after) = ys @ (?f, img) # calls ?flds after" for xs
  proof (induction xs)
    case Nil
    then show ?case using find assms(3,4) by (simp add: calls_Cons OptionalField_def)
  next
    case (Cons x xs)
    then obtain zs where "calls ?flds (xs @ img # after) = zs @ (?f, img) # calls ?flds after" by blast
    then show ?case by (auto simp: calls_Cons split: option.split)
  qed
  then obtain ys where ys: "calls ?flds (nkids n) = ys @ (?f, img) # calls ?flds after" unfolding assms(2) by blast
  obtain e s where r: "runCallbacks (calls ?flds (nkids n)) ?s = (e, s)" by force
  have e: "e = None" "finishContainer n (val s) = Inr c"
    using assms(1) r by (auto simp: parseContainer_def finish_def parseOwn_def Parse_no_collectibles Let_def split: option.splits prod.splits)
  obtain s1 where s1: "runCallbacks ys ?s = (None, s1)" and s2: "runCallbacks ((?f, img) # calls ?flds after) s1 = (None, s)"
    using r e(1) unfolding ys runCallbacks_append by (auto split: prod.splits option.splits)
  obtain s3 where s3: "setImage mergedEnv img s1 = (None, s3)" "runCallbacks (calls ?flds after) s3 = (None, s)"
    using s2 by (auto simp: OptionalField_def split: prod.splits option.splits)
  have "cmDockerfile (val (snd (runCallbacks (calls ?flds after) s3))) = []"
  proof (rule runCallbacks_keeps [where I = "\<lambda>u. cmDockerfile (val u) = []"])
    show "cmDockerfile (val s3) = []" using setImage_clears [of mergedEnv img s1] s3(1) by simp
    fix f ch and u :: "containerMsg treeState"
    assume "(f, ch) \<in> set (calls ?flds after)" "cmDockerfile (val u) = []"
    moreover from this(1) have "nname ch \<noteq> ''dockerfile''" using calls_mem [of f ch ?flds after] assms(5) by (metis imageI)
    ultimately show "cmDockerfile (val (snd (onFound f ch u))) = []"
      using containerField_keeps_dockerfile [of kit mergedEnv "nname ch" f u ch] calls_mem [of f ch ?flds after] by simp
  qed
  then show ?thesis using e(2) s3(2) by (auto simp: finishContainer_def)
qed

section \<open>Divergences\<close>

text \<open>
  The number of megabytes is cut to 32 bits before it is compared with zero: \<open>4194304G\<close> (4 PiB) becomes 0, and a
  container silently gets the default of 4096 MB.
\<close>

lemma ParseMegaBytes_G:
  assumes "n < 2 ^ 32"
  shows "ParseMegaBytes (FormatUint n @ ''G'') = Inr (of_nat (n * 1024))"
proof -
  have "ToLower ''G'' = ''g''" by code_simp
  moreover have "digitsPart (FormatUint n @ ''g'') = FormatUint n" "suffixPart (FormatUint n @ ''g'') = ''g''"
    by (rule cut_FormatUint; simp)+
  ultimately show ?thesis using ParseUint_FormatUint [OF assms] by (simp add: ParseMegaBytes_def Let_def)
qed

lemma memory_truncated:
  assumes "GetExpandedStringValue n mergedEnv = Inr (FormatUint (2 ^ 22) @ ''G'')"
  shows "getMemory mergedEnv n = Inr 0"
proof -
  have "ParseMegaBytes (FormatUint (2 ^ 22) @ ''G'') = Inr (of_nat (2 ^ 22 * 1024))" by (rule ParseMegaBytes_G) simp
  then show ?thesis using assms by (simp add: getMemory_def getVia_def wrapError_def)
qed

end
