(* ===== verification/TaskParser.thy ===== *)
theory TaskParser
  imports Instances ServiceTasks
begin

text \<open>
  Package \<open>pkg/parser/task\<close>: the parsers of tasks, pipes and docker builders, tables of ordinary and collectible
  fields over the generic field parser. The object under construction has the fields of the protocol message
  and of the Go structure around it. Additional instances, which are given by protocol descriptors, are left out;
  additional task properties are an argument.
\<close>

section \<open>The object under construction\<close>

datatype taskInstance =
    TIContainer containerMsg
  | TIMacOS macOSMsg
  | TIPersistentWorker persistentWorkerMsg
  | TIPipe gofloat "32 word"
  | TIDockerBuilder platform string

record taskObj =
  toName :: string
  toEnvironment :: env
  toInstance :: "taskInstance option"
  toInstanceNode :: "node option"
  toCommands :: "command list"
  toProperties :: env
  toStatus :: apiStatus
  toAlias :: string
  toDependsOn :: "string list"
  toOnlyIf :: string
  toResources :: "(gofloat \<times> 32 word) option"
  toPlatform :: platform
  toOsVersion :: string

text \<open>The properties that \<open>AttachBaseTaskFields\<close> starts with.\<close>

definition startProperties :: "env \<Rightarrow> env" where
  "startProperties env =
     (if mget env ''CIRRUS_BRANCH'' \<noteq> mget env ''CIRRUS_DEFAULT_BRANCH''
      then mset_key ''auto_cancellation'' (FormatBool True) DefaultTaskProperties else DefaultTaskProperties)"

definition newTaskObj :: "env \<Rightarrow> env \<Rightarrow> taskObj" where
  "newTaskObj env initialEnv = \<lparr>toName = [], toEnvironment = initialEnv, toInstance = None, toInstanceNode = None,
     toCommands = [], toProperties = startProperties env, toStatus = CREATED, toAlias = [], toDependsOn = [], toOnlyIf = [],
     toResources = None, toPlatform = LINUX, toOsVersion = []\<rparr>"

text \<open>\<open>environment.Merge(task.Environment, env)\<close>, which every callback computes when it runs.\<close>

definition envOf :: "env \<Rightarrow> taskObj \<Rightarrow> env" where
  "envOf env a = Merge [toEnvironment a, env]"

definition setProperty :: "string \<Rightarrow> string \<Rightarrow> taskObj \<Rightarrow> taskObj" where
  "setProperty k v a = a\<lparr>toProperties := mset_key k v (toProperties a)\<rparr>"

text \<open>A callback that reads a value in the environment of the task.\<close>

definition setInEnv :: "env \<Rightarrow> (env \<Rightarrow> node \<Rightarrow> 'v res) \<Rightarrow> ('v \<Rightarrow> taskObj \<Rightarrow> taskObj) \<Rightarrow> taskObj treeState nodeFunc" where
  "setInEnv env get upd n s = setValue (get (envOf env (val s))) upd n s"

section \<open>Fields that tasks share\<close>

definition environmentFields :: "taskObj treeState collectibleField list" where
  "environmentFields =
     [CollectibleField ''environment''
        (setValue GetMapOrListOfMaps (\<lambda>v a. a\<lparr>toEnvironment := Merge [toEnvironment a, v]\<rparr>)),
      CollectibleField ''env''
        (setValue GetMapOrListOfMaps (\<lambda>v a. a\<lparr>toEnvironment := Merge [toEnvironment a, v]\<rparr>))]"

definition nameField :: "env \<Rightarrow> taskObj treeState field" where
  "nameField env =
     OptionalField (SimpleNameable ''name'')
       (setInEnv env (\<lambda>e n. GetExpandedStringValue n e) (\<lambda>v a. a\<lparr>toName := v\<rparr>))"

definition timeoutField :: "env \<Rightarrow> taskObj treeState collectibleField" where
  "timeoutField env =
     CollectibleField ''timeout_in''
       (setInEnv env (\<lambda>e n. wrapError n ''%s'' (handleTimeoutIn n e)) (setProperty ''timeout_in''))"

datatype propertyType = BoolProperty | GroupProperty | OtherProperty

definition propertyField :: "instKit \<Rightarrow> env \<Rightarrow> string \<times> propertyType \<Rightarrow> taskObj treeState collectibleField" where
  "propertyField kit env p =
     (case p of (name, typ) \<Rightarrow>
        CollectibleField name
          (case typ of
             BoolProperty \<Rightarrow> setInEnv env (getBool kit) (\<lambda>v. setProperty name (FormatBool v))
           | GroupProperty \<Rightarrow>
               setInEnv env (\<lambda>e n. GetSliceOfExpandedStrings n e) (\<lambda>v. setProperty name (Join [CHR 0x0A] v))
           | OtherProperty \<Rightarrow> setInEnv env (\<lambda>e n. GetExpandedStringValue n e) (setProperty name)))"

fun namedProperty :: "string option \<times> propertyType option \<Rightarrow> (string \<times> propertyType) option" where
  "namedProperty (Some n, Some t) = Some (n, t)"
| "namedProperty _ = None"

definition baseCollectibles ::
  "instKit \<Rightarrow> env \<Rightarrow> (string option \<times> propertyType option) list \<Rightarrow> taskObj treeState collectibleField list" where
  "baseCollectibles kit env props =
     [CollectibleField ''skip''
        (setInEnv env (getBool kit) (\<lambda>v a. if v then a\<lparr>toStatus := SKIPPED\<rparr> else a)),
      CollectibleField ''allow_failures''
        (setInEnv env (getBool kit) (\<lambda>v. setProperty ''allow_failures'' (FormatBool v))),
      timeoutField env] @
     map (propertyField kit env) (List.map_filter namedProperty props)"

definition aliasField :: "env \<Rightarrow> taskObj treeState field" where
  "aliasField env =
     OptionalField (SimpleNameable ''alias'')
       (setInEnv env (\<lambda>e n. GetExpandedStringValue n e) (\<lambda>v a. setProperty ''alias'' v (a\<lparr>toAlias := v\<rparr>)))"

definition dependsOnField :: "env \<Rightarrow> taskObj treeState field" where
  "dependsOnField env =
     OptionalField (SimpleNameable ''depends_on'')
       (setInEnv env (\<lambda>e n. GetSliceOfExpandedStrings n e) (\<lambda>v a. a\<lparr>toDependsOn := v\<rparr>))"

definition onlyIfField :: "taskObj treeState collectibleField" where
  "onlyIfField = CollectibleField ''only_if'' (setValue GetStringValue (\<lambda>v a. a\<lparr>toOnlyIf := v\<rparr>))"

definition instructionsOf :: "instKit \<Rightarrow> env \<Rightarrow> taskObj treeState field list" where
  "instructionsOf kit env =
     AttachBaseTaskInstructions (ikKit kit) (envOf env) toCommands (\<lambda>new a. a\<lparr>toCommands := toCommands a @ new\<rparr>)"

section \<open>Tasks\<close>

fun platformName :: "platform \<Rightarrow> string" where
  "platformName LINUX = ''linux''"
| "platformName WINDOWS = ''windows''"
| "platformName DARWIN = ''darwin''"

fun isoPlatformName :: "isoPlatform \<Rightarrow> string" where
  "isoPlatformName PlatformLinux = ''linux''"
| "isoPlatformName PlatformWindows = ''windows''"
| "isoPlatformName PlatformDarwin = ''darwin''"

definition setOS :: "string \<Rightarrow> taskObj \<Rightarrow> taskObj" where
  "setOS os a = a\<lparr>toEnvironment := Merge [toEnvironment a, [(''CIRRUS_OS'', os)]]\<rparr>"

text \<open>The callback of an instance: the node is remembered even when its parser fails.\<close>

definition instanceField ::
  "string \<Rightarrow> env \<Rightarrow> (env \<Rightarrow> node \<Rightarrow> issue list \<Rightarrow> 'v res \<times> issue list) \<Rightarrow> ('v \<Rightarrow> taskObj \<Rightarrow> taskObj) \<Rightarrow>
     taskObj treeState collectibleField" where
  "instanceField name env parse upd =
     CollectibleInstanceField name
       (\<lambda>n s. nested (parse (envOf env (val s))) upd n (s\<lparr>val := (val s)\<lparr>toInstanceNode := Some n\<rparr>\<rparr>))"

definition setContainer :: "containerMsg \<Rightarrow> taskObj \<Rightarrow> taskObj" where
  "setContainer c a = (setOS (platformName (cmPlatform c)) a)\<lparr>toInstance := Some (TIContainer c)\<rparr>"

definition isolationOS :: "isolationMsg \<Rightarrow> env" where
  "isolationOS i =
     (case i of
        ParallelsMsg p \<Rightarrow> [(''CIRRUS_OS'', isoPlatformName (parallelsIsolation.piPlatform p))]
      | TartMsg t \<Rightarrow> [(''CIRRUS_OS'', ''darwin'')]
      | _ \<Rightarrow> [])"

definition setPersistentWorker :: "persistentWorkerMsg \<Rightarrow> taskObj \<Rightarrow> taskObj" where
  "setPersistentWorker w a =
     a\<lparr>toEnvironment :=
         (case pwIsolation w of
            Some i \<Rightarrow> Merge [toEnvironment a, isolationOS i]
          | None \<Rightarrow> AList.delete ''CIRRUS_OS'' (toEnvironment a)),
       toInstance := Some (TIPersistentWorker w)\<rparr>"

definition setFreeBSD :: "instKit \<Rightarrow> freeBSD \<Rightarrow> taskObj \<Rightarrow> taskObj" where
  "setFreeBSD kit f a =
     a\<lparr>toEnvironment := Merge [toEnvironment a, [(''CIRRUS_OS'', ''freebsd'')], freeBSDEnvironment kit f]\<rparr>"

definition instanceFields :: "instKit \<Rightarrow> env \<Rightarrow> taskObj treeState collectibleField list" where
  "instanceFields kit env =
     [instanceField ''container'' env (parseContainer kit ArchAMD64) setContainer,
      instanceField ''arm_container'' env (parseContainer kit ArchARM64) setContainer,
      instanceField ''windows_container'' env (parseWindowsContainer kit) setContainer,
      instanceField ''macos_instance'' env parseMacOS (\<lambda>m a. (setOS ''darwin'' a)\<lparr>toInstance := Some (TIMacOS m)\<rparr>),
      instanceField ''persistent_worker'' env (parsePersistentWorker kit) setPersistentWorker,
      instanceField ''freebsd_instance'' env (parseFreeBSD kit) (setFreeBSD kit)]"

type_synonym taskProps = "(string option \<times> propertyType option) list"

definition taskCollectibles :: "instKit \<Rightarrow> env \<Rightarrow> taskProps \<Rightarrow> taskObj treeState collectibleField list" where
  "taskCollectibles kit env props =
     environmentFields @ instanceFields kit env @ baseCollectibles kit env props @ [onlyIfField]"

definition taskFields :: "instKit \<Rightarrow> env \<Rightarrow> taskObj treeState field list" where
  "taskFields kit env = nameField env # instructionsOf kit env @ [aliasField env, dependsOnField env]"

definition appendUploads :: "taskObj \<Rightarrow> taskObj" where
  "appendUploads a = a\<lparr>toCommands := toCommands a @ GenUploadCacheCmds (toCommands a)\<rparr>"

definition finishTask :: "bool \<Rightarrow> node \<Rightarrow> taskObj \<Rightarrow> taskObj res" where
  "finishTask missingOk n a =
     (if toInstance a = None \<and> \<not> missingOk then
        Inl (ParserError n (''task has no instance or container attached, '' @
          ''consult the documentation to find all possible execution environment types'') [])
      else Inr (appendUploads a))"

section \<open>Pipes\<close>

record stepState =
  stImage :: string
  stCommands :: "command list"

text \<open>A step has the instructions of a task but the background scripts.\<close>

definition stepFields :: "instKit \<Rightarrow> env \<Rightarrow> command list \<Rightarrow> stepState treeState field list" where
  "stepFields kit mergedEnv previousCommands =
     RequiredField (SimpleNameable ''image'')
       (setValue (\<lambda>n. GetExpandedStringValue n mergedEnv) (\<lambda>v a. a\<lparr>stImage := v\<rparr>)) #
     tl (AttachBaseTaskInstructions (ikKit kit) (\<lambda>_. mergedEnv) (\<lambda>a. previousCommands @ stCommands a)
       (\<lambda>new a. a\<lparr>stCommands := stCommands a @ new\<rparr>))"

definition finishStep :: "node \<Rightarrow> stepState \<Rightarrow> command list res" where
  "finishStep n a =
     (case stCommands a of
        [] \<Rightarrow> Inl (ParserError n ''pipe steps defined without scripts inside them'' [])
      | c # cs \<Rightarrow> Inr (c\<lparr>cmdProperties := [(''image'', stImage a)]\<rparr> # cs))"

definition parseStep :: "instKit \<Rightarrow> env \<Rightarrow> command list \<Rightarrow> node \<Rightarrow> issue list \<Rightarrow> command list res \<times> issue list" where
  "parseStep kit mergedEnv previousCommands n is =
     finish finishStep n (parseOwn (stepFields kit mergedEnv previousCommands) n is \<lparr>stImage = [], stCommands = []\<rparr>)"

definition parseResources :: "instKit \<Rightarrow> env \<Rightarrow> node \<Rightarrow> issue list \<Rightarrow> (gofloat \<times> 32 word) res \<times> issue list" where
  "parseResources kit mergedEnv n is =
     finish (\<lambda>_ a. Inr a) n (parseOwn
       [OptionalField (SimpleNameable ''cpu'') (setValue (getFloat32 kit mergedEnv) (\<lambda>v a. (v, snd a))),
        OptionalField (SimpleNameable ''memory'') (setValue (getMemory mergedEnv) (\<lambda>v a. (fst a, v)))]
       n is (FloatFin 0, 0))"

text \<open>The loop over the steps: every step sees the commands of the steps before it.\<close>

fun stepLoop :: "instKit \<Rightarrow> env \<Rightarrow> node list \<Rightarrow> taskObj treeState \<Rightarrow> err option \<times> taskObj treeState" where
  "stepLoop kit env [] s = (None, s)"
| "stepLoop kit env (c # cs) s =
     (case nested (parseStep kit (envOf env (val s)) (toCommands (val s)))
             (\<lambda>new a. a\<lparr>toCommands := toCommands a @ new\<rparr>) c s of
        (Some e, s') \<Rightarrow> (Some e, s')
      | (None, s') \<Rightarrow> stepLoop kit env cs s')"

definition parseSteps :: "instKit \<Rightarrow> env \<Rightarrow> taskObj treeState nodeFunc" where
  "parseSteps kit env n s =
     (if nval n \<noteq> ListValue then (Some (ParserError n ''steps should be a list'' []), s) else stepLoop kit env (nkids n) s)"

definition pipeCollectibles :: "instKit \<Rightarrow> env \<Rightarrow> taskProps \<Rightarrow> taskObj treeState collectibleField list" where
  "pipeCollectibles kit env props =
     environmentFields @ baseCollectibles kit env props @ environmentFields @ [onlyIfField, timeoutField env]"

definition pipeFields :: "instKit \<Rightarrow> env \<Rightarrow> taskObj treeState field list" where
  "pipeFields kit env =
     [nameField env, nameField env, aliasField env,
      OptionalField (SimpleNameable ''resources'')
        (\<lambda>n s. nested (parseResources kit (envOf env (val s))) (\<lambda>v a. a\<lparr>toResources := Some v\<rparr>) n s),
      RequiredField (SimpleNameable ''steps'') (parseSteps kit env), dependsOnField env]"

definition finishPipe :: "node \<Rightarrow> taskObj \<Rightarrow> taskObj res" where
  "finishPipe n a =
     (let res = (case toResources a of None \<Rightarrow> (FloatFin 0, 0) | Some r \<Rightarrow> r);
          cpu = (if fst res \<noteq> FloatFin 0 then fst res else FloatFin 2);
          memory = (if snd res \<noteq> 0 then snd res else 4096)
      in Inr (appendUploads (a\<lparr>toInstance := Some (TIPipe cpu memory)\<rparr>)))"

section \<open>Docker builders\<close>

definition builderCollectibles :: "instKit \<Rightarrow> env \<Rightarrow> taskProps \<Rightarrow> taskObj treeState collectibleField list" where
  "builderCollectibles kit env props = environmentFields @ baseCollectibles kit env props @ [onlyIfField]"

definition setBuilderPlatform :: "string \<times> platform \<Rightarrow> taskObj \<Rightarrow> taskObj" where
  "setBuilderPlatform p a =
     a\<lparr>toPlatform := snd p, toEnvironment := mset_key ''CIRRUS_OS'' (fst p) (toEnvironment a)\<rparr>"

definition builderFields :: "instKit \<Rightarrow> env \<Rightarrow> taskObj treeState field list" where
  "builderFields kit env =
     nameField env # instructionsOf kit env @
     [aliasField env, dependsOnField env, ignored ''use_static_ip'',
      OptionalField (SimpleNameable ''platform'')
        (setInEnv env (\<lambda>e. getVia e (\<lambda>n s. case platformValue s of
            None \<Rightarrow> Inl (ParserError n ''unknown platform name: %q'' [s]) | Some p \<Rightarrow> Inr (s, p))) setBuilderPlatform),
      OptionalField (SimpleNameable ''os_version'')
        (setInEnv env (\<lambda>e n. GetExpandedStringValue n e) (\<lambda>v a. a\<lparr>toOsVersion := v\<rparr>))]"

definition finishBuilder :: "node \<Rightarrow> taskObj \<Rightarrow> taskObj res" where
  "finishBuilder n a = Inr (appendUploads (a\<lparr>toInstance := Some (TIDockerBuilder (toPlatform a) (toOsVersion a))\<rparr>))"

section \<open>The three parsers\<close>

text \<open>
  A parser runs on a node of the configuration tree, which the lookup of collectible fields may change; the result
  carries the tree and the issues.
\<close>

definition runParser ::
  "taskObj treeState field list \<Rightarrow> taskObj treeState collectibleField list \<Rightarrow> (node \<Rightarrow> taskObj \<Rightarrow> taskObj res) \<Rightarrow>
     taskObj \<Rightarrow> node \<Rightarrow> path \<Rightarrow> issue list \<Rightarrow> taskObj res \<times> node \<times> issue list" where
  "runParser flds cfields fin a t p is =
     (case Parse treeHost flds cfields \<lparr>tree = t, path = p, issues = is, val = a\<rparr> of
        (Some e, s) \<Rightarrow> (Inl e, tree s, issues s)
      | (None, s) \<Rightarrow> (fin (cur treeHost s) (val s), tree s, issues s))"

datatype taskKind = TaskKind | PipeKind | BuilderKind

fun kindSuffix :: "taskKind \<Rightarrow> string" where
  "kindSuffix TaskKind = ''task''"
| "kindSuffix PipeKind = ''pipe''"
| "kindSuffix BuilderKind = ''docker_builder''"

definition parseTaskLike ::
  "instKit \<Rightarrow> taskProps \<Rightarrow> bool \<Rightarrow> env \<Rightarrow> taskKind \<Rightarrow> node \<Rightarrow> path \<Rightarrow> issue list \<Rightarrow> taskObj res \<times> node \<times> issue list" where
  "parseTaskLike kit props missingOk env k =
     (case k of
        TaskKind \<Rightarrow> runParser (taskFields kit env) (taskCollectibles kit env props) (finishTask missingOk)
          (newTaskObj env [])
      | PipeKind \<Rightarrow> runParser (pipeFields kit env) (pipeCollectibles kit env props) finishPipe
          (newTaskObj env [(''CIRRUS_OS'', ''linux'')])
      | BuilderKind \<Rightarrow> runParser (builderFields kit env) (builderCollectibles kit env props) finishBuilder
          (newTaskObj env [(''CIRRUS_OS'', ''linux'')]))"

definition Enabled :: "instKit \<Rightarrow> taskObj \<Rightarrow> env \<Rightarrow> bool res" where
  "Enabled kit a env =
     (if toOnlyIf a = [] then Inr True else boolEval (ikKit kit) (toOnlyIf a) (envOf env a))"

section \<open>Invariants\<close>

definition cfKeeps :: "('a \<Rightarrow> bool) \<Rightarrow> 'a treeState collectibleField \<Rightarrow> bool" where
  "cfKeeps I cf \<longleftrightarrow> (\<forall>c u. I (val u) \<longrightarrow> I (val (snd (cfOnFound cf c u))))"

lemma cfKeeps_setValue [keeps]:
  assumes "\<And>n v a. get n = Inr v \<Longrightarrow> I a \<Longrightarrow> I (upd v a)"
  shows "cfKeeps I (CollectibleField nm (setValue get upd))"
  using assms by (auto simp: cfKeeps_def CollectibleField_def snd_setValue split: sum.split)

lemma keeps_setInEnv [keeps]:
  assumes "\<And>e n v a. get e n = Inr v \<Longrightarrow> I a \<Longrightarrow> I (upd v a)"
  shows "cfKeeps I (CollectibleField nm (setInEnv env get upd))" "fieldKeeps I (OptionalField nm' (setInEnv env get upd))"
  using assms
  by (auto simp: cfKeeps_def fieldKeeps_def CollectibleField_def OptionalField_def setInEnv_def snd_setValue split: sum.split)

lemma cfKeeps_instanceField [keeps]:
  assumes "\<And>e n is v is' a. parse e n is = (Inr v, is') \<Longrightarrow> I a \<Longrightarrow> I (upd v a)"
    and "\<And>n a. I a \<Longrightarrow> I (a\<lparr>toInstanceNode := Some n\<rparr>)"
  shows "cfKeeps I (instanceField nm env parse upd)"
proof -
  have "I (upd v a)" if "fst (parse e n iss) = Inr v" "I a" for e n iss v a
    using that assms(1) [of e n iss v "snd (parse e n iss)" a] by (metis prod.collapse)
  then show ?thesis
    using assms(2) by (auto simp: cfKeeps_def instanceField_def CollectibleInstanceField_def val_nested split: sum.split)
qed

text \<open>The contract of the generic parser for a table whose fields keep a property.\<close>

lemma table_invariant:
  assumes "\<forall>f \<in> set flds. fieldKeeps I f" and "\<forall>cf \<in> set cfields. cfKeeps I cf"
  shows "parser_invariant treeHost flds cfields (\<lambda>s. I (val s))"
proof unfold_locales
  show "\<And>f s n. f \<in> set flds \<Longrightarrow> I (val s) \<Longrightarrow> I (val (snd (onFound f n s)))"
    using assms(1) by (simp add: fieldKeeps_def)
  show "\<And>cf s n. cf \<in> set cfields \<Longrightarrow> I (val s) \<Longrightarrow> I (val (snd (cfOnFound cf n s)))"
    using assms(2) by (simp add: cfKeeps_def)
qed (simp_all add: treeHost_def case_prod_unfold Let_def)

lemma runParser_val:
  assumes "runParser flds cfields fin a t p is = (Inr b, t', is')"
  shows "\<exists>n s. Parse treeHost flds cfields \<lparr>tree = t, path = p, issues = is, val = a\<rparr> = (None, s) \<and> fin n (val s) = Inr b"
  using assms by (auto simp: runParser_def split: prod.splits option.splits)

subsection \<open>Commands\<close>

text \<open>What the parsers guarantee about an instruction.\<close>

definition wf_instr :: "instruction \<Rightarrow> bool" where
  "wf_instr i =
     (case i of
        FileInstruction f \<Rightarrow> Source f \<noteq> None
      | CacheInstruction c \<Rightarrow> Folders c \<noteq> [] \<and> (FingerprintScripts c = [] \<or> FingerprintKey c = [])
      | CloneInstruction \<Rightarrow> False
      | ExitInstruction \<Rightarrow> False
      | OtherInstruction \<Rightarrow> False
      | _ \<Rightarrow> True)"

definition wf_command :: "command \<Rightarrow> bool" where
  "wf_command c \<longleftrightarrow> wf_instr (cmdInstruction c) \<and> cmdProperties c = []"

lemma wf_mkCommand: "wf_instr i \<Longrightarrow> wf_command (mkCommand name i)"
  by (simp add: wf_command_def mkCommand_def)

lemma parse_commands_wf:
  "handleBackgroundScript kit n = Inr c \<Longrightarrow> wf_command c"
  "handleScript kit n = Inr c \<Longrightarrow> wf_command c"
  "parseArtifacts e n is = (Inr c, is') \<Longrightarrow> wf_command c"
  "parseFile e n is = (Inr c, is') \<Longrightarrow> wf_command c"
  by (auto simp: handleBackgroundScript_def handleScript_def parseArtifacts_def parseFile_def wf_instr_def Let_def
      intro!: wf_mkCommand split: sum.splits prod.splits option.splits if_splits)

lemma parseCache_wf:
  assumes "parseCache kit e n is = (Inr c, is')"
  shows "wf_command c"
proof -
  obtain st where "finishCache n st = Inr c" using assms by (auto simp: parseCache_def split: prod.splits option.splits)
  then show ?thesis
    by (auto simp: finishCache_def wf_instr_def fixFolders_def Let_def intro!: wf_mkCommand split: if_splits)
qed

lemma mapE_range: "mapE f xs = Inr ys \<Longrightarrow> y \<in> set ys \<Longrightarrow> \<exists>x \<in> set xs. f x = Inr y"
  by (induction xs arbitrary: ys) (auto split: sum.splits)

lemma uploads_wf:
  assumes "UploadCachesHelper e prev n = Inr cs"
  shows "\<forall>c \<in> set cs. wf_command c"
proof -
  have "wf_command (mkCommand name (UploadCacheInstruction u))" for name u by (rule wf_mkCommand) (simp add: wf_instr_def)
  then show ?thesis
    using assms by (auto simp: UploadCachesHelper_def split: sum.splits if_splits dest!: mapE_range)
qed

lemma fieldKeeps_addCommand:
  assumes "\<And>n a is cs is'. parse n a is = (Inr cs, is') \<Longrightarrow> \<forall>c \<in> set cs. wf_command c"
    and "\<And>cs a. \<forall>c \<in> set cs. wf_command c \<Longrightarrow> I a \<Longrightarrow> I (add cs a)"
  shows "fieldKeeps I (OptionalField nm (addCommand parse add))" "fieldKeeps I (OptionalRepeatableField nm (addCommand parse add))"
  using assms
  by (auto simp: fieldKeeps_def OptionalField_def OptionalRepeatableField_def addCommand_def split: prod.split sum.split)

lemma single_Inr: "single r = (Inr cs, is) \<Longrightarrow> \<exists>c. r = (Inr c, is) \<and> cs = [c]"
  by (auto simp: single_def split: prod.splits sum.splits)

lemma instructionFields_keep:
  assumes "\<And>cs a. \<forall>c \<in> set cs. wf_command c \<Longrightarrow> I a \<Longrightarrow> I (add cs a)"
  shows "\<forall>f \<in> set (instructionFields kit eo previous add). fieldKeeps I f"
  unfolding instructionFields_def
  by (auto intro!: fieldKeeps_addCommand assms dest!: single_Inr
      dest: parse_commands_wf parseCache_wf uploads_wf [THEN bspec])

lemma parseBehavior_wf:
  assumes "parseBehavior kit e prev n is = (Inr cs, is')"
  shows "\<forall>c \<in> set cs. wf_command c"
proof -
  obtain s where p: "parseOwn (behaviorFields kit e prev) n is [] = (None, s)" "val s = cs"
    using assms by (auto simp: parseBehavior_def split: prod.splits option.splits)
  have flds: "\<forall>f \<in> set (behaviorFields kit e prev). fieldKeeps (\<lambda>cs. \<forall>c \<in> set cs. wf_command c) f"
    unfolding behaviorFields_def by (rule instructionFields_keep) auto
  have "\<forall>c \<in> set (val s). wf_command c" by (rule parseOwn_fields [OF p(1) flds]) simp
  then show ?thesis using p(2) by simp
qed

lemma AttachBaseTaskInstructions_keep:
  assumes "\<And>cs a. \<forall>c \<in> set cs. wf_command c \<Longrightarrow> I a \<Longrightarrow> I (add cs a)"
  shows "\<forall>f \<in> set (AttachBaseTaskInstructions kit eo cmds add). fieldKeeps I f"
proof -
  have "wf_command (c\<lparr>cmdBehavior := b\<rparr>)" if "wf_command c" for c b using that by (simp add: wf_command_def)
  then have "\<forall>c \<in> set cs. wf_command c" if "withBehavior b (parseBehavior kit e prev n iss) = (Inr cs, is')" for b e prev n iss cs is'
    using that parseBehavior_wf [of kit e prev n iss] by (auto simp: withBehavior_def split: prod.splits sum.splits)
  then have "fieldKeeps I (OptionalRepeatableField nm (addCommand (\<lambda>n a is. withBehavior b (parseBehavior kit (eo a) (cmds a) n is)) add))" for nm b
    by (intro fieldKeeps_addCommand assms) auto
  then show ?thesis
    using instructionFields_keep [of I add kit eo cmds] assms by (auto simp: AttachBaseTaskInstructions_def)
qed

subsection \<open>Tasks\<close>

text \<open>
  What holds of a task at every moment of its parse. \<open>propNames\<close> are the names of the additional properties, which may
  overwrite the built-in ones.
\<close>

definition propNames :: "taskProps \<Rightarrow> string set" where
  "propNames props = {n. \<exists>t. (Some n, Some t) \<in> set props}"

definition isSeconds :: "string \<Rightarrow> bool" where
  "isSeconds v \<longleftrightarrow> (\<exists>w :: 32 word. v = FormatUint (unat w))"

definition isTruth :: "string \<Rightarrow> bool" where
  "isTruth v \<longleftrightarrow> v = FormatBool True \<or> v = FormatBool False"

definition wf_properties :: "taskProps \<Rightarrow> env \<Rightarrow> bool" where
  "wf_properties props ps \<longleftrightarrow> wf_map ps \<and> fst ` set DefaultTaskProperties \<subseteq> fst ` set ps \<and>
     (''timeout_in'' \<notin> propNames props \<longrightarrow> isSeconds (mget ps ''timeout_in'')) \<and>
     (''allow_failures'' \<notin> propNames props \<longrightarrow> isTruth (mget ps ''allow_failures''))"

definition wf_taskInstance :: "taskInstance \<Rightarrow> bool" where
  "wf_taskInstance i =
     (case i of
        TIContainer c \<Rightarrow> wf_container c
      | TIMacOS m \<Rightarrow> unat (moCpu m) < 2 ^ 16
      | TIPersistentWorker w \<Rightarrow> (\<forall>i. pwIsolation w = Some i \<longrightarrow> (\<exists>e. wf_isolation e i))
      | TIPipe cpu memory \<Rightarrow> cpu \<noteq> FloatFin 0 \<and> memory \<noteq> 0
      | TIDockerBuilder p v \<Rightarrow> True)"

definition ofKind :: "taskKind \<Rightarrow> taskInstance \<Rightarrow> bool" where
  "ofKind k i =
     (case i of TIPipe _ _ \<Rightarrow> k = PipeKind | TIDockerBuilder _ _ \<Rightarrow> k = BuilderKind | _ \<Rightarrow> k = TaskKind)"

text \<open>The commands of a pipe: non-empty steps whose first command, and no other, names the image.\<close>

definition wf_step :: "command list \<Rightarrow> bool" where
  "wf_step st = (case st of [] \<Rightarrow> False
     | c # cs \<Rightarrow> wf_instr (cmdInstruction c) \<and> (\<exists>img. cmdProperties c = [(''image'', img)]) \<and> (\<forall>d \<in> set cs. wf_command d))"

definition wf_commands :: "taskKind \<Rightarrow> command list \<Rightarrow> bool" where
  "wf_commands k cs =
     (if k = PipeKind then \<exists>steps. cs = concat steps \<and> (\<forall>st \<in> set steps. wf_step st) else \<forall>c \<in> set cs. wf_command c)"

definition taskInv :: "taskProps \<Rightarrow> taskKind \<Rightarrow> taskObj \<Rightarrow> bool" where
  "taskInv props k a \<longleftrightarrow> wf_map (toEnvironment a) \<and> wf_properties props (toProperties a) \<and> wf_commands k (toCommands a) \<and>
     (\<forall>i. toInstance a = Some i \<longrightarrow> wf_taskInstance i \<and> ofKind k i)"

lemma mget_set: "P (mget ps q) \<Longrightarrow> (nm = q \<Longrightarrow> P v) \<Longrightarrow> P (mget (mset_key nm v ps) q)"
  by (cases "nm = q") (simp_all add: mget_def update_conv')

lemma wf_properties_set:
  assumes "wf_properties props ps"
    and "nm = ''timeout_in'' \<Longrightarrow> ''timeout_in'' \<in> propNames props \<or> isSeconds v"
    and "nm = ''allow_failures'' \<Longrightarrow> ''allow_failures'' \<in> propNames props \<or> isTruth v"
  shows "wf_properties props (mset_key nm v ps)"
  unfolding wf_properties_def
proof (intro conjI impI)
  show "wf_map (mset_key nm v ps)" using assms(1) unfolding wf_properties_def by blast
  have "fst ` set ps \<subseteq> fst ` set (mset_key nm v ps)" by (auto simp: dom_update)
  then show "fst ` set DefaultTaskProperties \<subseteq> fst ` set (mset_key nm v ps)"
    using assms(1) unfolding wf_properties_def by blast
  show "isSeconds (mget (mset_key nm v ps) ''timeout_in'')" if "''timeout_in'' \<notin> propNames props"
    by (rule mget_set) (use that assms(1,2) in \<open>unfold wf_properties_def, blast+\<close>)
  show "isTruth (mget (mset_key nm v ps) ''allow_failures'')" if "''allow_failures'' \<notin> propNames props"
    by (rule mget_set) (use that assms(1,3) in \<open>unfold wf_properties_def, blast+\<close>)
qed

lemma taskInv_property:
  assumes "taskInv props k a"
    and "nm = ''timeout_in'' \<Longrightarrow> ''timeout_in'' \<in> propNames props \<or> isSeconds v"
    and "nm = ''allow_failures'' \<Longrightarrow> ''allow_failures'' \<in> propNames props \<or> isTruth v"
  shows "taskInv props k (setProperty nm v a)"
  using assms wf_properties_set [of props "toProperties a" nm v] by (simp add: taskInv_def setProperty_def)

lemma taskInv_env: "taskInv props k a \<Longrightarrow> wf_map e \<Longrightarrow> taskInv props k (a\<lparr>toEnvironment := e\<rparr>)"
  by (simp add: taskInv_def)

lemma taskInv_new: "wf_map e \<Longrightarrow> taskInv props k (newTaskObj env e)"
proof -
  have "''3600'' = FormatUint 3600" by (simp add: FormatUint.simps) code_simp
  then have "''3600'' = FormatUint (unat (3600 :: 32 word))" by simp
  then have "isSeconds ''3600''" unfolding isSeconds_def by blast
  moreover have "isTruth ''false''" by (simp add: isTruth_def FormatBool_def)
  moreover have "wf_map DefaultTaskProperties" "mget DefaultTaskProperties ''timeout_in'' = ''3600''"
    "mget DefaultTaskProperties ''allow_failures'' = ''false''" by code_simp+
  ultimately have "wf_properties props DefaultTaskProperties" by (simp add: wf_properties_def)
  then have "wf_properties props (startProperties env)"
    by (auto simp: startProperties_def intro: wf_properties_set)
  then show "wf_map e \<Longrightarrow> taskInv props k (newTaskObj env e)"
    by (auto simp: taskInv_def newTaskObj_def wf_commands_def intro: exI [of _ "[]"])
qed

lemma environmentFields_keep: "\<forall>cf \<in> set environmentFields. cfKeeps (taskInv props k) cf"
  unfolding environmentFields_def by (auto intro!: keeps taskInv_env simp: Merge_wf)

lemma wrapError_Inr: "wrapError n fmt r = Inr v \<Longrightarrow> r = Inr v"
  by (auto simp: wrapError_def split: sum.splits)

lemma handleTimeoutIn_seconds: "handleTimeoutIn n e = Inr v \<Longrightarrow> isSeconds v"
  unfolding isSeconds_def handleTimeoutIn_def by (auto split: sum.splits)

lemma isTruth_FormatBool: "isTruth (FormatBool b)"
  unfolding isTruth_def by (cases b) simp_all

lemma timeoutField_keep: "cfKeeps (taskInv props k) (timeoutField env)"
  unfolding timeoutField_def
proof (rule keeps, rule taskInv_property)
  fix e n v
  assume "wrapError n ''%s'' (handleTimeoutIn n e) = Inr v"
  then have "isSeconds v" by (rule handleTimeoutIn_seconds [OF wrapError_Inr])
  then show "''timeout_in'' \<in> propNames props \<or> isSeconds v" by blast
qed simp_all

lemma propertyField_keep:
  assumes "n \<in> propNames props"
  shows "cfKeeps (taskInv props k) (propertyField kit env (n, t))"
proof -
  have "taskInv props k (setProperty n v a)" if "taskInv props k a" for v a
    by (rule taskInv_property [OF that]) (metis assms)+
  then show ?thesis by (cases t) (auto simp: propertyField_def intro!: keeps)
qed

lemma map_filter_mem: "y \<in> set (List.map_filter f xs) \<longleftrightarrow> (\<exists>x \<in> set xs. f x = Some y)"
  by (induction xs) (auto simp: map_filter_simps split: option.split)

lemma baseCollectibles_keep: "\<forall>cf \<in> set (baseCollectibles kit env props). cfKeeps (taskInv props k) cf"
proof -
  have skip: "cfKeeps (taskInv props k)
      (CollectibleField ''skip'' (setInEnv env (getBool kit) (\<lambda>v a. if v then a\<lparr>toStatus := SKIPPED\<rparr> else a)))"
    by (rule keeps) (simp add: taskInv_def)
  have allow: "cfKeeps (taskInv props k)
      (CollectibleField ''allow_failures'' (setInEnv env (getBool kit) (\<lambda>v. setProperty ''allow_failures'' (FormatBool v))))"
    by (rule keeps, rule taskInv_property) (simp_all add: isTruth_FormatBool)
  have "cfKeeps (taskInv props k) (propertyField kit env q)"
    if q: "q \<in> set (List.map_filter namedProperty props)" for q
  proof -
    obtain n t where "q = (n, t)" "(Some n, Some t) \<in> set props"
      using q by (auto simp: map_filter_mem elim: namedProperty.elims)
    then show ?thesis using propertyField_keep [of n props k kit env t] by (auto simp: propNames_def)
  qed
  then show ?thesis using skip allow timeoutField_keep unfolding baseCollectibles_def by auto
qed

lemma onlyIfField_keep: "cfKeeps (taskInv props k) onlyIfField"
  unfolding onlyIfField_def by (rule keeps) (simp add: taskInv_def)

lemma getVia_macOS: "parseMacOS e n is = (Inr m, is') \<Longrightarrow> unat (moCpu m) < 2 ^ 16"
proof -
  assume a: "parseMacOS e n is = (Inr m, is')"
  have cpu: "unat w < 65536" if "getVia e (\<lambda>_ s. map_sum id of_nat (ParseUint s 16)) c = Inr w" for c and w :: "32 word"
  proof -
    have "getUint 16 [] e c = Inr w"
      using that by (auto simp: getUint_def getVia_def wrapError_def split: sum.splits)
    then show ?thesis using getUint_bound [of 16 "[]" e c w] by simp
  qed
  have flds: "\<forall>f \<in> set (macOSFields e). fieldKeeps (\<lambda>m. unat (moCpu m) < 65536) f"
    unfolding macOSFields_def by (auto intro!: keeps dest: cpu)
  show ?thesis using finish_fields [OF a [unfolded parseMacOS_def] flds] by auto
qed

lemma taskInv_instance:
  assumes "taskInv props k a" and "wf_taskInstance i" and "ofKind k i" and "wf_map e"
  shows "taskInv props k (a\<lparr>toEnvironment := e, toInstance := Some i\<rparr>)"
  using assms by (simp add: taskInv_def)

lemma taskInv_container:
  "wf_container c \<Longrightarrow> taskInv props TaskKind a \<Longrightarrow> taskInv props TaskKind (setContainer c a)"
  by (simp add: setContainer_def setOS_def taskInv_def wf_taskInstance_def ofKind_def Merge_wf)

lemma taskInv_worker:
  assumes "\<forall>i. pwIsolation w = Some i \<longrightarrow> (\<exists>e. wf_isolation e i)" and "taskInv props TaskKind a"
  shows "taskInv props TaskKind (setPersistentWorker w a)"
proof -
  have "wf_map (AList.delete ''CIRRUS_OS'' (toEnvironment a))"
    using assms(2) by (simp add: taskInv_def wf_map_def distinct_delete)
  then show ?thesis
    unfolding setPersistentWorker_def using assms
    by (intro taskInv_instance) (auto simp: wf_taskInstance_def ofKind_def Merge_wf split: option.split)
qed

lemma instanceFields_keep: "\<forall>cf \<in> set (instanceFields kit env). cfKeeps (taskInv props TaskKind) cf"
proof -
  have node: "taskInv props TaskKind (a\<lparr>toInstanceNode := Some n\<rparr>)" if "taskInv props TaskKind a" for a n
    using that by (simp add: taskInv_def)
  have macos: "taskInv props TaskKind ((setOS ''darwin'' a)\<lparr>toInstance := Some (TIMacOS m)\<rparr>)"
    if "unat (moCpu m) < 2 ^ 16" "taskInv props TaskKind a" for a m
    using that by (simp add: setOS_def taskInv_def wf_taskInstance_def ofKind_def Merge_wf)
  have freebsd: "taskInv props TaskKind (setFreeBSD kit f a)" if "taskInv props TaskKind a" for f a
    using that by (simp add: setFreeBSD_def taskInv_def Merge_wf)
  show ?thesis
    unfolding instanceFields_def
    by (auto intro!: keeps intro: node taskInv_container taskInv_worker macos freebsd
        dest: parseContainer_wf parseWindowsContainer_wf getVia_macOS parsePersistentWorker_wf)
qed

lemma taskInv_commands:
  "\<forall>c \<in> set cs. wf_command c \<Longrightarrow> k \<noteq> PipeKind \<Longrightarrow> taskInv props k a \<Longrightarrow> taskInv props k (a\<lparr>toCommands := toCommands a @ cs\<rparr>)"
  by (auto simp: taskInv_def wf_commands_def)

lemma instructionsOf_keep: "k \<noteq> PipeKind \<Longrightarrow> \<forall>f \<in> set (instructionsOf kit env). fieldKeeps (taskInv props k) f"
  unfolding instructionsOf_def by (rule AttachBaseTaskInstructions_keep) (rule taskInv_commands)

lemma nameField_keep: "fieldKeeps (taskInv props k) (nameField env)"
  unfolding nameField_def by (rule keeps) (simp add: taskInv_def)

lemma dependsOnField_keep: "fieldKeeps (taskInv props k) (dependsOnField env)"
  unfolding dependsOnField_def by (rule keeps) (simp add: taskInv_def)

lemma aliasField_keep: "fieldKeeps (taskInv props k) (aliasField env)"
  unfolding aliasField_def
proof (rule keeps, rule taskInv_property)
  show "taskInv props k a \<Longrightarrow> taskInv props k (a\<lparr>toAlias := v\<rparr>)" for a v by (simp add: taskInv_def)
qed simp_all

lemmas common_keep = nameField_keep dependsOnField_keep aliasField_keep environmentFields_keep baseCollectibles_keep
  onlyIfField_keep timeoutField_keep instanceFields_keep instructionsOf_keep

subsection \<open>Pipes\<close>

lemma set_tl: "x \<in> set (tl xs) \<Longrightarrow> x \<in> set xs"
  by (cases xs) auto

lemma parseStep_wf:
  assumes "parseStep kit e prev n is = (Inr cs, is')"
  shows "wf_step cs"
proof -
  let ?I = "\<lambda>a. \<forall>c \<in> set (stCommands a). wf_command c"
  have "\<forall>f \<in> set (AttachBaseTaskInstructions (ikKit kit) (\<lambda>_. e) (\<lambda>a. prev @ stCommands a)
      (\<lambda>new a. a\<lparr>stCommands := stCommands a @ new\<rparr>)). fieldKeeps ?I f"
    by (rule AttachBaseTaskInstructions_keep) auto
  then have "\<forall>f \<in> set (stepFields kit e prev). fieldKeeps ?I f"
    unfolding stepFields_def by (auto intro!: keeps dest: set_tl)
  then obtain b where "finishStep n b = Inr cs" "?I b"
    using finish_fields [OF assms [unfolded parseStep_def], where I = ?I] by auto
  then show ?thesis by (auto simp: finishStep_def wf_step_def wf_command_def split: list.splits)
qed

lemma taskInv_step:
  assumes "wf_step st" and "taskInv props PipeKind a"
  shows "taskInv props PipeKind (a\<lparr>toCommands := toCommands a @ st\<rparr>)"
proof -
  obtain steps where "toCommands a = concat steps" "\<forall>st \<in> set steps. wf_step st"
    using assms(2) by (auto simp: taskInv_def wf_commands_def)
  then have "wf_commands PipeKind (toCommands a @ st)"
    using assms(1) by (auto simp: wf_commands_def intro!: exI [of _ "steps @ [st]"])
  then show ?thesis using assms(2) by (simp add: taskInv_def)
qed

lemma stepLoop_keeps: "taskInv props PipeKind (val s) \<Longrightarrow> taskInv props PipeKind (val (snd (stepLoop kit env cs s)))"
proof (induction cs arbitrary: s)
  case (Cons c cs)
  let ?n = "nested (parseStep kit (envOf env (val s)) (toCommands (val s))) (\<lambda>new a. a\<lparr>toCommands := toCommands a @ new\<rparr>) c s"
  obtain e s' where n: "?n = (e, s')" by force
  have "taskInv props PipeKind (val (snd ?n))"
  proof (cases "fst (parseStep kit (envOf env (val s)) (toCommands (val s)) c (issues s))")
    case (Inr st)
    then have "wf_step st" using parseStep_wf by (metis prod.collapse)
    then show ?thesis using Inr Cons.prems taskInv_step by (simp add: val_nested)
  qed (use Cons.prems in \<open>simp add: val_nested\<close>)
  then show ?case using Cons.IH [of s'] n by (cases e) auto
qed simp

lemma pipeFields_keep: "\<forall>f \<in> set (pipeFields kit env). fieldKeeps (taskInv props PipeKind) f"
proof -
  have "fieldKeeps (taskInv props PipeKind) (RequiredField nm (parseSteps kit env))" for nm
    by (simp add: fieldKeeps_def RequiredField_def parseSteps_def stepLoop_keeps)
  moreover have "fieldKeeps (taskInv props PipeKind) (OptionalField nm
      (\<lambda>n s. nested (parseResources kit (envOf env (val s))) (\<lambda>v a. a\<lparr>toResources := Some v\<rparr>) n s))" for nm
    by (auto simp: fieldKeeps_def OptionalField_def val_nested taskInv_def split: sum.split)
  ultimately show ?thesis using common_keep by (simp add: pipeFields_def)
qed

lemma builderFields_keep: "\<forall>f \<in> set (builderFields kit env). fieldKeeps (taskInv props BuilderKind) f"
proof -
  have platform: "taskInv props BuilderKind (setBuilderPlatform p a)" if "taskInv props BuilderKind a" for p a
    using that by (auto simp: setBuilderPlatform_def taskInv_def)
  have os: "taskInv props BuilderKind (a\<lparr>toOsVersion := v\<rparr>)" if "taskInv props BuilderKind a" for v a
    using that by (simp add: taskInv_def)
  have fields: "fieldKeeps (taskInv props BuilderKind) (OptionalField nm (setInEnv env g setBuilderPlatform))"
    "fieldKeeps (taskInv props BuilderKind) (OptionalField nm (setInEnv env g' (\<lambda>v a. a\<lparr>toOsVersion := v\<rparr>)))" for nm g g'
    by (rule keeps, erule platform) (rule keeps, erule os)
  show ?thesis
    using fields common_keep fieldKeeps_ignored unfolding builderFields_def by auto
qed

interpretation taskTable: parser_invariant treeHost "taskFields kit env" "taskCollectibles kit env props"
  "\<lambda>s. taskInv props TaskKind (val s)" for kit env props
  by (rule table_invariant) (use common_keep in \<open>auto simp: taskFields_def taskCollectibles_def\<close>)

interpretation pipeTable: parser_invariant treeHost "pipeFields kit env" "pipeCollectibles kit env props"
  "\<lambda>s. taskInv props PipeKind (val s)" for kit env props
  by (rule table_invariant) (use common_keep pipeFields_keep in \<open>auto simp: pipeCollectibles_def\<close>)

interpretation builderTable: parser_invariant treeHost "builderFields kit env" "builderCollectibles kit env props"
  "\<lambda>s. taskInv props BuilderKind (val s)" for kit env props
  by (rule table_invariant) (use common_keep builderFields_keep in \<open>auto simp: builderCollectibles_def\<close>)

section \<open>Properties\<close>

definition wf_taskObj :: "taskProps \<Rightarrow> bool \<Rightarrow> taskKind \<Rightarrow> taskObj \<Rightarrow> bool" where
  "wf_taskObj props missingOk k a \<longleftrightarrow>
     wf_map (toEnvironment a) \<and> wf_properties props (toProperties a) \<and>
     (\<exists>cs. toCommands a = cs @ GenUploadCacheCmds cs \<and> wf_commands k cs) \<and>
     (case toInstance a of
        None \<Rightarrow> k = TaskKind \<and> missingOk
      | Some i \<Rightarrow> wf_taskInstance i \<and> ofKind k i)"

lemma appendUploads_wf:
  assumes "taskInv props k a" and "toInstance a = None \<longrightarrow> k = TaskKind \<and> m"
  shows "wf_taskObj props m k (appendUploads a)"
  using assms by (auto simp: wf_taskObj_def appendUploads_def taskInv_def split: option.split)

text \<open>
  C13. Every task, pipe or docker builder that parses is well-typed: its environment and its properties are maps with the
  default properties, the timeout is a 32-bit number of seconds and \<open>allow_failures\<close> a truth value (unless an
  additional property has the same name), its commands are instructions the parser knows, with folders for caches
  and contents for files, followed by the implicit uploads, those of a pipe fall into non-empty steps whose first
  command names the image, and its instance is one of its kind with resources that are not zero and ports of 16 bits.
  A task without an instance is only accepted when that is allowed.
\<close>

theorem parsed_task_wellformed:
  assumes "parseTaskLike kit props missingOk env k t p is = (Inr a, t', is')"
  shows "wf_taskObj props missingOk k a"
proof (cases k)
  case TaskKind
  let ?s = "\<lparr>tree = t, path = p, issues = is, val = newTaskObj env []\<rparr>"
  obtain n s where s: "Parse treeHost (taskFields kit env) (taskCollectibles kit env props) ?s = (None, s)"
    "finishTask missingOk n (val s) = Inr a"
    using runParser_val [OF assms [unfolded parseTaskLike_def TaskKind taskKind.case]] by blast
  have "taskInv props TaskKind (val s)"
    using taskTable.Parse_keeps [of props ?s kit env] s(1) taskInv_new by simp
  then show ?thesis
    using s(2) TaskKind appendUploads_wf by (auto simp: finishTask_def split: if_splits)
next
  case PipeKind
  let ?s = "\<lparr>tree = t, path = p, issues = is, val = newTaskObj env [(''CIRRUS_OS'', ''linux'')]\<rparr>"
  obtain n s where s: "Parse treeHost (pipeFields kit env) (pipeCollectibles kit env props) ?s = (None, s)"
    "finishPipe n (val s) = Inr a"
    using runParser_val [OF assms [unfolded parseTaskLike_def PipeKind taskKind.case]] by blast
  have "taskInv props PipeKind (val s)"
    using pipeTable.Parse_keeps [of props ?s kit env] s(1) taskInv_new by (simp add: wf_map_def)
  then have "taskInv props PipeKind ((val s)\<lparr>toInstance := Some (TIPipe cpu memory)\<rparr>)" if "cpu \<noteq> FloatFin 0" "memory \<noteq> 0" for cpu memory
    using that by (simp add: taskInv_def wf_taskInstance_def ofKind_def)
  then show ?thesis
    using s(2) PipeKind appendUploads_wf [of props PipeKind] by (auto simp: finishPipe_def Let_def)
next
  case BuilderKind
  let ?s = "\<lparr>tree = t, path = p, issues = is, val = newTaskObj env [(''CIRRUS_OS'', ''linux'')]\<rparr>"
  obtain n s where s: "Parse treeHost (builderFields kit env) (builderCollectibles kit env props) ?s = (None, s)"
    "finishBuilder n (val s) = Inr a"
    using runParser_val [OF assms [unfolded parseTaskLike_def BuilderKind taskKind.case]] by blast
  have "taskInv props BuilderKind (val s)"
    using builderTable.Parse_keeps [of props ?s kit env] s(1) taskInv_new by (simp add: wf_map_def)
  then have "taskInv props BuilderKind ((val s)\<lparr>toInstance := Some (TIDockerBuilder (toPlatform (val s)) (toOsVersion (val s)))\<rparr>)"
    by (simp add: taskInv_def wf_taskInstance_def ofKind_def)
  then show ?thesis
    using s(2) BuilderKind appendUploads_wf [of props BuilderKind] by (auto simp: finishBuilder_def)
qed

definition exampleKit :: instKit where
  "exampleKit = \<lparr>ikKit = \<lparr>boolEval = (\<lambda>s e. Inr (s = ''true'')), psEncoder = (\<lambda>s. Inr s)\<rparr>,
     parseFloat32 = (\<lambda>s. Inl (Plain ''invalid syntax'' [s])), parseFloat64 = (\<lambda>s. Inl (Plain ''invalid syntax'' [s])),
     formatFloat32 = (\<lambda>_. []), shlexSplit = (\<lambda>s. Inr [s]), durationSeconds = (\<lambda>s. Inl (Plain ''invalid'' [s]))\<rparr>"

definition examplePipeTree :: node where
  "examplePipeTree = Node [] MapValue
     [Node ''x_pipe'' MapValue
        [Node ''steps'' ListValue
           [Node [] MapValue
              [Node ''image'' (ScalarValue ''i'') [] 5 1, Node ''build_script'' (ScalarValue ''make'') [] 6 1] 4 1] 3 1] 2 1] 0 0"

lemma example_parses: "is_ok (fst (parseTaskLike exampleKit [] False [] PipeKind examplePipeTree [0] []))"
  by code_simp

theorem parsed_task_wellformed_witness:
  "\<exists>a t' is'. parseTaskLike exampleKit [] False [] PipeKind examplePipeTree [0] [] = (Inr a, t', is') \<and>
     wf_taskObj [] False PipeKind a"
proof -
  obtain a t' is' where p: "parseTaskLike exampleKit [] False [] PipeKind examplePipeTree [0] [] = (Inr a, t', is')"
    using example_parses by (metis is_ok_iff prod.collapse)
  show ?thesis using parsed_task_wellformed [OF p] p by blast
qed

end
