(* ===== verification/Driver.thy ===== *)
theory Driver
  imports TaskParser NodeYaml Matrix Sha256
begin

text \<open>
  Package \<open>pkg/parser\<close>, parser.go and dockerfile.go: the driver that turns the text of a configuration into task
  messages. It composes the conversion of YAML, the matrix expansion, the task parsers, the resolution and
  validation of dependencies, the hashes of Dockerfiles, the service tasks, the clone instruction and the labels.
  The YAML library, the file system, the analysis of Dockerfiles and MD5 are arguments.
\<close>

section \<open>Hashes of Dockerfiles\<close>

datatype dirResult = DirNames "string list" | NotADirectory | DirError err

record fileSystem =
  fsGet :: "string \<Rightarrow> string res"
  fsReadDir :: "string \<Rightarrow> dirResult"
  fsJoin :: "string \<Rightarrow> string \<Rightarrow> string"

text \<open>\<open>sourcePathsOf\<close> is the analysis of a Dockerfile with its arguments, \<open>md5hex\<close> the digest of \<open>crypto/md5\<close>.\<close>

record dockerTools =
  dtFs :: fileSystem
  sourcePathsOf :: "string \<Rightarrow> env \<Rightarrow> string list res"
  md5hex :: "string \<Rightarrow> string"

definition dockerArgumentsToString :: "env \<Rightarrow> string" where
  "dockerArgumentsToString buildArgs = Join '', '' (sort (map (\<lambda>(k, v). k @ v) buildArgs))"

text \<open>
  The breadth-first walk through the files below a path: the contents in the order of the callbacks and the error
  that stopped the walk. A directory that contains itself makes it run for ever.
\<close>

partial_function (option) findLoop :: "fileSystem \<Rightarrow> string list \<Rightarrow> string list \<Rightarrow> (string list \<times> err option) option" where
  "findLoop fs todo seen =
     (case todo of
        [] \<Rightarrow> Some (seen, None)
      | p # rest \<Rightarrow>
          (case fsReadDir fs p of
             DirNames names \<Rightarrow> findLoop fs (rest @ map (fsJoin fs p) names) seen
           | NotADirectory \<Rightarrow>
               (case fsGet fs p of
                  Inl e \<Rightarrow> Some (seen, Some (Plain ''%w file %q referenced in ADD/COPY instruction: %v'' [p]))
                | Inr c \<Rightarrow> findLoop fs rest (seen @ [c]))
           | DirError e \<Rightarrow> Some (seen, Some (Plain ''%w directory %q referenced in ADD/COPY instruction: %v'' [p]))))"

declare findLoop.simps [code]

definition warningAt :: "node \<Rightarrow> string \<Rightarrow> string list \<Rightarrow> issue" where
  "warningAt n fmt args =
     \<lparr>issueLevel = WARNING, issueFormat = fmt, issueArgs = args, issueLine = nline n, issueColumn = ncol n\<rparr>"

text \<open>The loop over the sources of a Dockerfile; \<open>None\<close> when a walk does not end.\<close>

fun sourceLoop :: "fileSystem \<Rightarrow> node \<Rightarrow> string \<Rightarrow> string list \<Rightarrow> string list \<Rightarrow> issue list \<Rightarrow> (string list \<times> issue list) option" where
  "sourceLoop fs n ctx [] seen is = Some (seen, is)"
| "sourceLoop fs n ctx (p # ps) seen is =
     (case findLoop fs [if ctx \<noteq> [] then fsJoin fs ctx p else p] seen of
        None \<Rightarrow> None
      | Some (seen', None) \<Rightarrow> sourceLoop fs n ctx ps seen' is
      | Some (seen', Some e) \<Rightarrow> sourceLoop fs n ctx ps seen' (is @ [warningAt n ''%v'' (errText e)]))"

definition calculateDockerfileHash ::
  "dockerTools \<Rightarrow> string \<Rightarrow> env \<Rightarrow> node \<Rightarrow> string \<Rightarrow> string \<Rightarrow> issue list \<Rightarrow> (string res \<times> issue list) option" where
  "calculateDockerfileHash dt dockerfilePath dockerArguments dockerfileNode dockerContext cirrusArch is =
     (case fsGet (dtFs dt) dockerfilePath of
        Inl e \<Rightarrow> Some (Inl (ParserError dockerfileNode ''%v %q: %v'' (''failed to retrieve'' # dockerfilePath # errText e)), is)
      | Inr contents \<Rightarrow>
          (let hashed = contents @ dockerArgumentsToString dockerArguments @
                 (if cirrusArch \<noteq> [] \<and> cirrusArch \<noteq> ''amd64'' then cirrusArch else [])
           in case sourcePathsOf dt contents dockerArguments of
                Inl e \<Rightarrow> Some (Inr (md5hex dt hashed),
                  is @ [warningAt dockerfileNode ''%v %q: %v'' (''failed to analyze'' # dockerfilePath # errText e)])
              | Inr paths \<Rightarrow>
                  (case sourceLoop (dtFs dt) dockerfileNode dockerContext paths [] is of
                     None \<Rightarrow> None
                   | Some (seen, is') \<Rightarrow>
                       Some (Inr (if seen \<noteq> [] then sha256hex (hashed @ concat seen) else md5hex dt hashed), is'))))"

text \<open>
  The Dockerfile of an instance, its arguments and the node it was given by. For a persistent worker the check of the
  node of the container tests the node of the isolation once more.
\<close>

definition dockerfileAndArgumentsFromInstance :: "inst \<Rightarrow> node option \<Rightarrow> (string \<times> env \<times> node option) res" where
  "dockerfileAndArgumentsFromInstance i instanceNode =
     (case i of
        PersistentWorkerInst None \<Rightarrow> Inr ([], [], None)
      | PersistentWorkerInst (Some c) \<Rightarrow>
          (case instanceNode of
             None \<Rightarrow> Inl (Panic ''nil pointer dereference'')
           | Some n \<Rightarrow>
               (case FindChild n ''isolation'' of
                  None \<Rightarrow> Inr ([], [], None)
                | Some isolationNode \<Rightarrow>
                    (case FindChild isolationNode ''container'' of
                       None \<Rightarrow> Inl (Panic ''nil pointer dereference'')
                     | Some containerNode \<Rightarrow>
                         Inr (Proto.ciDockerfile c, Proto.ciDockerArguments c, FindChild containerNode ''dockerfile''))))
      | ContainerInst c \<Rightarrow>
          if Proto.ciDockerfile c = [] then Inr ([], [], None)
          else (case instanceNode of
                  None \<Rightarrow> Inl (Panic ''nil pointer dereference'')
                | Some n \<Rightarrow> Inr (Proto.ciDockerfile c, Proto.ciDockerArguments c, FindChild n ''dockerfile''))
      | _ \<Rightarrow> Inr ([], [], None))"

definition setProtoProperty :: "string \<Rightarrow> string \<Rightarrow> ptask \<Rightarrow> ptask" where
  "setProtoProperty k v t =
     t\<lparr>ptMetadata := map_option (\<lambda>m. m\<lparr>mdProperties := mset_key k v (mdProperties m)\<rparr>) (ptMetadata t)\<rparr>"

text \<open>
  The body of the loop over the tasks. \<open>nodes\<close> maps the identifiers of those task-like objects that have an instance
  node, which are the tasks and not the pipes and builders, to that node.
\<close>

definition hashOneTask ::
  "dockerTools \<Rightarrow> bool \<Rightarrow> (int \<times> node option) list \<Rightarrow> ptask \<Rightarrow> issue list \<Rightarrow> (ptask res \<times> issue list) option" where
  "hashOneTask dt missingOk nodes t is =
     (case ptInstance t of
        None \<Rightarrow> Some (if missingOk then Inr t else Inl (Internal ''failed to unmarshal task's instance: %v'' [ptName t]), is)
      | Some UnknownInst \<Rightarrow> Some (Inr t, is)
      | Some BrokenInst \<Rightarrow> Some (Inl (Internal ''failed to unmarshal task's instance: %v'' [ptName t]), is)
      | Some i \<Rightarrow>
          (case map_of nodes (ptID t) of
             None \<Rightarrow> Some (Inr t, is)
           | Some instanceNode \<Rightarrow>
               (case dockerfileAndArgumentsFromInstance i instanceNode of
                  Inl e \<Rightarrow> Some (Inl e, is)
                | Inr (dockerfilePath, dockerArguments, None) \<Rightarrow> Some (Inr t, is)
                | Inr (dockerfilePath, dockerArguments, Some dockerfileNode) \<Rightarrow>
                    if dockerfilePath = [] then Some (Inr t, is)
                    else map_option (map_prod (map_sum id (\<lambda>h. setProtoProperty ''dockerfile_hash'' h t)) id)
                      (calculateDockerfileHash dt dockerfilePath dockerArguments dockerfileNode
                        (mget (ptEnvironment t) ''CIRRUS_DOCKER_CONTEXT'') (mget (ptEnvironment t) ''CIRRUS_ARCH'') is))))"

fun calculateDockerfileHashes ::
  "dockerTools \<Rightarrow> bool \<Rightarrow> (int \<times> node option) list \<Rightarrow> ptask list \<Rightarrow> issue list \<Rightarrow> (ptask list res \<times> issue list) option" where
  "calculateDockerfileHashes dt missingOk nodes [] is = Some (Inr [], is)"
| "calculateDockerfileHashes dt missingOk nodes (t # ts) is =
     (case hashOneTask dt missingOk nodes t is of
        None \<Rightarrow> None
      | Some (Inl e, is') \<Rightarrow> Some (Inl e, is')
      | Some (Inr u, is') \<Rightarrow>
          map_option (map_prod (map_sum id (\<lambda>us. u # us)) id) (calculateDockerfileHashes dt missingOk nodes ts is'))"

section \<open>The task-like objects of a configuration\<close>

text \<open>
  What a parser is configured with: \<open>pcUnmarshal\<close> is the YAML library; \<open>pcGitHub\<close> says whether the GitHub Actions mode is
  on and with which registry and repository.
\<close>

record parserConfig =
  pcKit :: instKit
  pcEnv :: env
  pcProps :: taskProps
  pcMissingOk :: bool
  pcDocker :: dockerTools
  pcGitHub :: "bool \<times> string \<times> string"
  pcUnmarshal :: "string \<Rightarrow> (ynode \<times> ynode list) res"

record parserState =
  psNum :: numbering
  psCount :: int
  psDisabled :: "string list"
  psIssues :: "issue list"
  psTree :: node

definition NextTaskID :: "parserState \<Rightarrow> int \<times> parserState" where
  "NextTaskID st = (idNumbering (psNum st), st\<lparr>psNum := (psNum st)\<lparr>idNumbering := idNumbering (psNum st) + 1\<rparr>\<rparr>)"

definition NextTaskLocalIndex :: "parserState \<Rightarrow> int \<times> parserState" where
  "NextTaskLocalIndex st =
     (indexNumbering (psNum st), st\<lparr>psNum := (psNum st)\<lparr>indexNumbering := indexNumbering (psNum st) + 1\<rparr>\<rparr>)"

text \<open>The parser of a name. At most one of the three patterns matches, so the order of the Go map does not matter.\<close>

definition kindOf :: "string \<Rightarrow> taskKind option" where
  "kindOf name = find (\<lambda>k. Matches (RegexNameable (kindSuffix k)) name) [TaskKind, PipeKind, BuilderKind]"

definition taskLikeOf :: "taskObj \<Rightarrow> int \<Rightarrow> string \<Rightarrow> node \<Rightarrow> taskLike" where
  "taskLikeOf a i fallback item =
     \<lparr>tlID = i, tlName = (if toName a = [] then fallback else toName a), tlAlias = toAlias a, tlFallbackName = fallback,
      tlDependsOnNames = toDependsOn a, tlDependsOnIDs = [], tlOnlyIf = toOnlyIf a, tlLine = nline item, tlColumn = ncol item\<rparr>"

text \<open>The body of the loop for one item of the tree; \<open>None\<close> when it adds no task.\<close>

definition parseItem :: "parserConfig \<Rightarrow> nat \<Rightarrow> parserState \<Rightarrow> (taskLike \<times> taskKind \<times> taskObj) option res \<times> parserState" where
  "parseItem cfg i st =
     (let item = nkids (psTree st) ! i;
          st0 = (if HasPrefix (nname item) ''task_'' then
                   st\<lparr>psIssues := psIssues st @ [warningAt item ''you've probably meant %s_task'' [TrimPrefix (nname item) ''task_'']]\<rparr>
                 else st)
      in case kindOf (nname item) of
           None \<Rightarrow> (Inr None, st0)
         | Some k \<Rightarrow>
             (case parseTaskLike (pcKit cfg) (pcProps cfg) (pcMissingOk cfg) (pcEnv cfg) k (psTree st0) [i] (psIssues st0) of
                (Inl e, t, is) \<Rightarrow> (Inl e, st0\<lparr>psTree := t, psIssues := is\<rparr>)
              | (Inr a, t, is) \<Rightarrow>
                  (let (taskID, st1) = NextTaskID (st0\<lparr>psTree := t, psIssues := is\<rparr>);
                       tsk = taskLikeOf a taskID (FirstGroupOrDefault (kindSuffix k) (nname item) ''main'') item;
                       st2 = st1\<lparr>psCount := psCount st1 + 1\<rparr>
                   in case Enabled (pcKit cfg) a (Merge [[(''CIRRUS_TASK_NAME'', tlName tsk)], pcEnv cfg]) of
                        Inl e \<Rightarrow> (Inl e, st2)
                      | Inr False \<Rightarrow> (Inr None, st2\<lparr>psDisabled := psDisabled st2 @ [tlName tsk, tlAlias tsk]\<rparr>)
                      | Inr True \<Rightarrow>
                          (let (index, st3) = NextTaskLocalIndex st2
                           in (Inr (Some (tsk, k, setProperty ''indexWithinBuild'' (FormatInt index) a)), st3)))))"

fun parseItems :: "parserConfig \<Rightarrow> nat list \<Rightarrow> parserState \<Rightarrow> (taskLike \<times> taskKind \<times> taskObj) list res \<times> parserState" where
  "parseItems cfg [] st = (Inr [], st)"
| "parseItems cfg (i # js) st =
     (case parseItem cfg i st of
        (Inl e, st') \<Rightarrow> (Inl e, st')
      | (Inr r, st') \<Rightarrow>
          (case parseItems cfg js st' of
             (Inl e, st'') \<Rightarrow> (Inl e, st'')
           | (Inr rs, st'') \<Rightarrow> (Inr (case r of None \<Rightarrow> rs | Some x \<Rightarrow> x # rs), st'')))"

definition parseTasks :: "parserConfig \<Rightarrow> parserState \<Rightarrow> (taskLike \<times> taskKind \<times> taskObj) list res \<times> parserState" where
  "parseTasks cfg st = parseItems cfg [0 ..< length (nkids (psTree st))] st"

section \<open>Messages\<close>

text \<open>The instance of a message, as far as the later passes look at it.\<close>

definition instOf :: "taskInstance \<Rightarrow> inst" where
  "instOf i =
     (case i of
        TIContainer c \<Rightarrow> ContainerInst \<lparr>containerInst.ciImage = cmImage c, ciDockerfile = cmDockerfile c, ciDockerArguments = cmDockerArguments c,
          ciPlatform = cmPlatform c, ciOsVersion = cmOsVersion c, ciAdditional = map (\<lambda>a. (acName a, acImage a)) (cmAdditionalContainers c)\<rparr>
      | TIPersistentWorker w \<Rightarrow> PersistentWorkerInst
          (case pwIsolation w of
             Some (ContainerIsoMsg c) \<Rightarrow> Some \<lparr>containerInst.ciImage = containerIsolation.ciImage c, ciDockerfile = icDockerfile c,
               ciDockerArguments = icDockerArguments c, ciPlatform = icPlatform c, ciOsVersion = [], ciAdditional = []\<rparr>
           | _ \<Rightarrow> None)
      | TIPipe _ _ \<Rightarrow> PipeInst
      | _ \<Rightarrow> OtherInst)"

definition protoOf :: "taskLike \<Rightarrow> taskObj \<Rightarrow> ptask" where
  "protoOf tsk a =
     \<lparr>ptName = tlName tsk, ptID = tlID tsk, ptInstance = map_option instOf (toInstance a), ptCommands = toCommands a,
      ptEnvironment = toEnvironment a, ptMetadata = Some \<lparr>mdProperties = toProperties a, mdUniqueLabels = []\<rparr>,
      ptRequired = tlDependsOnIDs tsk, ptStatus = toStatus a\<rparr>"

fun validateProtos :: "ptask list \<Rightarrow> err option" where
  "validateProtos [] = None"
| "validateProtos (t # ts) = (case validateTask (ptName t) (ptCommands t) of Some e \<Rightarrow> Some e | None \<Rightarrow> validateProtos ts)"

definition setLabels :: "string list \<Rightarrow> ptask \<Rightarrow> ptask" where
  "setLabels labels t = t\<lparr>ptMetadata := map_option (\<lambda>m. m\<lparr>mdUniqueLabels := labels\<rparr>) (ptMetadata t)\<rparr>"

definition postprocess :: "bool \<Rightarrow> ptask list \<Rightarrow> ptask \<Rightarrow> ptask res" where
  "postprocess missingOk tasks t =
     (case uniqueLabels missingOk (\<lambda>_. None) t tasks of
        Inl e \<Rightarrow> Inl (Internal ''%v'' (errText e))
      | Inr labels \<Rightarrow> Inr (setLabels labels (ensureCloneInstruction t)))"

section \<open>The driver\<close>

record parseResult =
  prTasks :: "ptask list"
  prIssues :: "issue list"
  prCount :: int

text \<open>The names of the collectible and of the repeatable fields are exempt from the deduplication of merged maps.\<close>

definition mergeExemptions :: "parserConfig \<Rightarrow> (string \<Rightarrow> bool) list" where
  "mergeExemptions cfg =
     concat (map (\<lambda>(flds, cfields). map (\<lambda>cf. Matches (SimpleNameable (cfName cf))) cfields @
         map (\<lambda>f. Matches (fieldName f)) (filter repeatable flds))
       [(taskFields (pcKit cfg) [], taskCollectibles (pcKit cfg) [] (pcProps cfg)),
        (pipeFields (pcKit cfg) [], pipeCollectibles (pcKit cfg) [] (pcProps cfg)),
        (builderFields (pcKit cfg) [], builderCollectibles (pcKit cfg) [] (pcProps cfg))])"

text \<open>The second half of the driver: from the task-like objects to the messages.\<close>

definition finishParse ::
  "parserConfig \<Rightarrow> (taskLike \<times> taskKind \<times> taskObj) list \<Rightarrow> parserState \<Rightarrow> (parseResult res) option" where
  "finishParse cfg parsed st =
     (case resolveDependenciesShallow (psDisabled st) (map fst parsed) (psIssues st) of
        (Inl e, is) \<Rightarrow> Some (Inl e)
      | (Inr tasks, is) \<Rightarrow>
          if tasks = [] then Some (Inr \<lparr>prTasks = [], prIssues = is, prCount = 0\<rparr>)
          else (case validateDependenciesDeep tasks of
             Some e \<Rightarrow> Some (Inl e)
           | None \<Rightarrow>
               (let is1 = is @ searchForUnbalancedOnlyIfs tasks;
                    protos = map2 (\<lambda>tsk (_, k, a). protoOf tsk a) tasks parsed;
                    nodes = map (\<lambda>(tsk, k, a). (tlID tsk, toInstanceNode a)) (filter (\<lambda>(tsk, k, a). k = TaskKind) parsed)
                in case validateProtos protos of
                     Some e \<Rightarrow> Some (Inl e)
                   | None \<Rightarrow>
                       (case calculateDockerfileHashes (pcDocker cfg) (pcMissingOk cfg) nodes protos is1 of
                          None \<Rightarrow> None
                        | Some (Inl e, is2) \<Rightarrow> Some (Inl e)
                        | Some (Inr hashed, is2) \<Rightarrow>
                            (case createServiceTasks (case pcGitHub cfg of (gh, registry, repository) \<Rightarrow>
                                 serviceConfigOf (pcMissingOk cfg) gh registry repository) hashed (psNum st) of
                               Inl e \<Rightarrow> Some (Inl e)
                             | Inr (withServices, services, num) \<Rightarrow>
                                 (case mapE (postprocess (pcMissingOk cfg) (withServices @ services)) (withServices @ services) of
                                    Inl e \<Rightarrow> Some (Inl e)
                                  | Inr result \<Rightarrow>
                                      Some (Inr \<lparr>prTasks = sort_key ptID result, prIssues = is2, prCount = psCount st\<rparr>)))))))"

definition parserParse :: "parserConfig \<Rightarrow> string \<Rightarrow> (parseResult res) option" where
  "parserParse cfg config =
     (case NewFromTextWithMergeExemptions (pcUnmarshal cfg) config (mergeExemptions cfg) of
        Inl e \<Rightarrow> Some (Inl e)
      | Inr t \<Rightarrow>
          (case ExpandMatrices t of
             Inl e \<Rightarrow> Some (Inl e)
           | Inr t' \<Rightarrow>
               (case parseTasks cfg \<lparr>psNum = \<lparr>idNumbering = 0, indexNumbering = 0\<rparr>, psCount = 0, psDisabled = [], psIssues = [], psTree = t'\<rparr> of
                  (Inl e, st) \<Rightarrow> Some (Inl e)
                | (Inr parsed, st) \<Rightarrow> finishParse cfg parsed st)))"

section \<open>Facts about the loop over the items\<close>

text \<open>At most one parser matches a name.\<close>

lemma kinds_exclusive:
  assumes "Matches (RegexNameable (kindSuffix j)) name" and "Matches (RegexNameable (kindSuffix k)) name"
  shows "j = k"
proof -
  have last: "last name = last (kindSuffix k)" if "Matches (RegexNameable (kindSuffix k)) name" for k
  proof -
    have "kindSuffix k \<noteq> []" by (cases k) simp_all
    moreover have "suffix (kindSuffix k) name"
      using that by (simp add: regexGroup_def HasSuffix_iff split: if_splits)
    ultimately show ?thesis by (auto simp: suffix_def)
  qed
  have "last (kindSuffix j) = last (kindSuffix k)" using last [OF assms(1)] last [OF assms(2)] by simp
  then show ?thesis by (cases j; cases k) simp_all
qed

lemma parseItem_Inr:
  assumes "parseItem cfg i st = (Inr r, st')"
  shows "idNumbering (psNum st') - idNumbering (psNum st) = psCount st' - psCount st \<and>
    idNumbering (psNum st) \<le> idNumbering (psNum st') \<and>
    (\<forall>tsk k a. r = Some (tsk, k, a) \<longrightarrow> tlID tsk = idNumbering (psNum st) \<and> tlID tsk < idNumbering (psNum st'))"
  using assms
  by (auto simp: parseItem_def Let_def NextTaskID_def NextTaskLocalIndex_def taskLikeOf_def
      split: option.splits prod.splits sum.splits bool.splits if_splits)

lemma parseItems_Inr:
  assumes "parseItems cfg js st = (Inr rs, st')"
  shows "idNumbering (psNum st') - idNumbering (psNum st) = psCount st' - psCount st \<and>
    idNumbering (psNum st) \<le> idNumbering (psNum st') \<and> sorted_wrt (<) (map (tlID \<circ> fst) rs) \<and>
    (\<forall>x \<in> set rs. idNumbering (psNum st) \<le> tlID (fst x) \<and> tlID (fst x) < idNumbering (psNum st'))"
  using assms
proof (induction cfg js st arbitrary: rs st' rule: parseItems.induct)
  case (2 cfg i js st)
  obtain r st1 where r: "parseItem cfg i st = (Inr r, st1)"
    using "2.prems" by (auto split: prod.splits sum.splits)
  obtain us st2 where us: "parseItems cfg js st1 = (Inr us, st2)" "st' = st2"
      "rs = (case r of None \<Rightarrow> us | Some x \<Rightarrow> x # us)"
    using "2.prems" r by (auto split: prod.splits sum.splits)
  note ih = "2.IH" [OF r [symmetric] refl us(1)]
  show ?case
    using ih parseItem_Inr [OF r] us(2,3) by (cases r) fastforce+
qed simp

section \<open>Facts about the passes over the messages\<close>

text \<open>The message of a task-like object: its identifier and the identifiers it depends on.\<close>

definition handedOver :: "taskLike \<Rightarrow> ptask \<Rightarrow> bool" where
  "handedOver t p \<longleftrightarrow> ptID p = tlID t \<and> ptRequired p = tlDependsOnIDs t \<and> distinct (map cmdName (ptCommands p))"

lemma list_all2_memberD: "list_all2 P xs ys \<Longrightarrow> y \<in> set ys \<Longrightarrow> \<exists>x \<in> set xs. P x y"
  by (induction rule: list_all2_induct) auto

lemma handedOver_tasks:
  assumes "list_all2 handedOver tasks protos"
  shows "map ptID protos = map tlID tasks" and "p \<in> set protos \<Longrightarrow> \<exists>t \<in> set tasks. handedOver t p"
proof -
  show "map ptID protos = map tlID tasks" using assms by (induction rule: list_all2_induct) (auto simp: handedOver_def)
  show "p \<in> set protos \<Longrightarrow> \<exists>t \<in> set tasks. handedOver t p" by (rule list_all2_memberD [OF assms])
qed

lemma validateProtos_None: "validateProtos ts = None \<Longrightarrow> \<forall>t \<in> set ts. distinct (map cmdName (ptCommands t))"
  by (induction ts) (auto simp: validateTask_def validateCommands_None split: option.splits)

lemma protos_handedOver:
  assumes "list_all2 (\<lambda>(tsk, k, a) tsk'. tlID tsk' = tlID tsk) parsed tasks"
    and "\<forall>p \<in> set (map2 (\<lambda>tsk (_, k, a). protoOf tsk a) tasks parsed). distinct (map cmdName (ptCommands p))"
  shows "list_all2 handedOver tasks (map2 (\<lambda>tsk (_, k, a). protoOf tsk a) tasks parsed)"
  using assms by (induction rule: list_all2_induct) (auto simp: handedOver_def protoOf_def)

definition hashedFrom :: "ptask \<Rightarrow> ptask \<Rightarrow> bool" where
  "hashedFrom t u \<longleftrightarrow> u = t \<or> (\<exists>h. u = setProtoProperty ''dockerfile_hash'' h t)"

lemma hashedFrom_keeps:
  "hashedFrom t u \<Longrightarrow> ptID u = ptID t \<and> ptRequired u = ptRequired t \<and> ptCommands u = ptCommands t"
  by (auto simp: hashedFrom_def setProtoProperty_def)

lemma map_sum_Inr: "map_sum id f r = Inr y \<longleftrightarrow> (\<exists>x. r = Inr x \<and> y = f x)"
  by (cases r) auto

lemma hashOneTask_Inr: "hashOneTask dt m nodes t is = Some (Inr u, is') \<Longrightarrow> hashedFrom t u"
  unfolding hashOneTask_def hashedFrom_def
  by (auto simp: map_sum_Inr split: option.splits inst.splits sum.splits if_splits)

lemma calculateDockerfileHashes_Inr:
  assumes "calculateDockerfileHashes dt m nodes ts is = Some (Inr us, is')"
  shows "list_all2 hashedFrom ts us"
  using assms
proof (induction ts arbitrary: "is" us)
  case (Cons t ts)
  then show ?case
    by (auto simp: map_sum_Inr dest: hashOneTask_Inr split: option.splits sum.splits)
qed simp

lemma handedOver_hashed:
  assumes "list_all2 handedOver tasks protos" and "list_all2 hashedFrom protos us"
  shows "list_all2 handedOver tasks us"
  using assms(1,2)
  by (rule list_all2_trans [rotated]) (auto simp: handedOver_def dest: hashedFrom_keeps)

section \<open>Facts about the driver\<close>

text \<open>
  What the executor needs of the messages: distinct identifiers, requirements that are tasks of the list, and an order in
  which the tasks can run.
\<close>

definition runnable :: "ptask list \<Rightarrow> bool" where
  "runnable ts \<longleftrightarrow> distinct (map ptID ts) \<and> (\<forall>t \<in> set ts. set (ptRequired t) \<subseteq> ptID ` set ts) \<and>
     (\<exists>rank :: int \<Rightarrow> nat. \<forall>t \<in> set ts. \<forall>d \<in> set (ptRequired t). rank d < rank (ptID t))"

lemma served_keeps:
  assumes "served cfg sm t t'"
  shows "ptID t' = ptID t \<and> ptCommands t' = ptCommands t \<and>
    (\<forall>d \<in> set (ptRequired t'). d \<in> set (ptRequired t) \<or> d \<in> (ptID \<circ> snd) ` set sm)"
  using assms by (force simp: served_def useService_def split: serviceNeed.splits)

lemma served_ids: "list_all2 (served cfg sm) ts us \<Longrightarrow> map ptID us = map ptID ts"
  by (induction rule: list_all2_induct) (auto dest: served_keeps)

lemma postprocess_keeps:
  assumes "postprocess m ts t = Inr u"
  shows "ptID u = ptID t \<and> ptRequired u = ptRequired t \<and> ptCommands u = ptCommands (ensureCloneInstruction t)"
  using assms by (auto simp: postprocess_def setLabels_def ensureCloneInstruction_def Let_def split: sum.splits prod.splits)

lemma ensureClone_names:
  assumes "distinct (map cmdName (ptCommands t))"
  shows "distinct (map cmdName (ptCommands (ensureCloneInstruction t))) \<and>
    ''clone'' \<in> cmdName ` set (ptCommands (ensureCloneInstruction t))"
proof (cases "''clone'' \<in> cmdName ` set (ptCommands t)")
  case True
  then have "ensureCloneInstruction t = t" by (auto simp: ensureCloneInstruction_def)
  then show ?thesis using assms True by simp
next
  case False
  then have "\<not> (\<exists>c \<in> set (ptCommands t). cmdName c = ''clone'')" by force
  then have "map cmdName (ptCommands (ensureCloneInstruction t)) = ''clone'' # map cmdName (ptCommands t)"
    unfolding ensureCloneInstruction_def by (simp add: mkCommand_def split: list.split option.split)
  then show ?thesis using assms False by (metis distinct.simps(2) image_set list.set_intros(1) list.set_map)
qed

text \<open>The tasks and the services together can run, when the dependencies of the tasks were accepted.\<close>

lemma with_services_runnable:
  assumes "distinct (map tlID tasks)" and "validateDependenciesDeep tasks = None"
    and "\<forall>t \<in> set tasks. tlID t < n" and "list_all2 handedOver tasks hashed"
    and "list_all2 (served cfg sm) hashed ws" and "servicesInv cfg n sm num"
  shows "runnable (ws @ map snd sm)"
proof -
  have deps: "\<forall>t \<in> set tasks. set (tlDependsOnIDs t) \<subseteq> tlID ` set tasks" and acyc: "acyclic (dependencies tasks)"
    using assms(1,2) validateDependenciesDeep_None by blast+
  have ids: "map ptID ws = map tlID tasks"
    using served_ids [OF assms(5)] handedOver_tasks(1) [OF assms(4)] by simp
  define rank where "rank i = (if n \<le> i then 0 else Suc (rankOf tasks i))" for i
  have old: "d \<in> (ptID \<circ> snd) ` set sm \<or> (\<exists>t \<in> set tasks. ptID w = tlID t \<and> d \<in> set (tlDependsOnIDs t))"
    if w: "w \<in> set ws" "d \<in> set (ptRequired w)" for w d
  proof -
    obtain h where "h \<in> set hashed" "served cfg sm h w" using list_all2_memberD [OF assms(5) w(1)] by blast
    then show ?thesis using handedOver_tasks(2) [OF assms(4)] served_keeps w(2) unfolding handedOver_def by metis
  qed
  have sid: "n \<le> ptID s" "ptRequired s = []" if "s \<in> snd ` set sm" for s
    using assms(6) that by (auto simp: servicesInv_def)
  have inws: "t \<in> set ws" if "t \<in> set (ws @ map snd sm)" "d \<in> set (ptRequired t)" for t d
  proof -
    have "ptRequired t \<noteq> []" using that(2) by auto
    then have "t \<notin> snd ` set sm" using sid(2) by blast
    then show ?thesis using that(1) by simp
  qed
  have lt: "ptID w < n" if "w \<in> set ws" for w
  proof -
    have "ptID w \<in> set (map tlID tasks)" using that unfolding ids [symmetric] by simp
    then show ?thesis using assms(3) by auto
  qed
  have "distinct (map ptID ws)" unfolding ids by (rule assms(1))
  moreover have "distinct (map ptID (map snd sm))" using assms(6) by (simp add: servicesInv_def comp_def)
  ultimately have "distinct (map ptID (ws @ map snd sm))" using lt sid(1) by force
  moreover have "set (ptRequired t) \<subseteq> ptID ` set (ws @ map snd sm)" if t: "t \<in> set (ws @ map snd sm)" for t
  proof
    fix d
    assume d: "d \<in> set (ptRequired t)"
    note inws = inws [OF t this]
    have "ptID ` set (ws @ map snd sm) = tlID ` set tasks \<union> (ptID \<circ> snd) ` set sm"
      using arg_cong [OF ids, of set] by (simp add: image_Un image_comp)
    then show "d \<in> ptID ` set (ws @ map snd sm)" using old [OF inws d] deps by blast
  qed
  moreover have "rank d < rank (ptID t)" if t: "t \<in> set (ws @ map snd sm)" "d \<in> set (ptRequired t)" for t d
  proof -
    note o = old [OF inws [OF t] t(2)] and l = lt [OF inws [OF t]]
    show ?thesis
    proof (cases "n \<le> d")
      case False
      then have "(d, ptID t) \<in> dependencies tasks" using o sid(1) by (auto simp: dependencies_def)
      then show ?thesis using rankOf_less [OF acyc] False l by (simp add: rank_def)
    qed (use l in \<open>simp add: rank_def\<close>)
  qed
  ultimately show ?thesis unfolding runnable_def by blast
qed

abbreviation graphOf :: "ptask list \<Rightarrow> (int \<times> int list) list" where
  "graphOf ts \<equiv> map (\<lambda>t. (ptID t, ptRequired t)) ts"

lemma runnable_graph:
  "runnable ts \<longleftrightarrow> distinct (map fst (graphOf ts)) \<and> (\<forall>(i, ds) \<in> set (graphOf ts). set ds \<subseteq> fst ` set (graphOf ts)) \<and>
     (\<exists>rank :: int \<Rightarrow> nat. \<forall>(i, ds) \<in> set (graphOf ts). \<forall>d \<in> set ds. rank d < rank i)"
proof -
  have "ptID ` set ts = fst ` set (graphOf ts)" by force
  then show ?thesis by (simp add: runnable_def comp_def)
qed

lemma runnable_mset:
  assumes "mset (graphOf ts) = mset (graphOf us)" and "runnable ts"
  shows "runnable us"
proof -
  have "set (graphOf ts) = set (graphOf us)" using assms(1) by (rule mset_eq_setD)
  moreover have "mset (map fst (graphOf ts)) = mset (map fst (graphOf us))" using assms(1) by (simp only: mset_map)
  then have "distinct (map fst (graphOf ts)) = distinct (map fst (graphOf us))" by (rule mset_eq_imp_distinct_iff)
  ultimately show ?thesis using assms(2) unfolding runnable_graph by simp
qed

lemma serviceTask_names:
  "distinct (map cmdName (ptCommands (fst (createServiceTask h t c r p num))))"
  by (simp add: createServiceTask_def Let_def mkCommand_def)

lemma createServices_names:
  assumes "createServices cfg ts services num = Inr (ts', services', num')"
    and "\<forall>s \<in> snd ` set services. distinct (map cmdName (ptCommands s))"
  shows "\<forall>s \<in> snd ` set services'. distinct (map cmdName (ptCommands s))"
  using assms
proof (induction cfg ts services num arbitrary: ts' rule: createServices.induct)
  case (2 cfg t ts services num)
  show ?case
  proof (cases "serviceNeed cfg t")
    case NoService
    then show ?thesis using 2(1,3,4) by (auto split: sum.splits)
  next
    case (ServiceError e)
    then show ?thesis using 2(3) by simp
  next
    case (NeedsService c h)
    define sel where "sel = (case map_of services h of
        Some s \<Rightarrow> (s, services, num)
      | None \<Rightarrow> (let (s, num') = createServiceTask h t c (dockerfileRegistry cfg) (dockerfileRepository cfg) num
                 in (s, (h, s) # services, num')))"
    obtain s services1 num1 where sel: "sel = (s, services1, num1)" by (cases sel)
    have names: "\<forall>s \<in> snd ` set services1. distinct (map cmdName (ptCommands s))"
    proof (cases "map_of services h")
      case None
      obtain s1 n1 where c: "createServiceTask h t c (dockerfileRegistry cfg) (dockerfileRepository cfg) num = (s1, n1)" by force
      then have "services1 = (h, s1) # services" using sel None by (auto simp: sel_def)
      moreover have "distinct (map cmdName (ptCommands s1))"
        using serviceTask_names [of h t c "dockerfileRegistry cfg" "dockerfileRepository cfg" num] c by simp
      ultimately show ?thesis using 2(4) by simp
    qed (use sel 2(4) in \<open>simp add: sel_def\<close>)
    obtain us where "createServices cfg ts services1 num1 = Inr (us, services', num')"
      using 2(3) NeedsService sel by (auto simp: sel_def [symmetric] split: sum.splits)
    then show ?thesis using 2(2) [OF NeedsService sel [unfolded sel_def, symmetric] refl refl] names by blast
  qed
qed simp

text \<open>What holds of the result of the second half of the driver, when the task-like objects are numbered below \<open>n\<close>.\<close>

definition soundResult :: "int \<Rightarrow> ptask list \<Rightarrow> bool" where
  "soundResult n ts \<longleftrightarrow> runnable ts \<and> sorted (map ptID ts) \<and> (\<forall>t \<in> set ts. n \<le> ptID t \<longrightarrow> ptRequired t = []) \<and>
     (\<forall>t \<in> set ts. distinct (map cmdName (ptCommands t)) \<and> ''clone'' \<in> cmdName ` set (ptCommands t))"

lemma postprocessed_sound:
  assumes "runnable ts" and "\<forall>t \<in> set ts. n \<le> ptID t \<longrightarrow> ptRequired t = []"
    and "\<forall>t \<in> set ts. distinct (map cmdName (ptCommands t))"
    and "mapE (postprocess m all) ts = Inr us"
  shows "soundResult n (sort_key ptID us)"
proof -
  have post: "list_all2 (\<lambda>t u. postprocess m all t = Inr u) ts us" using assms(4) by (simp add: mapE_Inr_iff)
  then have "graphOf us = graphOf ts" by (induction rule: list_all2_induct) (auto dest: postprocess_keeps)
  from arg_cong [OF this, of mset] have "mset (graphOf ts) = mset (graphOf (sort_key ptID us))" by simp
  then have "runnable (sort_key ptID us)" using assms(1) by (rule runnable_mset)
  moreover have "(n \<le> ptID u \<longrightarrow> ptRequired u = []) \<and> distinct (map cmdName (ptCommands u)) \<and> ''clone'' \<in> cmdName ` set (ptCommands u)"
    if u: "u \<in> set us" for u
  proof -
    obtain t where t: "t \<in> set ts" "postprocess m all t = Inr u" using list_all2_memberD [OF post u] by blast
    then show ?thesis using postprocess_keeps [OF t(2)] ensureClone_names [of t] assms(2,3) by simp
  qed
  ultimately show ?thesis by (simp add: soundResult_def)
qed

lemma finishParse_Inr:
  assumes "finishParse cfg parsed st = Some (Inr r)" and "sorted_wrt (<) (map (tlID \<circ> fst) parsed)"
    and "\<forall>x \<in> set parsed. tlID (fst x) < idNumbering (psNum st)"
  shows "soundResult (idNumbering (psNum st)) (prTasks r) \<and> (prTasks r \<noteq> [] \<longrightarrow> prCount r = psCount st)"
proof -
  let ?protos = "\<lambda>tasks. map2 (\<lambda>tsk (_, k, a). protoOf tsk a) tasks parsed"
  obtain tasks is1 where res: "resolveDependenciesShallow (psDisabled st) (map fst parsed) (psIssues st) = (Inr tasks, is1)"
    using assms(1) by (auto simp: finishParse_def split: prod.splits sum.splits)
  have rel: "list_all2 (\<lambda>(tsk, k, a) tsk'. tlID tsk' = tlID tsk) parsed tasks"
    using resolveTasks_Inr [OF res [unfolded resolveDependenciesShallow_def]]
    unfolding list.rel_map by (rule list_all2_mono) auto
  then have ids: "map tlID tasks = map (tlID \<circ> fst) parsed" by (induction rule: list_all2_induct) auto
  show ?thesis
  proof (cases "tasks = []")
    case True
    then have "prTasks r = []" using assms(1) res by (auto simp: finishParse_def)
    then show ?thesis by (simp add: soundResult_def runnable_def)
  next
    case False
    obtain nodes is2 is3 hashed gh services num result where steps:
      "validateDependenciesDeep tasks = None" "validateProtos (?protos tasks) = None"
      "calculateDockerfileHashes (pcDocker cfg) (pcMissingOk cfg) nodes (?protos tasks) is2 = Some (Inr hashed, is3)"
      "createServiceTasks gh hashed (psNum st) = Inr (result, services, num)"
      and fin: "\<exists>us. mapE (postprocess (pcMissingOk cfg) (result @ services)) (result @ services) = Inr us \<and>
        prTasks r = sort_key ptID us \<and> prCount r = psCount st"
      using assms(1) res False
      by (fastforce simp: finishParse_def Let_def split: option.splits sum.splits prod.splits)
    obtain sm where sm: "createServices gh hashed [] (psNum st) = Inr (result, sm, num)" "services = map snd sm"
      using steps(4) by (auto simp: createServiceTasks_def split: sum.splits)
    have over: "list_all2 handedOver tasks hashed"
      using protos_handedOver [OF rel] validateProtos_None [OF steps(2)]
        handedOver_hashed [OF _ calculateDockerfileHashes_Inr [OF steps(3)]] by blast
    have inv: "servicesInv gh (idNumbering (psNum st)) sm num" "list_all2 (served gh sm) hashed result"
      using createServices_correct [OF sm(1), of "idNumbering (psNum st)"] by (auto simp: servicesInv_def)
    have dist: "distinct (map tlID tasks)" unfolding ids using assms(2) by (simp add: strict_sorted_iff)
    have "set (map tlID tasks) \<subseteq> {i. i < idNumbering (psNum st)}" unfolding ids using assms(3) by auto
    then have below: "\<forall>t \<in> set tasks. tlID t < idNumbering (psNum st)" by auto
    have run: "runnable (result @ services)"
      unfolding sm(2) by (rule with_services_runnable [OF dist steps(1) below over inv(2,1)])
    have "ptID w < idNumbering (psNum st) \<and> distinct (map cmdName (ptCommands w))" if "w \<in> set result" for w
      using list_all2_memberD [OF inv(2) that] handedOver_tasks(2) [OF over] served_keeps below unfolding handedOver_def by metis
    moreover have "ptRequired s = [] \<and> distinct (map cmdName (ptCommands s))" if "s \<in> set services" for s
      using inv(1) createServices_names [OF sm(1)] that unfolding sm(2) by (auto simp: servicesInv_def)
    ultimately have rest: "\<forall>t \<in> set (result @ services). idNumbering (psNum st) \<le> ptID t \<longrightarrow> ptRequired t = []"
        "\<forall>t \<in> set (result @ services). distinct (map cmdName (ptCommands t))" by fastforce+
    show ?thesis using fin postprocessed_sound [OF run rest] by auto
  qed
qed

text \<open>
  The result of the parser is what the executor needs.
\<close>

lemma parserParse_Inr:
  assumes "parserParse cfg config = Some (Inr r)"
  shows "\<exists>n. 0 \<le> n \<and> soundResult n (prTasks r) \<and> (prTasks r \<noteq> [] \<longrightarrow> prCount r = n)"
proof -
  obtain t where t: "\<exists>parsed st. parseTasks cfg \<lparr>psNum = \<lparr>idNumbering = 0, indexNumbering = 0\<rparr>, psCount = 0,
      psDisabled = [], psIssues = [], psTree = t\<rparr> = (Inr parsed, st) \<and> finishParse cfg parsed st = Some (Inr r)"
    using assms by (fastforce simp: parserParse_def split: sum.splits prod.splits)
  then obtain parsed st where p: "parseTasks cfg \<lparr>psNum = \<lparr>idNumbering = 0, indexNumbering = 0\<rparr>, psCount = 0,
      psDisabled = [], psIssues = [], psTree = t\<rparr> = (Inr parsed, st)" "finishParse cfg parsed st = Some (Inr r)" by blast
  note loop = parseItems_Inr [OF p(1) [unfolded parseTasks_def]]
  show ?thesis
    using finishParse_Inr [OF p(2)] loop by (auto intro!: exI [of _ "idNumbering (psNum st)"])
qed

text \<open>
  C3. Whatever the configuration, the tasks that the parser returns can be run: their identifiers are distinct and
  ascending, everything that a task requires is a task of the result, the requirements have an order (there is no
  cycle, also through the service tasks that build images), the tasks from the number of task-like objects on, which are
  the service tasks, require nothing, and every task has a clone instruction and commands with distinct names.
\<close>

theorem parsed_configuration_sound:
  assumes "parserParse cfg config = Some (Inr r)"
  shows "sorted_wrt (<) (map ptID (prTasks r)) \<and>
    (\<forall>t \<in> set (prTasks r). 0 \<le> prCount r \<and> set (ptRequired t) \<subseteq> ptID ` set (prTasks r) \<and>
       (prCount r \<le> ptID t \<longrightarrow> ptRequired t = []) \<and>
       distinct (map cmdName (ptCommands t)) \<and> ''clone'' \<in> cmdName ` set (ptCommands t)) \<and>
    (\<exists>rank :: int \<Rightarrow> nat. \<forall>t \<in> set (prTasks r). \<forall>d \<in> set (ptRequired t). rank d < rank (ptID t))"
proof -
  obtain n where n: "0 \<le> n" "soundResult n (prTasks r)" "prTasks r \<noteq> [] \<longrightarrow> prCount r = n"
    using parserParse_Inr [OF assms] by blast
  have count: "prCount r = n" if "t \<in> set (prTasks r)" for t using that n(3) by force
  show ?thesis
    using n(1,2) count unfolding soundResult_def runnable_def by (simp add: strict_sorted_iff)
qed

section \<open>Termination\<close>

text \<open>A file system without endless nesting: every directory weighs more than its entries together.\<close>

definition finiteTree :: "fileSystem \<Rightarrow> (string \<Rightarrow> nat) \<Rightarrow> bool" where
  "finiteTree fs weight \<longleftrightarrow>
     (\<forall>p names. fsReadDir fs p = DirNames names \<longrightarrow> sum_list (map (\<lambda>n. weight (fsJoin fs p n)) names) < weight p)"

lemma findLoop_terminates:
  assumes "finiteTree fs weight"
  shows "\<exists>r. findLoop fs todo seen = Some r"
proof (induction "(todo, seen)" arbitrary: todo seen
    rule: wf_induct_rule [OF wf_measures, of "[\<lambda>(todo, seen). sum_list (map weight todo), \<lambda>(todo, seen). length todo]"])
  case 1
  show ?case
  proof (cases todo)
    case Nil
    then show ?thesis by (simp add: findLoop.simps)
  next
    case (Cons p rest)
    show ?thesis
    proof (cases "fsReadDir fs p")
      case (DirNames names)
      have "sum_list (map (\<lambda>n. weight (fsJoin fs p n)) names) < weight p"
        using assms DirNames by (simp add: finiteTree_def)
      then have "sum_list (map weight (rest @ map (fsJoin fs p) names)) < sum_list (map weight todo)"
        using Cons by (simp add: comp_def)
      then show ?thesis using 1 [of "rest @ map (fsJoin fs p) names" seen] Cons DirNames by (simp add: findLoop.simps [of fs "p # rest"])
    next
      case NotADirectory
      have "\<exists>r. findLoop fs rest (seen @ [c]) = Some r" for c
        using 1 [of rest "seen @ [c]"] Cons by (cases "weight p") auto
      then show ?thesis using Cons NotADirectory by (simp add: findLoop.simps [of fs "p # rest"] split: sum.split)
    qed (use Cons in \<open>simp add: findLoop.simps [of fs "p # rest"]\<close>)
  qed
qed

lemma sourceLoop_terminates:
  assumes "finiteTree fs weight"
  shows "\<exists>r. sourceLoop fs n ctx ps seen is = Some r"
proof (induction ps arbitrary: seen "is")
  case (Cons p ps)
  obtain seen' e where "findLoop fs [if ctx \<noteq> [] then fsJoin fs ctx p else p] seen = Some (seen', e)"
    using findLoop_terminates [OF assms] by (metis surj_pair)
  then show ?case using Cons.IH by (cases e) simp_all
qed simp

lemma hashes_terminate:
  assumes "finiteTree (dtFs dt) weight"
  shows "\<exists>r. calculateDockerfileHashes dt m nodes ts is = Some r"
proof (induction ts arbitrary: "is")
  case (Cons t ts)
  have src: "(sourceLoop (dtFs dt) n ctx ps seen is = None) = False" for n ctx ps seen "is"
    using sourceLoop_terminates [OF assms, of n ctx ps seen "is"] by auto
  have hash: "(calculateDockerfileHash dt f args n ctx arch is = None) = False" for f args n ctx arch "is"
    by (simp add: src calculateDockerfileHash_def Let_def del: not_None_eq split: sum.split option.split prod.split)
  have "hashOneTask dt m nodes t is \<noteq> None"
    by (simp add: hash hashOneTask_def del: not_None_eq split: option.split inst.split sum.split prod.split)
  then obtain r is' where "hashOneTask dt m nodes t is = Some (r, is')" by force
  then show ?case using Cons.IH [of is'] by (cases r) auto
qed simp


definition exampleFs :: fileSystem where
  "exampleFs = \<lparr>fsGet = (\<lambda>p. Inr ''text''), fsReadDir = (\<lambda>p. if p = ''src'' then DirNames [''a'', ''b''] else NotADirectory),
     fsJoin = (\<lambda>d n. d @ ''/'' @ n)\<rparr>"


section \<open>Divergences\<close>

text \<open>Arguments of a Dockerfile are hashed without a separator between the name and the value.\<close>

lemma docker_arguments_collide:
  "dockerArgumentsToString [(''A'', ''BC'')] = dockerArgumentsToString [(''AB'', ''C'')]"
  by (simp add: dockerArgumentsToString_def)

text \<open>When every task is disabled, the count of the tasks before filtering is lost.\<close>

lemma count_lost_when_disabled:
  "finishParse cfg [] (st\<lparr>psCount := 3\<rparr>) = Some (Inr \<lparr>prTasks = [], prIssues = psIssues st, prCount = 0\<rparr>)"
  by (simp add: finishParse_def resolveDependenciesShallow_def)

text \<open>The node of the container is used without the check that the code means to make.\<close>

lemma missing_container_node_panics:
  "dockerfileAndArgumentsFromInstance (PersistentWorkerInst (Some c))
     (Some (Node ''persistent_worker'' MapValue [Node ''isolation'' MapValue [] 2 1] 1 1)) = Inl (Panic ''nil pointer dereference'')"
  by (simp add: dockerfileAndArgumentsFromInstance_def FindChild_def)

end
