(* ===== verification/ContainerRun.thy ===== *)
theory ContainerRun
  imports GoBase
begin

text \<open>
  The goroutines of \<open>RunContainerizedAgent\<close> (internal/executor/instance/container/run.go): the main container and the
  additional ones of a task, as a state machine whose steps carry the answers of the container backend.
\<close>

section \<open>The containers of a task\<close>

text \<open>
  \<open>RunContainerizedAgent\<close> from the moment the main container exists. \<open>Made\<close> and \<open>Gone\<close> name the goroutine (\<open>None\<close> for the
  main one) and the container. The deferred clean-up cancels the additional containers, waits for their goroutines
  and only then deletes the main container.
\<close>

datatype logEntry = Made "nat option" string | Gone "nat option" string

datatype mainPhase =
    MCreated string
  | MStarted string
  | MWaiting string
  | MCleanup string "err option"
  | MFinished "err option"

datatype extraPhase =
    XNew
  | XCreated string
  | XRunning string
  | XCleanup string "err option"
  | XDone

record agentRun =
  arMain :: mainPhase
  arExtra :: "extraPhase list"
  arCancelled :: bool
  arErrors :: "err list"
  arLog :: "logEntry list"

text \<open>The answers that make a goroutine go on.\<close>

datatype action =
    MainStart "err option"
  | MainLogs "err option"
  | MainWait "err option"
  | MainExtraFailed
  | MainDelete
  | ExtraFail nat err
  | ExtraCreate nat string
  | ExtraStart nat "err option"
  | ExtraWait nat "err option"
  | ExtraDelete nat

definition additionalFailed :: "err \<Rightarrow> err" where
  "additionalFailed e = Plain ''additional container failed: %v'' (errText e)"

definition startCleanup :: "string \<Rightarrow> err option \<Rightarrow> agentRun \<Rightarrow> agentRun" where
  "startCleanup i r s = s\<lparr>arMain := MCleanup i r, arCancelled := True\<rparr>"

definition setExtra :: "nat \<Rightarrow> extraPhase \<Rightarrow> agentRun \<Rightarrow> agentRun" where
  "setExtra k x s = s\<lparr>arExtra := (arExtra s)[k := x]\<rparr>"

definition report :: "err option \<Rightarrow> agentRun \<Rightarrow> agentRun" where
  "report r s = s\<lparr>arErrors := arErrors s @ (case r of None \<Rightarrow> [] | Some e \<Rightarrow> [e])\<rparr>"

definition logAs :: "bool \<Rightarrow> logEntry \<Rightarrow> agentRun \<Rightarrow> agentRun" where
  "logAs really e s = (if really then s\<lparr>arLog := arLog s @ [e]\<rparr> else s)"

fun mainStep :: "bool \<Rightarrow> action \<Rightarrow> mainPhase \<Rightarrow> agentRun \<Rightarrow> agentRun option" where
  "mainStep noCleanup (MainStart None) (MCreated i) s = Some (s\<lparr>arMain := MStarted i\<rparr>)"
| "mainStep noCleanup (MainStart (Some e)) (MCreated i) s = Some (startCleanup i (Some e) s)"
| "mainStep noCleanup (MainLogs None) (MStarted i) s = Some (s\<lparr>arMain := MWaiting i\<rparr>)"
| "mainStep noCleanup (MainLogs (Some e)) (MStarted i) s = Some (startCleanup i (Some e) s)"
| "mainStep noCleanup (MainWait r) (MWaiting i) s = Some (startCleanup i r s)"
| "mainStep noCleanup MainExtraFailed (MWaiting i) s =
     (case arErrors s of [] \<Rightarrow> None | e # es \<Rightarrow> Some (startCleanup i (Some e) (s\<lparr>arErrors := es\<rparr>)))"
| "mainStep noCleanup MainDelete (MCleanup i r) s =
     (if \<forall>x \<in> set (arExtra s). x = XDone then Some (logAs (\<not> noCleanup) (Gone None i) (s\<lparr>arMain := MFinished r\<rparr>)) else None)"
| "mainStep noCleanup _ _ s = None"

fun extraStep :: "bool \<Rightarrow> action \<Rightarrow> nat \<Rightarrow> extraPhase \<Rightarrow> agentRun \<Rightarrow> agentRun option" where
  "extraStep noCleanup (ExtraFail _ e) k XNew s = Some (report (Some (additionalFailed e)) (setExtra k XDone s))"
| "extraStep noCleanup (ExtraCreate _ i) k XNew s = Some (logAs True (Made (Some k) i) (setExtra k (XCreated i) s))"
| "extraStep noCleanup (ExtraStart _ None) k (XCreated i) s = Some (setExtra k (XRunning i) s)"
| "extraStep noCleanup (ExtraStart _ (Some e)) k (XCreated i) s = Some (setExtra k (XCleanup i (Some (additionalFailed e))) s)"
| "extraStep noCleanup (ExtraWait _ r) k (XRunning i) s = Some (setExtra k (XCleanup i (map_option additionalFailed r)) s)"
| "extraStep noCleanup (ExtraDelete _) k (XCleanup i r) s =
     Some (report r (logAs (\<not> noCleanup) (Gone (Some k) i) (setExtra k XDone s)))"
| "extraStep noCleanup _ k _ s = None"

fun actor :: "action \<Rightarrow> nat option" where
  "actor (ExtraFail k _) = Some k"
| "actor (ExtraCreate k _) = Some k"
| "actor (ExtraStart k _) = Some k"
| "actor (ExtraWait k _) = Some k"
| "actor (ExtraDelete k) = Some k"
| "actor _ = None"

definition agentStep :: "bool \<Rightarrow> action \<Rightarrow> agentRun \<Rightarrow> agentRun option" where
  "agentStep noCleanup a s =
     (case actor a of
        None \<Rightarrow> mainStep noCleanup a (arMain s) s
      | Some k \<Rightarrow> if k < length (arExtra s) then extraStep noCleanup a k (arExtra s ! k) s else None)"

definition created :: "string \<Rightarrow> nat \<Rightarrow> agentRun" where
  "created i n = \<lparr>arMain = MCreated i, arExtra = replicate n XNew, arCancelled = False, arErrors = [], arLog = [Made None i]\<rparr>"

definition agentSteps :: "bool \<Rightarrow> agentRun \<Rightarrow> agentRun \<Rightarrow> bool" where
  "agentSteps noCleanup s s' \<longleftrightarrow> (\<exists>a. agentStep noCleanup a s = Some s')"

section \<open>Facts about the containers of a task\<close>

text \<open>What is in the log for a goroutine in its phase.\<close>

fun extraOk :: "bool \<Rightarrow> nat \<Rightarrow> extraPhase \<Rightarrow> logEntry list \<Rightarrow> bool" where
  "extraOk noCleanup k XNew l = (\<forall>i. Made (Some k) i \<notin> set l \<and> Gone (Some k) i \<notin> set l)"
| "extraOk noCleanup k (XCreated i) l = (\<forall>j. (Made (Some k) j \<in> set l \<longleftrightarrow> j = i) \<and> Gone (Some k) j \<notin> set l)"
| "extraOk noCleanup k (XRunning i) l = (\<forall>j. (Made (Some k) j \<in> set l \<longleftrightarrow> j = i) \<and> Gone (Some k) j \<notin> set l)"
| "extraOk noCleanup k (XCleanup i r) l = (\<forall>j. (Made (Some k) j \<in> set l \<longleftrightarrow> j = i) \<and> Gone (Some k) j \<notin> set l)"
| "extraOk noCleanup k XDone l = (\<forall>i. Gone (Some k) i \<in> set l \<longleftrightarrow> Made (Some k) i \<in> set l \<and> \<not> noCleanup)"

fun mainOk :: "bool \<Rightarrow> string \<Rightarrow> mainPhase \<Rightarrow> bool \<Rightarrow> extraPhase list \<Rightarrow> logEntry list \<Rightarrow> bool" where
  "mainOk noCleanup i (MFinished r) c xs l = (c \<and> (\<forall>x \<in> set xs. x = XDone) \<and>
     (if noCleanup then \<forall>j. Gone None j \<notin> set l else last l = Gone None i \<and> (\<forall>j. Gone None j \<notin> set (butlast l))))"
| "mainOk noCleanup i (MCleanup j r) c xs l = (c \<and> j = i \<and> (\<forall>j. Gone None j \<notin> set l))"
| "mainOk noCleanup i (MCreated j) c xs l = (\<not> c \<and> j = i \<and> (\<forall>j. Gone None j \<notin> set l))"
| "mainOk noCleanup i (MStarted j) c xs l = (\<not> c \<and> j = i \<and> (\<forall>j. Gone None j \<notin> set l))"
| "mainOk noCleanup i (MWaiting j) c xs l = (\<not> c \<and> j = i \<and> (\<forall>j. Gone None j \<notin> set l))"

definition agentInv :: "bool \<Rightarrow> string \<Rightarrow> nat \<Rightarrow> agentRun \<Rightarrow> bool" where
  "agentInv noCleanup i n s \<longleftrightarrow>
     length (arExtra s) = n \<and> arLog s \<noteq> [] \<and> (\<forall>j. Made None j \<in> set (arLog s) \<longleftrightarrow> j = i) \<and>
     (\<forall>k j. k \<ge> n \<longrightarrow> Made (Some k) j \<notin> set (arLog s) \<and> Gone (Some k) j \<notin> set (arLog s)) \<and>
     (\<forall>k < n. extraOk noCleanup k (arExtra s ! k) (arLog s)) \<and>
     mainOk noCleanup i (arMain s) (arCancelled s) (arExtra s) (arLog s)"

lemmas run_defs = startCleanup_def setExtra_def report_def logAs_def

lemma agentInv_created: "agentInv noCleanup i n (created i n)"
  by (auto simp: agentInv_def created_def)

text \<open>An entry of another goroutine says nothing about this one.\<close>

fun whose :: "logEntry \<Rightarrow> nat option" where
  "whose (Made j i) = j"
| "whose (Gone j i) = j"

lemma entry_of_other:
  "whose e \<noteq> j \<Longrightarrow> (Made j i \<in> set (l @ [e])) = (Made j i \<in> set l)"
  "whose e \<noteq> j \<Longrightarrow> (Gone j i \<in> set (l @ [e])) = (Gone j i \<in> set l)"
  by (cases e; auto)+

lemma extraOk_other: "whose e \<noteq> Some k \<Longrightarrow> extraOk noCleanup k x (l @ [e]) = extraOk noCleanup k x l"
  by (cases x) (simp_all only: extraOk.simps entry_of_other not_False_eq_True)

lemma mainStep_inv:
  assumes "mainStep noCleanup a (arMain s) s = Some s'" and "agentInv noCleanup i n s"
  shows "agentInv noCleanup i n s'"
  using assms
  by (cases "(noCleanup, a, arMain s, s)" rule: mainStep.cases)
    (auto simp: agentInv_def run_defs extraOk_other split: list.splits if_splits)

text \<open>A goroutine of an additional container moves to the phase \<open>x\<close> and logs the entries \<open>es\<close>.\<close>

lemma extra_moves:
  assumes "agentInv noCleanup i n s" and "k < n" and "arExtra s ! k \<noteq> XDone"
    and "extraOk noCleanup k x (arLog s @ es)"
    and "es = [] \<or> (\<exists>e. es = [e] \<and> whose e = Some k)"
    and "arMain s' = arMain s" "arCancelled s' = arCancelled s"
    and "arExtra s' = (arExtra s)[k := x]" "arLog s' = arLog s @ es"
  shows "agentInv noCleanup i n s'"
proof -
  have others: "Made None j \<in> set (arLog s @ es) \<longleftrightarrow> Made None j \<in> set (arLog s)"
    "Gone None j \<in> set (arLog s @ es) \<longleftrightarrow> Gone None j \<in> set (arLog s)"
    "k' \<noteq> k \<Longrightarrow> Made (Some k') j \<in> set (arLog s @ es) \<longleftrightarrow> Made (Some k') j \<in> set (arLog s)"
    "k' \<noteq> k \<Longrightarrow> Gone (Some k') j \<in> set (arLog s @ es) \<longleftrightarrow> Gone (Some k') j \<in> set (arLog s)"
    "k' \<noteq> k \<Longrightarrow> extraOk noCleanup k' y (arLog s @ es) = extraOk noCleanup k' y (arLog s)" for j k' y
    using assms(5) by (auto simp: extraOk_other)
  have len: "length (arExtra s) = n" and main: "mainOk noCleanup i (arMain s) (arCancelled s) (arExtra s) (arLog s)"
    using assms(1) by (auto simp: agentInv_def)
  have "arExtra s ! k \<in> set (arExtra s)"
    using assms(2) len by simp
  then have "mainOk noCleanup i (arMain s) (arCancelled s) ((arExtra s)[k := x]) (arLog s @ es)"
    using main assms(3) by (cases "arMain s") (auto simp: others(2) simp del: set_append)
  moreover have "extraOk noCleanup k' ((arExtra s)[k := x] ! k') (arLog s @ es)" if "k' < n" for k'
    using that assms(1,2,4) len by (cases "k' = k") (simp_all add: agentInv_def others)
  ultimately show ?thesis
    using assms(1,2) by (auto simp: agentInv_def assms(6-9) others simp del: set_append)
qed

text \<open>Every step brings a goroutine nearer to its end, and there is always a step to make.\<close>

fun mainLeft :: "mainPhase \<Rightarrow> nat" where
  "mainLeft (MCreated i) = 4"
| "mainLeft (MStarted i) = 3"
| "mainLeft (MWaiting i) = 2"
| "mainLeft (MCleanup i r) = 1"
| "mainLeft (MFinished r) = 0"

fun extraLeft :: "extraPhase \<Rightarrow> nat" where
  "extraLeft XNew = 4"
| "extraLeft (XCreated i) = 3"
| "extraLeft (XRunning i) = 2"
| "extraLeft (XCleanup i r) = 1"
| "extraLeft XDone = 0"

lemma extraStep_shape:
  assumes "extraStep noCleanup a k p s = Some s'"
  obtains x es where "p \<noteq> XDone" and "extraLeft x < extraLeft p" and "es = [] \<or> (\<exists>e. es = [e] \<and> whose e = Some k)"
    and "arMain s' = arMain s" and "arCancelled s' = arCancelled s" and "arExtra s' = (arExtra s)[k := x]"
    and "arLog s' = arLog s @ es" and "extraOk noCleanup k p (arLog s) \<longrightarrow> extraOk noCleanup k x (arLog s @ es)"
proof (cases "(noCleanup, a, k, p, s)" rule: extraStep.cases)
  case (1 nc k' e k s)
  then show ?thesis using assms by (intro that [of XDone "[]"]) (auto simp: run_defs)
next
  case (2 nc k' i k s)
  then show ?thesis using assms by (intro that [of "XCreated i" "[Made (Some k) i]"]) (auto simp: run_defs)
next
  case (3 nc k' k i s)
  then show ?thesis using assms by (intro that [of "XRunning i" "[]"]) (auto simp: run_defs)
next
  case (4 nc k' e k i s)
  then show ?thesis
    using assms by (intro that [of "XCleanup i (Some (additionalFailed e))" "[]"]) (auto simp: run_defs)
next
  case (5 nc k' r k i s)
  then show ?thesis
    using assms by (intro that [of "XCleanup i (map_option additionalFailed r)" "[]"]) (auto simp: run_defs)
next
  case (6 nc k' k i r s)
  then show ?thesis
    using assms by (intro that [of XDone "if nc then [] else [Gone (Some k) i]"]) (auto simp: run_defs)
qed (use assms in auto)

lemma extraStep_inv:
  assumes "extraStep noCleanup a k (arExtra s ! k) s = Some s'" and "k < n" and "agentInv noCleanup i n s"
  shows "agentInv noCleanup i n s'"
proof -
  have "extraOk noCleanup k (arExtra s ! k) (arLog s)"
    using assms(2,3) by (simp add: agentInv_def)
  then show ?thesis
    using assms(1) by (elim extraStep_shape) (rule extra_moves [OF assms(3,2)]; simp)
qed

lemma agentSteps_inv:
  assumes "agentSteps noCleanup s s'" and "agentInv noCleanup i n s"
  shows "agentInv noCleanup i n s'"
proof -
  obtain a where a: "agentStep noCleanup a s = Some s'"
    using assms(1) by (auto simp: agentSteps_def)
  have len: "length (arExtra s) = n"
    using assms(2) by (simp add: agentInv_def)
  show ?thesis
  proof (cases "actor a")
    case None
    then show ?thesis using a mainStep_inv [OF _ assms(2)] by (simp add: agentStep_def)
  next
    case (Some k)
    then show ?thesis using a len extraStep_inv [OF _ _ assms(2)] by (simp add: agentStep_def split: if_splits)
  qed
qed

interpretation agentSystem: transition_system "agentSteps noCleanup" "\<lambda>s. s = created i n" "agentInv noCleanup i n"
  by unfold_locales (use agentInv_created agentSteps_inv in auto)

definition stepsLeft :: "agentRun \<Rightarrow> nat" where
  "stepsLeft s = mainLeft (arMain s) + sum_list (map extraLeft (arExtra s))"

lemma sum_list_less:
  "k < length xs \<Longrightarrow> f y < f (xs ! k) \<Longrightarrow> sum_list (map f (xs[k := y])) < (sum_list (map f xs) :: nat)"
  by (induction xs arbitrary: k) (auto simp: less_Suc_eq_0_disj split: nat.splits)

lemma mainStep_less: "mainStep noCleanup a (arMain s) s = Some s' \<Longrightarrow> stepsLeft s' < stepsLeft s"
  by (cases "(noCleanup, a, arMain s, s)" rule: mainStep.cases)
    (auto simp: stepsLeft_def run_defs split: list.splits if_splits)

lemma extraStep_less:
  "extraStep noCleanup a k (arExtra s ! k) s = Some s' \<Longrightarrow> k < length (arExtra s) \<Longrightarrow> stepsLeft s' < stepsLeft s"
  by (elim extraStep_shape) (simp add: stepsLeft_def sum_list_less)

lemma agentSteps_less: "agentSteps noCleanup s s' \<Longrightarrow> stepsLeft s' < stepsLeft s"
  by (auto simp: agentSteps_def agentStep_def split: option.splits if_splits dest: mainStep_less extraStep_less)

lemma agentSteps_count: "(agentSteps noCleanup ^^ m) s s' \<Longrightarrow> m + stepsLeft s' \<le> stepsLeft s"
  by (induction m arbitrary: s') (fastforce dest: agentSteps_less)+

lemma extra_progress:
  assumes "k < length (arExtra s)" and "arExtra s ! k \<noteq> XDone"
  shows "\<exists>s'. agentSteps noCleanup s s'"
proof -
  have "\<exists>a s'. actor a = Some k \<and> extraStep noCleanup a k (arExtra s ! k) s = Some s'"
  proof (cases "arExtra s ! k")
    case XNew then show ?thesis by (intro exI [of _ "ExtraCreate k []"]) simp
  next
    case (XCreated i) then show ?thesis by (intro exI [of _ "ExtraStart k None"]) simp
  next
    case (XRunning i) then show ?thesis by (intro exI [of _ "ExtraWait k None"]) simp
  next
    case (XCleanup i r) then show ?thesis by (intro exI [of _ "ExtraDelete k"]) simp
  qed (use assms in simp)
  then obtain a s' where "actor a = Some k" "extraStep noCleanup a k (arExtra s ! k) s = Some s'"
    by blast
  then have "agentStep noCleanup a s = Some s'"
    using assms(1) by (simp add: agentStep_def)
  then show ?thesis
    unfolding agentSteps_def by blast
qed

lemma main_progress:
  assumes "\<forall>x \<in> set (arExtra s). x = XDone" and "\<forall>r. arMain s \<noteq> MFinished r"
  shows "\<exists>s'. agentSteps noCleanup s s'"
proof -
  have "\<exists>a s'. actor a = None \<and> mainStep noCleanup a (arMain s) s = Some s'"
  proof (cases "arMain s")
    case (MCreated i) then show ?thesis by (intro exI [of _ "MainStart None"]) simp
  next
    case (MStarted i) then show ?thesis by (intro exI [of _ "MainLogs None"]) simp
  next
    case (MWaiting i) then show ?thesis by (intro exI [of _ "MainWait None"]) simp
  next
    case (MCleanup i r) then show ?thesis using assms(1) by (intro exI [of _ MainDelete]) simp
  qed (use assms in simp)
  then obtain a s' where "actor a = None" "mainStep noCleanup a (arMain s) s = Some s'"
    by blast
  then have "agentStep noCleanup a s = Some s'"
    by (simp add: agentStep_def)
  then show ?thesis
    unfolding agentSteps_def by blast
qed

text \<open>The actions of a schedule, one after the other.\<close>

fun perform :: "bool \<Rightarrow> action list \<Rightarrow> agentRun \<Rightarrow> agentRun option" where
  "perform noCleanup [] s = Some s"
| "perform noCleanup (a # as) s = (case agentStep noCleanup a s of None \<Rightarrow> None | Some s' \<Rightarrow> perform noCleanup as s')"

lemma perform_steps: "perform noCleanup as s = Some s' \<Longrightarrow> (agentSteps noCleanup)\<^sup>*\<^sup>* s s'"
proof (induction as arbitrary: s)
  case (Cons a as)
  then obtain t where "agentStep noCleanup a s = Some t" "(agentSteps noCleanup)\<^sup>*\<^sup>* t s'"
    by (auto split: option.splits)
  then show ?case
    by (metis agentSteps_def converse_rtranclp_into_rtranclp)
qed simp

section \<open>Properties\<close>

text \<open>
  C17. Whatever the container backend answers and however the goroutines interleave, when \<open>RunContainerizedAgent\<close>
  returns (and the clean-up is not switched off) the containers that were asked to be deleted are exactly those that
  were created, and the main container, to whose network the additional ones are attached, is the last one.
\<close>

theorem containers_deleted:
  assumes "(agentSteps False)\<^sup>*\<^sup>* (created i n) s" and "arMain s = MFinished r"
  shows "(\<forall>k j. Gone k j \<in> set (arLog s) \<longleftrightarrow> Made k j \<in> set (arLog s)) \<and>
    last (arLog s) = Gone None i \<and> Gone None i \<notin> set (butlast (arLog s))"
proof -
  have inv: "agentInv False i n s"
    using agentSystem.reachable_inv assms(1) by blast
  then have fin: "length (arExtra s) = n" "\<forall>x \<in> set (arExtra s). x = XDone" "arLog s \<noteq> []" "last (arLog s) = Gone None i"
    "\<forall>j. Gone None j \<notin> set (butlast (arLog s))"
    using assms(2) by (auto simp: agentInv_def)
  have "set (arLog s) = insert (Gone None i) (set (butlast (arLog s)))"
    using fin(3,4) by (metis append_butlast_last_id insert_is_Un list.set(1,2) set_append sup_commute)
  then have main: "Gone None j \<in> set (arLog s) \<longleftrightarrow> Made None j \<in> set (arLog s)" for j
    using inv fin(5) by (auto simp: agentInv_def)
  have "Gone (Some k) j \<in> set (arLog s) \<longleftrightarrow> Made (Some k) j \<in> set (arLog s)" for k j
  proof (cases "k < n")
    case True
    then have "arExtra s ! k = XDone" and "extraOk False k (arExtra s ! k) (arLog s)"
      using fin(1,2) inv by (auto simp: agentInv_def)
    then show ?thesis by simp
  next
    case False
    then show ?thesis using inv by (auto simp: agentInv_def)
  qed
  then show ?thesis
    using main fin by (metis not_None_eq)
qed

theorem containers_deleted_witness:
  "last (arLog (the (perform False [MainStart None, ExtraCreate 0 ''b'', MainLogs None, ExtraStart 0 None, MainWait None,
     ExtraWait 0 None, ExtraDelete 0, MainDelete] (created ''a'' 1)))) = Gone None ''a''"
proof -
  have run: "perform False [MainStart None, ExtraCreate 0 ''b'', MainLogs None, ExtraStart 0 None, MainWait None,
     ExtraWait 0 None, ExtraDelete 0, MainDelete] (created ''a'' 1) =
     Some \<lparr>arMain = MFinished None, arExtra = [XDone], arCancelled = True, arErrors = [],
       arLog = [Made None ''a'', Made (Some 0) ''b'', Gone (Some 0) ''b'', Gone None ''a'']\<rparr>"
    by code_simp
  show ?thesis
    using containers_deleted [OF perform_steps [OF run], of None] run by simp
qed



end
