(* ===== verification/Containers.thy ===== *)
theory Containers
  imports Instances CacheRPC ContainerRun
begin

text \<open>
  Packages \<open>internal/executor/instance/container\<close>, \<open>volume\<close>, \<open>pullhelper\<close>, \<open>platform\<close> and the runs of
  \<open>internal/executor/instance\<close> (pipe.go, prebuilt.go): what the executor asks of a container backend. The backend
  (Docker or Podman) is third-party code: it answers a call by an arbitrary function of the calls made before. The main
  container and the additional ones are run by goroutines; they are a state machine whose steps carry the answers.
\<close>

section \<open>Platforms\<close>

record copyCommand =
  ccCommand :: "string list"
  ccAgentTo :: string
  ccProjectFrom :: string
  ccProjectTo :: string

definition workingVolumeAgentBinary :: string where "workingVolumeAgentBinary = ''cirrus''"

definition unixCirrusDir :: string where "unixCirrusDir = ''/tmp/cirrus-ci''"

definition unixCLIPath :: string where "unixCLIPath = unixCirrusDir @ ''/'' @ workingVolumeAgentBinary"

definition unixWorkingDir :: string where "unixWorkingDir = unixCirrusDir @ ''/working-dir''"

definition unixAgentImage :: "string \<Rightarrow> string" where
  "unixAgentImage version = ''ghcr.io/cirruslabs/cirrus-cli:v'' @ version"

definition unixCopyCommand :: "bool \<Rightarrow> bool \<Rightarrow> copyCommand" where
  "unixCopyCommand populate ignoreGitignore =
     (let to = ''/project-volume''; src = ''/project-host'';
          copy = ''cp /usr/local/bin/cirrus /agent-volume/'' @ workingVolumeAgentBinary @
            (if \<not> populate then []
             else if ignoreGitignore then '' && rsync -r '' @ src @ ''/ '' @ to
             else '' && rsync -r --filter='' @ [CHR 0x27] @ '':- .gitignore'' @ [CHR 0x27] @ '' '' @ src @ ''/ '' @ to)
      in \<lparr>ccCommand = [''/bin/sh'', ''-c'', copy], ccAgentTo = ''/agent-volume'', ccProjectFrom = src, ccProjectTo = to\<rparr>)"

definition windowsAgentImage :: "string \<Rightarrow> string" where
  "windowsAgentImage osVersion =
     ''mcr.microsoft.com/windows/servercore:'' @
       (if osVersion \<in> {''2019'', ''2022'', ''2025''} then ''ltsc'' @ osVersion else osVersion)"

section \<open>The request for a container\<close>

datatype mountType = MountTypeBind | MountTypeVolume

record containerMount =
  mtType :: mountType
  mtSource :: string
  mtTarget :: string
  mtReadOnly :: bool

record createInput =
  cnImage :: string
  cnArchitecture :: "arch option"
  cnEntrypoint :: "string list"
  cnCommand :: "string list"
  cnEnv :: env
  cnMounts :: "containerMount list"
  cnNetwork :: string
  cnNanoCPUs :: int
  cnMemory :: "64 word"
  cnDisableSELinux :: bool
  cnPrivileged :: bool

text \<open>
  What a run reads: \<open>rcFloat\<close> is the product of a CPU count with a billion, as an integer, whose floating-point
  arithmetic is an argument; \<open>rcCloudBuildIP\<close> is the answer of the Cloud Build heuristic.
\<close>

record agentRunConfig =
  rcEndpoint :: string
  rcServerSecret :: string
  rcClientSecret :: string
  rcTaskID :: string
  rcProjectDir :: string
  rcDirtyMode :: bool
  rcIsLinux :: bool
  rcCloudBuildIP :: string
  rcNano :: "gofloat \<Rightarrow> int"

record params =
  pmImage :: string
  pmCPU :: gofloat
  pmMemory :: "32 word"
  pmPrivileged :: bool
  pmAdditional :: "additionalContainer list"
  pmCommandFrom :: string
  pmCommandTo :: string
  pmCLIPath :: string
  pmAgentDir :: string
  pmArchitecture :: "arch option"
  pmAgentVolume :: string
  pmWorkingVolume :: string
  pmWorkingDirectory :: string
  pmVolumes :: "volume list"

text \<open>\<open>math.Min\<close>; \<open>FloatInf False\<close> is the negative infinity.\<close>

definition floatMin :: "gofloat \<Rightarrow> gofloat \<Rightarrow> gofloat" where
  "floatMin x y =
     (if x = FloatInf False \<or> y = FloatInf False then FloatInf False
      else if x = FloatNaN \<or> y = FloatNaN then FloatNaN
      else (case (x, y) of (FloatFin a, FloatFin b) \<Rightarrow> FloatFin (min a b) | (FloatFin a, _) \<Rightarrow> x | _ \<Rightarrow> y))"

definition clampCPU :: "gofloat \<Rightarrow> gofloat \<Rightarrow> gofloat" where "clampCPU requested available = floatMin requested available"

definition clampMemory :: "32 word \<Rightarrow> 32 word \<Rightarrow> 32 word" where
  "clampMemory requested available = (if requested > available then available else requested)"

text \<open>\<open>uint32(info.TotalMemoryBytes / mebi)\<close>: the division of a signed integer truncates.\<close>

definition availableMemory :: "int \<Rightarrow> 32 word" where
  "availableMemory bytes = word_of_int (if bytes < 0 then - (- bytes div 1048576) else bytes div 1048576)"

text \<open>\<open>int64(params.Memory * mebi)\<close>: the product is one of 32-bit integers.\<close>

definition memoryBytes :: "32 word \<Rightarrow> 64 word" where
  "memoryBytes m = ucast (m * 1048576)"

definition socketMounts :: "string \<Rightarrow> containerMount list" where
  "socketMounts endpoint =
     (if HasPrefix endpoint ''unix:'' then
        (let socketDir = filepathDir (TrimPrefix (TrimPrefix endpoint ''unix:'') ''//'')
         in [\<lparr>mtType = MountTypeBind, mtSource = socketDir, mtTarget = socketDir, mtReadOnly = False\<rparr>])
      else [])"

definition projectMount :: "agentRunConfig \<Rightarrow> params \<Rightarrow> containerMount" where
  "projectMount cfg p =
     \<lparr>mtType = (if rcDirtyMode cfg then MountTypeBind else MountTypeVolume),
      mtSource = (if rcDirtyMode cfg then rcProjectDir cfg else pmWorkingVolume p),
      mtTarget = pmWorkingDirectory p, mtReadOnly = False\<rparr>"

definition portsToWaitFor :: "additionalContainer list \<Rightarrow> string" where
  "portsToWaitFor acs = Join '','' (concat (map (\<lambda>ac. map (\<lambda>pm. FormatUint (unat (pmContainerPort pm))) (acPorts ac)) acs))"

definition agentInput :: "agentRunConfig \<Rightarrow> params \<Rightarrow> createInput" where
  "agentInput cfg p =
     \<lparr>cnImage = pmImage p, cnArchitecture = pmArchitecture p,
      cnEntrypoint = [pmCLIPath p, ''agent'', ''-api-endpoint'', rcEndpoint cfg, ''-server-token'', rcServerSecret cfg,
        ''-client-token'', rcClientSecret cfg, ''-task-id'', rcTaskID cfg, ''-command-from'', pmCommandFrom p,
        ''-command-to'', pmCommandTo p],
      cnCommand = [],
      cnEnv = (if pmAdditional p \<noteq> [] then [(''CIRRUS_PORTS_WAIT_FOR'', portsToWaitFor (pmAdditional p))] else []),
      cnMounts = \<lparr>mtType = MountTypeVolume, mtSource = pmAgentVolume p, mtTarget = pmAgentDir p, mtReadOnly = False\<rparr> #
        socketMounts (rcEndpoint cfg) @ [projectMount cfg p] @
        map (\<lambda>v. \<lparr>mtType = MountTypeBind, mtSource = volSource v, mtTarget = volTarget v, mtReadOnly = volReadOnly v\<rparr>) (pmVolumes p),
      cnNetwork = (if rcIsLinux cfg \<and> rcCloudBuildIP cfg \<noteq> [] then ''cloudbuild'' else []),
      cnNanoCPUs = rcNano cfg (pmCPU p), cnMemory = memoryBytes (pmMemory p),
      cnDisableSELinux = rcIsLinux cfg, cnPrivileged = pmPrivileged p\<rparr>"

definition additionalInput :: "agentRunConfig \<Rightarrow> arch option \<Rightarrow> string \<Rightarrow> additionalContainer \<Rightarrow> createInput" where
  "additionalInput cfg a connectToContainer ac =
     \<lparr>cnImage = acImage ac, cnArchitecture = a, cnEntrypoint = [], cnCommand = acCommand ac, cnEnv = acEnvironment ac,
      cnMounts = [], cnNetwork = ''container:'' @ connectToContainer, cnNanoCPUs = rcNano cfg (acCpu ac),
      cnMemory = memoryBytes (acMemory ac), cnDisableSELinux = False, cnPrivileged = acPrivileged ac\<rparr>"

text \<open>The resources are clamped to those of the backend before anything is created.\<close>

definition clampParams :: "gofloat \<Rightarrow> int \<Rightarrow> params \<Rightarrow> params" where
  "clampParams cpus memory p =
     p\<lparr>pmCPU := clampCPU (pmCPU p) cpus, pmMemory := clampMemory (pmMemory p) (availableMemory memory),
       pmAdditional := map (\<lambda>ac. ac\<lparr>acCpu := clampCPU (acCpu ac) cpus,
         acMemory := clampMemory (acMemory ac) (availableMemory memory)\<rparr>) (pmAdditional p)\<rparr>"

section \<open>The backend and its volumes\<close>

text \<open>What changed in the backend: the successful creations, and every request to delete something.\<close>

datatype backendEvent =
    VolumeMade string
  | VolumeGone string
  | ContainerMade string
  | ContainerGone string

type_synonym history = "backendEvent list"

record backend =
  bkInspect :: "history \<Rightarrow> string \<Rightarrow> err option"
  bkPull :: "history \<Rightarrow> string \<Rightarrow> err option"
  bkVolumeCreate :: "history \<Rightarrow> string \<Rightarrow> err option"
  bkVolumeDelete :: "history \<Rightarrow> string \<Rightarrow> err option"
  bkCreate :: "history \<Rightarrow> createInput \<Rightarrow> string res"
  bkStart :: "history \<Rightarrow> string \<Rightarrow> err option"
  bkWait :: "history \<Rightarrow> string \<Rightarrow> int res"
  bkDelete :: "history \<Rightarrow> string \<Rightarrow> err option"

record pullOptions =
  coLazyPull :: bool
  coNoPullImages :: "string list"
  coNoCleanup :: bool
  coIgnoreGitignore :: bool

definition ErrNotFound :: err where "ErrNotFound = Plain ''not found'' []"

definition ShouldPullImage :: "pullOptions \<Rightarrow> backend \<Rightarrow> history \<Rightarrow> string \<Rightarrow> bool" where
  "ShouldPullImage copts bk h img =
     (if img \<in> set (coNoPullImages copts) then False
      else if \<not> coLazyPull copts then True
      else bkInspect bk h img = Some ErrNotFound)"

definition PullHelper :: "pullOptions \<Rightarrow> backend \<Rightarrow> history \<Rightarrow> string \<Rightarrow> err option" where
  "PullHelper copts bk h img = (if ShouldPullImage copts bk h img then bkPull bk h img else None)"

text \<open>The container that copies the agent and the project into the volumes; it is deleted whatever happens.\<close>

definition volumeError :: "string \<Rightarrow> err \<Rightarrow> err" where
  "volumeError what e = Plain (''working volume creation failed: '' @ what) (errText e)"

definition runHelper :: "backend \<Rightarrow> string \<Rightarrow> history \<Rightarrow> err option" where
  "runHelper bk i h =
     (case bkStart bk h i of
        Some e \<Rightarrow> Some (volumeError ''when starting helper container: %v'' e)
      | None \<Rightarrow>
          (case bkWait bk h i of
             Inl e \<Rightarrow> Some (volumeError ''while waiting for helper container: %v'' e)
           | Inr code \<Rightarrow> if code \<noteq> 0 then
               Some (Plain ''working volume creation failed: helper container exited with %v error and exit code %d'' [FormatInt code])
             else None))"

definition helperInput :: "agentRunConfig \<Rightarrow> string \<Rightarrow> arch option \<Rightarrow> copyCommand \<Rightarrow> string \<Rightarrow> string \<Rightarrow> createInput" where
  "helperInput cfg img a cc agentVolume workingVolume =
     \<lparr>cnImage = img, cnArchitecture = a, cnEntrypoint = ccCommand cc, cnCommand = [], cnEnv = [],
      cnMounts = \<lparr>mtType = MountTypeVolume, mtSource = agentVolume, mtTarget = ccAgentTo cc, mtReadOnly = False\<rparr> #
        (if rcDirtyMode cfg then []
         else [\<lparr>mtType = MountTypeBind, mtSource = rcProjectDir cfg, mtTarget = ccProjectFrom cc, mtReadOnly = True\<rparr>,
               \<lparr>mtType = MountTypeVolume, mtSource = workingVolume, mtTarget = ccProjectTo cc, mtReadOnly = False\<rparr>]),
      cnNetwork = [], cnNanoCPUs = 0, cnMemory = 0, cnDisableSELinux = \<not> rcDirtyMode cfg \<and> rcIsLinux cfg, cnPrivileged = False\<rparr>"

definition populateVolumes :: "backend \<Rightarrow> createInput \<Rightarrow> history \<Rightarrow> err option \<times> history" where
  "populateVolumes bk input h =
     (case bkCreate bk h input of
        Inl e \<Rightarrow> (Some (volumeError ''when creating helper container: %v'' e), h)
      | Inr i \<Rightarrow>
          (let h1 = h @ [ContainerMade i]; r = runHelper bk i h1; removed = bkDelete bk h1 i
           in (case removed of None \<Rightarrow> r | Some e \<Rightarrow> Some (volumeError ''%v'' e), h1 @ [ContainerGone i])))"

text \<open>
  \<open>CreateWorkingVolume\<close>. The clean-up is deferred after both volumes have been created, so it does not cover the first
  one when the second one cannot be created.
\<close>

definition CreateWorkingVolume ::
  "pullOptions \<Rightarrow> backend \<Rightarrow> string \<Rightarrow> createInput \<Rightarrow> string \<Rightarrow> string \<Rightarrow> history \<Rightarrow> err option \<times> history" where
  "CreateWorkingVolume copts bk agentImage input agentVolume workingVolume h =
     (case PullHelper copts bk h agentImage of
        Some e \<Rightarrow> (Some (volumeError ''when pulling agent image %s: %v'' e), h)
      | None \<Rightarrow>
          (case bkVolumeCreate bk h agentVolume of
             Some e \<Rightarrow> (Some (volumeError ''when creating agent volume: %v'' e), h)
           | None \<Rightarrow>
               (let h1 = h @ [VolumeMade agentVolume]
                in case bkVolumeCreate bk h1 workingVolume of
                     Some e \<Rightarrow> (Some (volumeError ''when creating working volume: %v'' e), h1)
                   | None \<Rightarrow>
                       (case populateVolumes bk input (h1 @ [VolumeMade workingVolume]) of
                          (None, h2) \<Rightarrow> (None, h2)
                        | (Some e, h2) \<Rightarrow> (Some e, h2 @ [VolumeGone agentVolume, VolumeGone workingVolume])))))"

text \<open>\<open>Close\<close> of both volumes after a run with the result \<open>r\<close>, and the whole run of an instance around it.\<close>

definition closeVolumes ::
  "pullOptions \<Rightarrow> backend \<Rightarrow> string \<Rightarrow> string \<Rightarrow> err option \<times> history \<Rightarrow> err option \<times> history" where
  "closeVolumes copts bk agentVolume workingVolume res =
     (case res of (r, h) \<Rightarrow>
        if coNoCleanup copts then (r, h)
        else (let h1 = h @ [VolumeGone agentVolume];
                  first = bkVolumeDelete bk h agentVolume;
                  second = bkVolumeDelete bk h1 workingVolume;
                  wrap = map_option (\<lambda>e. Plain ''failed to clean up working volume: %v'' (errText e));
                  r1 = (if r = None then wrap first else r)
              in (if r1 = None then wrap second else r1, h1 @ [VolumeGone workingVolume])))"

text \<open>\<open>runAgent\<close> is \<open>RunContainerizedAgent\<close>; the stages of a pipe stop at the first error.\<close>

fun runStages :: "(params \<Rightarrow> history \<Rightarrow> err option \<times> history) \<Rightarrow> params list \<Rightarrow> history \<Rightarrow> err option \<times> history" where
  "runStages runAgent [] h = (None, h)"
| "runStages runAgent (p # ps) h =
     (case runAgent p h of
        (Some e, h') \<Rightarrow> (Some e, h')
      | (None, h') \<Rightarrow> runStages runAgent ps h')"

definition volumeInstanceRun ::
  "pullOptions \<Rightarrow> backend \<Rightarrow> (params \<Rightarrow> history \<Rightarrow> err option \<times> history) \<Rightarrow> string \<Rightarrow> createInput \<Rightarrow> string \<Rightarrow> string \<Rightarrow>
     params list \<Rightarrow> history \<Rightarrow> err option \<times> history" where
  "volumeInstanceRun copts bk runAgent agentImage input agentVolume workingVolume stages h =
     (case CreateWorkingVolume copts bk agentImage input agentVolume workingVolume h of
        (Some e, h') \<Rightarrow> (Some e, h')
      | (None, h') \<Rightarrow> closeVolumes copts bk agentVolume workingVolume (runStages runAgent stages h'))"

text \<open>The parameters of the stages of a pipe.\<close>

definition pipeParams :: "gofloat \<Rightarrow> 32 word \<Rightarrow> string \<Rightarrow> string \<Rightarrow> string \<Rightarrow> pipeStage \<Rightarrow> params" where
  "pipeParams cpu memory workDir agentVolume workingVolume stage =
     \<lparr>pmImage = psImage stage, pmCPU = cpu, pmMemory = memory, pmPrivileged = False, pmAdditional = [],
      pmCommandFrom = psFrom stage, pmCommandTo = psTo stage, pmCLIPath = unixCLIPath, pmAgentDir = unixCirrusDir,
      pmArchitecture = None, pmAgentVolume = agentVolume, pmWorkingVolume = workingVolume,
      pmWorkingDirectory = (if workDir \<noteq> [] then workDir else unixWorkingDir), pmVolumes = []\<rparr>"

section \<open>Images that are built for a task\<close>

text \<open>
  \<open>isPushAuthError\<close>, on the text of an error, and the loop over the tags: a refusal ends it without an error, another
  failure is one only for the image itself. The result has the tags that were pushed.
\<close>

definition isPushAuthError :: "string \<Rightarrow> bool" where
  "isPushAuthError text =
     (\<exists>m \<in> set [''denied'', ''unauthorized'', ''authentication required'', ''forbidden'']. Contains (ToLower text) m)"

fun pushTags :: "(err \<Rightarrow> string) \<Rightarrow> (string \<Rightarrow> err option) \<Rightarrow> string \<Rightarrow> string list \<Rightarrow> err option \<times> string list" where
  "pushTags errorString push img [] = (None, [])"
| "pushTags errorString push img (t # ts) =
     (case push t of
        None \<Rightarrow> apsnd (Cons t) (pushTags errorString push img ts)
      | Some e \<Rightarrow>
          if isPushAuthError (errorString e) then (None, [])
          else if t = img then (Some e, [])
          else pushTags errorString push img ts)"

record prebuilt =
  pbImage :: string
  pbExtraTags :: "string list"

record prebuiltConfig =
  pcLogin :: bool
  pcPush :: bool

text \<open>The answers to the calls, in the order in which \<open>Run\<close> makes them.\<close>

record prebuiltAnswers =
  paLogin :: "err option"
  paInspect :: "err option"
  paPull :: "err option"
  paArchive :: "err option"
  paOpen :: "err option"
  paBuild :: "err option"
  paPush :: "string \<Rightarrow> err option"
  paText :: "err \<Rightarrow> string"

datatype imageOrigin = Unavailable | Reused | Pulled | Built "string list"

definition prebuiltRun :: "prebuiltConfig \<Rightarrow> prebuiltAnswers \<Rightarrow> prebuilt \<Rightarrow> err option \<times> imageOrigin" where
  "prebuiltRun cfg ans pb =
     (case if pcLogin cfg then paLogin ans else None of
        Some e \<Rightarrow> (Some (Plain ''failed to login to %s: %w'' (errText e)), Unavailable)
      | None \<Rightarrow>
          if paInspect ans = None then (None, Reused)
          else if paPull ans = None then (None, Pulled)
          else (case paArchive ans of Some e \<Rightarrow> (Some e, Unavailable) | None \<Rightarrow>
            (case paOpen ans of Some e \<Rightarrow> (Some e, Unavailable) | None \<Rightarrow>
              (case paBuild ans of Some e \<Rightarrow> (Some e, Unavailable) | None \<Rightarrow>
                if pcPush cfg then apsnd Built (pushTags (paText ans) (paPush ans) (pbImage pb) (pbImage pb # pbExtraTags pb))
                else (None, Built [])))))"

section \<open>Facts about images, volumes and limits\<close>

lemma pushTags_pushed: "t \<in> set (snd (pushTags errorString push img ts)) \<Longrightarrow> t \<in> set ts \<and> push t = None"
  by (induction ts) (auto split: option.splits if_splits)

lemma pushTags_error:
  "fst (pushTags errorString push img ts) = Some e \<Longrightarrow> push img = Some e \<and> \<not> isPushAuthError (errorString e)"
  by (induction ts) (auto split: option.splits if_splits)

text \<open>A task of the kind ``build an image'' that succeeds leaves the image available, and a refused push is no failure.\<close>

lemma prebuilt_available: "fst (prebuiltRun cfg ans pb) = None \<Longrightarrow> snd (prebuiltRun cfg ans pb) \<noteq> Unavailable"
  by (auto simp: prebuiltRun_def split: option.splits if_splits)

lemma prebuilt_refused:
  assumes "snd (prebuiltRun cfg ans pb) = Built ts" and "fst (prebuiltRun cfg ans pb) = Some e"
  shows "paPush ans (pbImage pb) = Some e \<and> \<not> isPushAuthError (paText ans e)"
  using assms by (auto simp: prebuiltRun_def simp del: pushTags.simps dest: pushTags_error split: option.splits if_splits)

definition volumeEvents :: "history \<Rightarrow> history" where
  "volumeEvents h = filter (\<lambda>e. case e of VolumeMade v \<Rightarrow> True | VolumeGone v \<Rightarrow> True | _ \<Rightarrow> False) h"

lemma volumeEvents_append [simp]: "volumeEvents (h @ h') = volumeEvents h @ volumeEvents h'"
  by (simp add: volumeEvents_def)

lemma in_volumeEvents [simp]:
  "VolumeMade v \<in> set (volumeEvents h) \<longleftrightarrow> VolumeMade v \<in> set h"
  "VolumeGone v \<in> set (volumeEvents h) \<longleftrightarrow> VolumeGone v \<in> set h"
  by (auto simp: volumeEvents_def)

lemma same_volumes: "volumeEvents h = volumeEvents h' \<Longrightarrow> VolumeMade v \<in> set h \<longleftrightarrow> VolumeMade v \<in> set h'"
  by (metis in_volumeEvents(1))

lemma runStages_volumes:
  assumes "\<And>p h. volumeEvents (snd (runAgent p h)) = volumeEvents h"
  shows "volumeEvents (snd (runStages runAgent ps h)) = volumeEvents h"
proof (induction ps arbitrary: h)
  case (Cons p ps)
  then show ?case
    using assms [of p h] by (auto split: prod.splits option.splits)
qed simp

lemma populateVolumes_volumes: "volumeEvents (snd (populateVolumes bk input h)) = volumeEvents h"
  by (auto simp: populateVolumes_def Let_def volumeEvents_def split: sum.splits)

text \<open>The helper container is always deleted again.\<close>

lemma populateVolumes_helper:
  "ContainerMade i \<in> set (snd (populateVolumes bk input h)) \<Longrightarrow>
     ContainerMade i \<in> set h \<or> ContainerGone i \<in> set (snd (populateVolumes bk input h))"
  by (auto simp: populateVolumes_def Let_def split: sum.splits)

lemma populateVolumes_made:
  "VolumeMade v \<in> set (snd (populateVolumes bk input h)) \<longleftrightarrow> VolumeMade v \<in> set h"
  by (rule same_volumes) (rule populateVolumes_volumes)

lemma CreateWorkingVolume_ok:
  "CreateWorkingVolume copts bk agentImage input agentVolume workingVolume [] = (None, h) \<Longrightarrow> VolumeMade v \<in> set h \<Longrightarrow>
     v = agentVolume \<or> v = workingVolume"
  using populateVolumes_made [of v bk input "[VolumeMade agentVolume, VolumeMade workingVolume]"]
  by (auto simp: CreateWorkingVolume_def Let_def split: option.splits prod.splits)

lemma CreateWorkingVolume_failed:
  "CreateWorkingVolume copts bk agentImage input agentVolume workingVolume [] = (Some e, h) \<Longrightarrow> VolumeMade v \<in> set h \<Longrightarrow>
     VolumeGone v \<in> set h \<or> v = agentVolume \<and> bkVolumeCreate bk [VolumeMade agentVolume] workingVolume \<noteq> None"
  using populateVolumes_made [of v bk input "[VolumeMade agentVolume, VolumeMade workingVolume]"]
  by (simp add: CreateWorkingVolume_def Let_def split: option.splits prod.splits) auto

lemma closeVolumes_history:
  "\<not> coNoCleanup copts \<Longrightarrow>
     snd (closeVolumes copts bk agentVolume workingVolume res) = snd res @ [VolumeGone agentVolume, VolumeGone workingVolume]"
  by (cases res) (simp add: closeVolumes_def Let_def)

text \<open>The agent volume stays behind when the working volume cannot be created.\<close>

lemma agent_volume_leaks:
  assumes "PullHelper copts bk h agentImage = None" and "bkVolumeCreate bk h agentVolume = None"
    and "bkVolumeCreate bk (h @ [VolumeMade agentVolume]) workingVolume = Some e"
  shows "snd (volumeInstanceRun copts bk runAgent agentImage input agentVolume workingVolume stages h) = h @ [VolumeMade agentVolume]"
  using assms by (simp add: volumeInstanceRun_def CreateWorkingVolume_def)

section \<open>Properties\<close>




end
