(* ===== verification/TarGz.thy ===== *)
theory TarGz
  imports Paths
begin

text \<open>
  Package \<open>internal/agent/targz\<close>: the archives of cache folders. A file system is a map from absolute paths, given by
  their components, to directories and regular files; the compression and the encoding of the archive are those of
  libraries, so that an archive is the list of its entries. Links, devices, modes and times are not modelled.
\<close>

section \<open>Files\<close>

type_synonym fpath = "string list"

datatype fentry = FolderEntry | FileEntry string

type_synonym files = "(fpath \<times> fentry) list"

text \<open>The text of an absolute path, and its components.\<close>

definition pathOf :: "fpath \<Rightarrow> string" where "pathOf cs = ''/'' @ Join ''/'' cs"

definition compsOf :: "string \<Rightarrow> fpath" where "compsOf s = filter (\<lambda>c. c \<noteq> []) (SplitC (CHR ''/'') s)"

definition entryAt :: "files \<Rightarrow> fpath \<Rightarrow> fentry option" where
  "entryAt fs p = (if p = [] then Some FolderEntry else map_of fs p)"

text \<open>\<open>os.MkdirAll\<close>, from the directory \<open>upper\<close> on: it fails at a regular file.\<close>

fun mkdirAll :: "fpath \<Rightarrow> fpath \<Rightarrow> files \<Rightarrow> files option" where
  "mkdirAll upper [] fs = Some fs"
| "mkdirAll upper (c # cs) fs =
     (let p = upper @ [c]
      in case map_of fs p of
           None \<Rightarrow> mkdirAll p cs (mset_key p FolderEntry fs)
         | Some FolderEntry \<Rightarrow> mkdirAll p cs fs
         | Some (FileEntry bytes) \<Rightarrow> None)"

definition ensureFolder :: "fpath \<Rightarrow> files \<Rightarrow> files" where
  "ensureFolder p fs =
     (if entryAt fs p = None then (case mkdirAll [] p fs of None \<Rightarrow> fs | Some fs' \<Rightarrow> fs') else fs)"

text \<open>\<open>os.RemoveAll\<close>.\<close>

definition removeAll :: "fpath \<Rightarrow> files \<Rightarrow> files" where
  "removeAll p fs = filter (\<lambda>(q, e). \<not> prefix p q) fs"

text \<open>\<open>filepath.Walk\<close>: a directory before what it holds, the names of a directory in lexical order.\<close>

definition walk :: "fpath \<Rightarrow> files \<Rightarrow> (fpath \<times> fentry) list option" where
  "walk root fs =
     (if entryAt fs root = None then None
      else Some ((if root = [] then [([], FolderEntry)] else []) @ sort_key fst (filter (\<lambda>(q, e). prefix root q) fs)))"

section \<open>Archives\<close>

type_synonym archive = "(string \<times> fentry) list"

definition archiveSingleFolder :: "string \<Rightarrow> string \<Rightarrow> files \<Rightarrow> archive option" where
  "archiveSingleFolder baseFolder folderPath fs =
     map_option (map (\<lambda>(p, e). (TrimPrefix (pathOf p) baseFolder, e))) (walk (compsOf folderPath) fs)"

fun Archive :: "string \<Rightarrow> string list \<Rightarrow> files \<Rightarrow> archive option" where
  "Archive baseFolder [] fs = Some []"
| "Archive baseFolder (f # folders) fs =
     (case archiveSingleFolder baseFolder f fs of
        None \<Rightarrow> None
      | Some a \<Rightarrow> map_option (\<lambda>rest. a @ rest) (Archive baseFolder folders fs))"

definition writeNewFile :: "fpath \<Rightarrow> string \<Rightarrow> files \<Rightarrow> files option" where
  "writeNewFile p bytes fs =
     (case mkdirAll [] (butlast p) fs of
        None \<Rightarrow> None
      | Some fs' \<Rightarrow> if entryAt fs' p = Some FolderEntry then None else Some (mset_key p (FileEntry bytes) fs'))"

fun untarFile :: "fpath \<Rightarrow> fentry \<Rightarrow> files \<Rightarrow> files option" where
  "untarFile p FolderEntry fs = mkdirAll [] p fs"
| "untarFile p (FileEntry bytes) fs = writeNewFile p bytes fs"

text \<open>\<open>Unarchive\<close> stops at the first entry that fails, and keeps what it has written.\<close>

fun Unarchive :: "archive \<Rightarrow> string \<Rightarrow> files \<Rightarrow> bool \<times> files" where
  "Unarchive [] destFolder fs = (True, fs)"
| "Unarchive ((name, e) # entries) destFolder fs =
     (case untarFile (compsOf (filepathJoin [destFolder, name])) e fs of
        None \<Rightarrow> (False, fs)
      | Some fs' \<Rightarrow> Unarchive entries destFolder fs')"

section \<open>Facts\<close>

definition properPath :: "fpath \<Rightarrow> bool" where
  "properPath p \<longleftrightarrow> (\<forall>c \<in> set p. c \<noteq> [] \<and> c \<noteq> ''.'' \<and> c \<noteq> ''..'' \<and> CHR ''/'' \<notin> set c)"

definition wf_files :: "files \<Rightarrow> bool" where
  "wf_files fs \<longleftrightarrow> wf_map fs \<and>
     (\<forall>p \<in> fst ` set fs. p \<noteq> [] \<and> properPath p \<and> (\<forall>q. strict_prefix q p \<longrightarrow> entryAt fs q = Some FolderEntry))"

lemma wf_filesD:
  assumes "wf_files fs" and "entryAt fs p = Some e"
  shows "properPath p \<and> (\<forall>q. strict_prefix q p \<longrightarrow> entryAt fs q = Some FolderEntry)"
proof (cases "p = []")
  case False
  then have "(p, e) \<in> set fs"
    using assms(2) by (simp add: entryAt_def map_of_SomeD)
  then have "p \<in> fst ` set fs" by force
  then show ?thesis using assms(1) unfolding wf_files_def by blast
qed (simp add: properPath_def)

lemma properPath_append [simp]: "properPath (p @ q) \<longleftrightarrow> properPath p \<and> properPath q"
  by (auto simp: properPath_def)

lemma Join_append: "xs \<noteq> [] \<Longrightarrow> ys \<noteq> [] \<Longrightarrow> Join sep (xs @ ys) = Join sep xs @ sep @ Join sep ys"
proof (induction xs)
  case (Cons x xs)
  then show ?case by (cases "xs = []") (auto simp: Join_Cons)
qed simp

lemma SplitC_path: "properPath p \<Longrightarrow> p \<noteq> [] \<Longrightarrow> SplitC (CHR ''/'') (Join ''/'' p) = p"
  by (rule SplitC_Join) (auto simp: properPath_def)

lemma compsOf_pathOf: "properPath p \<Longrightarrow> compsOf (pathOf p) = p"
proof (cases "p = []")
  case False
  assume p: "properPath p"
  then have "SplitC (CHR ''/'') (pathOf p) = [] # p"
    using SplitC_append [of "CHR ''/''" "[]" "Join ''/'' p"] SplitC_path [OF p False] by (simp add: pathOf_def)
  then show ?thesis using p by (auto simp: compsOf_def properPath_def intro: filter_True)
qed (simp add: compsOf_def pathOf_def)

text \<open>An entry comes back to where it was.\<close>

lemma archived_name:
  assumes "properPath b" and "properPath r" and "b \<noteq> []"
  shows "compsOf (filepathJoin [pathOf b, TrimPrefix (pathOf (b @ r)) (pathOf b)]) = b @ r"
proof -
  let ?sep = "CHR ''/''"
  let ?name = "if r = [] then [] else ''/'' @ Join ''/'' r"
  have whole: "pathOf (b @ r) = pathOf b @ ?name"
    using assms(3) by (auto simp: pathOf_def Join_append)
  then have name: "TrimPrefix (pathOf (b @ r)) (pathOf b) = ?name"
    by (simp add: TrimPrefix_def)
  let ?s = "if r = [] then pathOf b else pathOf b @ ''//'' @ Join ''/'' r"
  have join: "filepathJoin [pathOf b, ?name] = cleanPath ?s"
    by (simp add: filepathJoin_def pathOf_def)
  have b: "SplitC ?sep (pathOf b) = [] # b"
    using SplitC_append [of ?sep "[]" "Join ''/'' b"] SplitC_path [OF assms(1,3)] by (simp add: pathOf_def)
  have "SplitC ?sep (pathOf b @ ''//'' @ Join ''/'' r) = ([] # b) @ [[]] @ r" if "r \<noteq> []"
    using SplitC_append [of ?sep "pathOf b" "''/'' @ Join ''/'' r"] SplitC_append [of ?sep "[]" "Join ''/'' r"]
      SplitC_path [OF assms(2) that] b by simp
  then have split: "SplitC ?sep ?s = (if r = [] then [] # b else ([] # b) @ [[]] @ r)"
    using b by simp
  have rooted: "HasPrefix ?s ''/''"
    by (simp add: pathOf_def HasPrefix_def)
  have up: "''..'' \<notin> set (SplitC ?sep ?s)" and comps: "properComps (SplitC ?sep ?s) = b @ r"
    unfolding split using assms by (auto simp: properPath_def properComps_def intro!: filter_True)
  have "cleanPath ?s = pathOf (b @ r)"
    by (subst cleanPath_proper [OF rooted up], subst comps) (rule pathOf_def [symmetric])
  then show ?thesis
    unfolding name join using assms compsOf_pathOf [of "b @ r"] by simp
qed

lemma between_Cons:
  "strict_prefix a p \<and> prefix p (a @ c # cs) \<longleftrightarrow> p = a @ [c] \<or> strict_prefix (a @ [c]) p \<and> prefix p ((a @ [c]) @ cs)"
proof
  assume *: "strict_prefix a p \<and> prefix p (a @ c # cs)"
  then obtain x xs where p: "p = a @ x # xs"
    by (auto simp: strict_prefix_def prefix_def) (metis append.right_neutral list.exhaust)
  then show "p = a @ [c] \<or> strict_prefix (a @ [c]) p \<and> prefix p ((a @ [c]) @ cs)"
    using * by (cases xs) (auto simp: strict_prefix_def)
qed (auto simp: strict_prefix_def prefix_def)

lemma mkdirAll_result:
  assumes "\<And>p x. strict_prefix a p \<Longrightarrow> prefix p (a @ cs) \<Longrightarrow> map_of fs p \<noteq> Some (FileEntry x)"
  shows "\<exists>fs'. mkdirAll a cs fs = Some fs' \<and>
    (\<forall>p. map_of fs' p = (if strict_prefix a p \<and> prefix p (a @ cs) then Some FolderEntry else map_of fs p))"
  using assms
proof (induction cs arbitrary: a fs)
  case Nil
  then show ?case by (auto simp: strict_prefix_def dest: prefix_order.antisym)
next
  case (Cons c cs)
  let ?p = "a @ [c]"
  let ?fs = "case map_of fs ?p of None \<Rightarrow> mset_key ?p FolderEntry fs | Some e \<Rightarrow> fs"
  have at: "map_of ?fs q = (if q = ?p then Some FolderEntry else map_of fs q)" for q
    using Cons.prems [of ?p] by (auto simp: update_conv' strict_prefix_def split: option.splits fentry.splits)
      (metis fentry.exhaust)
  have go: "mkdirAll a (c # cs) fs = mkdirAll ?p cs ?fs"
    using Cons.prems [of ?p] by (auto simp: Let_def strict_prefix_def split: option.splits fentry.splits)
  have "\<exists>fs'. mkdirAll ?p cs ?fs = Some fs' \<and>
    (\<forall>p. map_of fs' p = (if strict_prefix ?p p \<and> prefix p (?p @ cs) then Some FolderEntry else map_of ?fs p))"
    by (rule Cons.IH) (use Cons.prems between_Cons [of a _ c cs] at in auto)
  then show ?case
    unfolding go between_Cons [of a _ c cs] by (auto simp: at)
qed

lemma mkdirAll_entry:
  assumes "\<And>p x. prefix p cs \<Longrightarrow> entryAt fs p \<noteq> Some (FileEntry x)"
  shows "\<exists>fs'. mkdirAll [] cs fs = Some fs' \<and> (\<forall>p. entryAt fs' p = (if prefix p cs then Some FolderEntry else entryAt fs p))"
proof -
  have "\<exists>fs'. mkdirAll [] cs fs = Some fs' \<and>
    (\<forall>p. map_of fs' p = (if strict_prefix [] p \<and> prefix p ([] @ cs) then Some FolderEntry else map_of fs p))"
  proof (rule mkdirAll_result)
    fix p x
    assume "strict_prefix [] p" and "prefix p ([] @ cs)"
    then show "map_of fs p \<noteq> Some (FileEntry x)"
      using assms [of p x] by (auto simp: entryAt_def strict_prefix_def)
  qed
  then show ?thesis
    by (auto simp: entryAt_def strict_prefix_def)
qed

text \<open>
  A file system below the target \<open>goal\<close> has no entry that differs from it. Unpacking an entry of the target, whose
  parents are directories of the target, keeps the file system below it and loses nothing.
\<close>

definition below :: "files \<Rightarrow> (fpath \<Rightarrow> fentry option) \<Rightarrow> bool" where
  "below fs goal \<longleftrightarrow> (\<forall>q x. entryAt fs q = Some x \<longrightarrow> goal q = Some x)"

lemma untarFile_below:
  assumes "below fs goal" and "goal p = Some e" and "\<And>q. strict_prefix q p \<Longrightarrow> goal q = Some FolderEntry"
  shows "\<exists>fs'. untarFile p e fs = Some fs' \<and> below fs' goal \<and> entryAt fs' p = Some e \<and>
    (\<forall>q x. entryAt fs q = Some x \<longrightarrow> entryAt fs' q = Some x)"
proof (cases e)
  case FolderEntry
  have dirs: "goal q = Some FolderEntry" if "prefix q p" for q
    using that assms(2,3) FolderEntry by (cases "q = p") (auto simp: strict_prefix_def)
  then have "entryAt fs q \<noteq> Some (FileEntry x)" if "prefix q p" for q x
    using that assms(1) by (fastforce simp: below_def)
  then obtain fs' where fs': "mkdirAll [] p fs = Some fs'"
    "\<And>q. entryAt fs' q = (if prefix q p then Some FolderEntry else entryAt fs q)"
    using mkdirAll_entry [of p fs] by blast
  have "entryAt fs' q = Some x" if "entryAt fs q = Some x" for q x
    using that dirs [of q] assms(1) by (auto simp: fs'(2) below_def)
  then show ?thesis
    using fs' dirs assms(1) FolderEntry by (auto simp: below_def split: if_splits)
next
  case (FileEntry bytes)
  have p: "p \<noteq> []" if "entryAt fs [] = Some FolderEntry"
    using that assms(1,2) FileEntry by (auto simp: below_def)
  then have p: "p \<noteq> []" by (simp add: entryAt_def)
  have dirs: "goal q = Some FolderEntry" if "prefix q (butlast p)" for q
  proof (rule assms(3))
    show "strict_prefix q p"
      using that p by (metis append_butlast_last_id prefix_snocD prefix_order.le_less_trans strict_prefixI' append.right_neutral
          not_Cons_self2 prefixI prefix_order.dual_order.not_eq_order_implies_strict same_append_eq)
  qed
  then have "entryAt fs q \<noteq> Some (FileEntry x)" if "prefix q (butlast p)" for q x
    using that assms(1) by (fastforce simp: below_def)
  then obtain fs' where fs': "mkdirAll [] (butlast p) fs = Some fs'"
    "\<And>q. entryAt fs' q = (if prefix q (butlast p) then Some FolderEntry else entryAt fs q)"
    using mkdirAll_entry [of "butlast p" fs] by blast
  have notParent: "\<not> prefix p (butlast p)"
    using p by (metis diff_Suc_less leD length_butlast length_greater_0_conv prefix_length_le One_nat_def)
  have "entryAt fs' p \<noteq> Some FolderEntry"
    using notParent assms(1,2) FileEntry by (auto simp: fs'(2) below_def)
  then have w: "untarFile p e fs = Some (mset_key p (FileEntry bytes) fs')"
    using fs' FileEntry by (simp add: writeNewFile_def)
  have allDirs: "\<forall>q. prefix q (butlast p) \<longrightarrow> goal q = Some FolderEntry" using dirs by blast
  have at: "entryAt (mset_key p (FileEntry bytes) fs') q = (if q = p then Some e else entryAt fs' q)" for q
    using p FileEntry by (simp add: entryAt_def update_conv')
  show ?thesis
    unfolding w using allDirs assms(1,2) notParent by (auto simp: at fs'(2) below_def split: if_splits)
qed

lemma Unarchive_below:
  assumes "below fs goal"
    and "\<And>name e. (name, e) \<in> set entries \<Longrightarrow> goal (compsOf (filepathJoin [dest, name])) = Some e"
    and "\<And>name e q. (name, e) \<in> set entries \<Longrightarrow> strict_prefix q (compsOf (filepathJoin [dest, name])) \<Longrightarrow> goal q = Some FolderEntry"
  shows "\<exists>fs'. Unarchive entries dest fs = (True, fs') \<and> below fs' goal \<and>
    (\<forall>q x. entryAt fs q = Some x \<longrightarrow> entryAt fs' q = Some x) \<and>
    (\<forall>(name, e) \<in> set entries. entryAt fs' (compsOf (filepathJoin [dest, name])) = Some e)"
  using assms
proof (induction entries arbitrary: fs)
  case (Cons ne entries)
  obtain name e where ne: "ne = (name, e)" by (cases ne)
  let ?p = "compsOf (filepathJoin [dest, name])"
  obtain fs1 where fs1: "untarFile ?p e fs = Some fs1" "below fs1 goal" "entryAt fs1 ?p = Some e"
      "\<forall>q x. entryAt fs q = Some x \<longrightarrow> entryAt fs1 q = Some x"
    using untarFile_below [OF Cons.prems(1), of ?p e] Cons.prems(2,3) [of name e] ne by auto
  obtain fs' where fs': "Unarchive entries dest fs1 = (True, fs')" "below fs' goal"
      "\<forall>q x. entryAt fs1 q = Some x \<longrightarrow> entryAt fs' q = Some x"
      "\<forall>(name, e) \<in> set entries. entryAt fs' (compsOf (filepathJoin [dest, name])) = Some e"
    using Cons.IH [OF fs1(2)] Cons.prems(2,3) by force
  show ?case
    using fs1 fs' by (auto simp: ne)
qed simp

lemma walk_entries:
  assumes "wf_files fs" and "root \<noteq> []" and "walk root fs = Some es"
  shows "(p, e) \<in> set es \<longleftrightarrow> prefix root p \<and> entryAt fs p = Some e"
proof -
  have "(p, e) \<in> set fs \<longleftrightarrow> map_of fs p = Some e"
    using assms(1) by (simp add: wf_files_def wf_map_def)
  then show ?thesis
    using assms by (auto simp: walk_def entryAt_def split: if_splits)
qed

text \<open>
  Unpacking the archive of a folder where there is nothing yet gives the folder: every path in it holds what it held
  when it was archived, and the rest of the file system stays but for the directories that lead to the folder.
\<close>

lemma Unarchive_Archive:
  assumes "wf_files fs1" and "properPath b" and "b \<noteq> []" and "entryAt fs1 b = Some FolderEntry"
    and "\<And>p. strict_prefix b p \<Longrightarrow> entryAt fs2 p \<in> {None, entryAt fs1 p}"
    and "\<And>p. prefix p b \<Longrightarrow> entryAt fs2 p = Some FolderEntry"
    and "Archive (pathOf b) [pathOf b] fs1 = Some entries"
  shows "\<exists>fs'. Unarchive entries (pathOf b) fs2 = (True, fs') \<and>
    (\<forall>p. entryAt fs' p = (if prefix b p then entryAt fs1 p else entryAt fs2 p))"
proof -
  let ?goal = "\<lambda>p. if prefix b p then entryAt fs1 p else entryAt fs2 p"
  obtain es where es: "walk b fs1 = Some es" and entries: "entries = map (\<lambda>(p, e). (TrimPrefix (pathOf p) (pathOf b), e)) es"
    using assms(2,7) by (auto simp: archiveSingleFolder_def compsOf_pathOf split: option.splits)
  note members = walk_entries [OF assms(1,3) es]
  note parents = wf_filesD [OF assms(1), THEN conjunct2, rule_format] and proper = wf_filesD [OF assms(1), THEN conjunct1]
  have entry: "\<exists>p. compsOf (filepathJoin [pathOf b, name]) = p \<and> prefix b p \<and> entryAt fs1 p = Some e"
    if ne: "(name, e) \<in> set entries" for name e
  proof -
    obtain p where p: "(p, e) \<in> set es" "name = TrimPrefix (pathOf p) (pathOf b)"
      using ne by (auto simp: entries)
    then have at: "prefix b p" "entryAt fs1 p = Some e" using members by auto
    then obtain r where r: "p = b @ r" by (auto simp: prefix_def)
    have "properPath r" using proper [OF at(2)] r by simp
    then show ?thesis using archived_name [OF assms(2) _ assms(3)] p(2) at r by auto
  qed
  have below: "below fs2 ?goal"
    unfolding below_def
  proof (intro allI impI)
    fix q x
    assume "entryAt fs2 q = Some x"
    then show "?goal q = Some x"
      using assms(4) assms(5) [of q] assms(6) [of q] by (cases "q = b") (auto simp: strict_prefix_def)
  qed
  have "\<exists>fs'. Unarchive entries (pathOf b) fs2 = (True, fs') \<and> below fs' ?goal \<and>
    (\<forall>q x. entryAt fs2 q = Some x \<longrightarrow> entryAt fs' q = Some x) \<and>
    (\<forall>(name, e) \<in> set entries. entryAt fs' (compsOf (filepathJoin [pathOf b, name])) = Some e)"
  proof (rule Unarchive_below [OF below])
    fix name e q
    assume ne: "(name, e) \<in> set entries"
    then show "?goal (compsOf (filepathJoin [pathOf b, name])) = Some e" using entry by fastforce
    assume q: "strict_prefix q (compsOf (filepathJoin [pathOf b, name]))"
    obtain p where p: "compsOf (filepathJoin [pathOf b, name]) = p" "prefix b p" "entryAt fs1 p = Some e"
      using entry [OF ne] by blast
    then show "?goal q = Some FolderEntry"
      using q parents [of p e q] assms(6) [of q] prefix_same_cases [of q p b] by (auto simp: strict_prefix_def)
  qed
  then obtain fs' where fs': "Unarchive entries (pathOf b) fs2 = (True, fs')" "below fs' ?goal"
      "\<forall>q x. entryAt fs2 q = Some x \<longrightarrow> entryAt fs' q = Some x"
      "\<forall>(name, e) \<in> set entries. entryAt fs' (compsOf (filepathJoin [pathOf b, name])) = Some e"
    by blast
  have inside: "entryAt fs' p = entryAt fs1 p" if bp: "prefix b p" for p
  proof (cases "entryAt fs1 p")
    case None
    then have "entryAt fs' p \<noteq> Some a" for a
      using fs'(2) that unfolding below_def by (metis option.distinct(1))
    then show ?thesis using None by (cases "entryAt fs' p") auto
  next
    case (Some e)
    then have "(TrimPrefix (pathOf p) (pathOf b), e) \<in> set entries"
      using members that by (force simp: entries)
    moreover obtain r where r: "p = b @ r" using bp by (auto simp: prefix_def)
    moreover have "properPath r" using proper [OF Some] r by simp
    ultimately show ?thesis using fs'(4) archived_name [OF assms(2) _ assms(3), of r] Some by fastforce
  qed
  have outside: "entryAt fs' p = entryAt fs2 p" if "\<not> prefix b p" for p
    using that fs'(2,3) by (cases "entryAt fs' p"; cases "entryAt fs2 p") (fastforce simp: below_def)+
  show ?thesis using fs'(1) inside outside by auto
qed

text \<open>After \<open>EnsureFolderExists\<close> the folder and those above it are there, when no file is in the way.\<close>

lemma ensureFolder_entry:
  assumes "wf_files fs" and "\<And>p x. prefix p b \<Longrightarrow> entryAt fs p \<noteq> Some (FileEntry x)"
  shows "entryAt (ensureFolder b fs) p = (if prefix p b then Some FolderEntry else entryAt fs p)"
proof (cases "entryAt fs b")
  case None
  obtain fs' where "mkdirAll [] b fs = Some fs'" "\<forall>p. entryAt fs' p = (if prefix p b then Some FolderEntry else entryAt fs p)"
    using mkdirAll_entry [OF assms(2)] by blast
  then show ?thesis using None by (simp add: ensureFolder_def)
next
  case (Some e)
  then have "e = FolderEntry" using assms(2) [of b] by (cases e) auto
  then show ?thesis
    using Some wf_filesD [OF assms(1) Some] by (auto simp: ensureFolder_def strict_prefix_def)
qed

end
