(* ===== verification/AgentCache.thy ===== *)
theory AgentCache
  imports TarGz AgentEnv Sha256 CacheRPC
begin

text \<open>
  The cache instructions of the agent (internal/agent/executor/cache.go, utils.go) and the hashes of folders
  (internal/agent/hasher): where a cache is unpacked, when it is populated, and when it is uploaded again. The HTTP cache
  is a map from URLs to archives; the network, the scripts, globs and the working directory of the process are arguments.
\<close>

section \<open>Hashes of folders\<close>

text \<open>\<open>hsGlobal\<close> is what has been written to the global hash.\<close>

record hasher =
  hsGlobal :: string
  hsFiles :: env

definition newHasher :: hasher where "newHasher = \<lparr>hsGlobal = [], hsFiles = []\<rparr>"

text \<open>
  The bytes of \<open>crypto/sha256\<close> and their hexadecimal digits. What follows takes the digest as an argument, so that its
  facts hold for this one and for every other; the code has \<open>shaBytes\<close>.
\<close>

definition shaBytes :: "string \<Rightarrow> string" where
  "shaBytes s = concat (map (\<lambda>w. map (\<lambda>i. char_of (unat w div 256 ^ (3 - i))) [0 ..< 4]) (sha256 s))"

definition hexBytes :: "string \<Rightarrow> string" where
  "hexBytes s = concat (map (\<lambda>c. [hexChar (of_char c div 16), hexChar (of_char c mod 16)]) s)"

definition SHA :: "(string \<Rightarrow> string) \<Rightarrow> hasher \<Rightarrow> string" where "SHA digest hs = hexBytes (digest (hsGlobal hs))"

text \<open>\<open>filepath.Rel\<close> on cleaned absolute paths.\<close>

fun relComps :: "fpath \<Rightarrow> fpath \<Rightarrow> fpath" where
  "relComps [] ps = ps"
| "relComps bs [] = replicate (length bs) ''..''"
| "relComps (b # bs) (p # ps) = (if b = p then relComps bs ps else replicate (Suc (length bs)) ''..'' @ p # ps)"

definition filepathRel :: "fpath \<Rightarrow> fpath \<Rightarrow> string" where
  "filepathRel b p = (let r = relComps b p in if r = [] then ''.'' else Join ''/'' r)"

text \<open>Directories are skipped; an unreadable file ends the walk.\<close>

fun hashEntries :: "(string \<Rightarrow> string) \<Rightarrow> (fpath \<Rightarrow> bool) \<Rightarrow> fpath \<Rightarrow> (fpath \<times> fentry) list \<Rightarrow> hasher \<Rightarrow> err option \<times> hasher" where
  "hashEntries digest unreadable base [] hs = (None, hs)"
| "hashEntries digest unreadable base ((p, FolderEntry) # es) hs = hashEntries digest unreadable base es hs"
| "hashEntries digest unreadable base ((p, FileEntry bytes) # es) hs =
     (if unreadable p then (Some (Plain ''open %s'' [pathOf p]), hs)
      else hashEntries digest unreadable base es
        (hs\<lparr>hsGlobal := hsGlobal hs @ digest bytes, hsFiles := mset_key (filepathRel base p) (hexBytes (digest bytes)) (hsFiles hs)\<rparr>))"

definition AddFolder :: "(string \<Rightarrow> string) \<Rightarrow> (fpath \<Rightarrow> bool) \<Rightarrow> string \<Rightarrow> string \<Rightarrow> files \<Rightarrow> hasher \<Rightarrow> err option \<times> hasher" where
  "AddFolder digest unreadable baseFolder folderPath fs hs =
     (case walk (compsOf folderPath) fs of
        None \<Rightarrow> (None, hs)
      | Some es \<Rightarrow> hashEntries digest unreadable (compsOf baseFolder) es hs)"

section \<open>The state and its surroundings\<close>

record agentCache =
  acName :: string
  acKey :: string
  acBaseFolder :: string
  acPartiallyExpandedFolders :: "string list"
  acFileHasher :: hasher
  acSkipUpload :: bool
  acCacheAvailable :: bool

record cachingState =
  csFiles :: files
  csCaches :: "agentCache list"
  csAttempts :: attempts
  csRemote :: "archive gomap"
  csRequests :: nat

text \<open>
  The answer of the network to a request: it arrives, it fails (with a timeout or not), or the body of the response
  breaks off after some entries. A bad status of an upload counts as a failure.
\<close>

datatype netAnswer = NetOk | NetError bool | NetBroken nat

record cacheHost =
  chDigest :: "string \<Rightarrow> string"
  chAddress :: string
  chOSEnv :: env
  chCwd :: "bool + string"
  chGlob :: "files \<Rightarrow> string \<Rightarrow> string list res"
  chFingerprint :: "string list \<Rightarrow> string option"
  chPopulate :: "string list \<Rightarrow> files \<Rightarrow> bool \<times> files"
  chUnreadable :: "fpath \<Rightarrow> bool"
  chNetwork :: "nat \<Rightarrow> netAnswer"
  chLatest :: "string \<Rightarrow> string option"
  chSize :: "nat \<Rightarrow> 64 word option"
  chTime :: "nat \<Rightarrow> 64 word"
  chTempFails :: bool

section \<open>Downloads\<close>

definition generateCacheKey :: "cacheHost \<Rightarrow> string \<Rightarrow> cacheInstruction \<Rightarrow> env \<Rightarrow> string option" where
  "generateCacheKey h commandName ci customEnv =
     (if FingerprintKey ci \<noteq> [] then Some (FingerprintKey ci)
      else map_option (\<lambda>hashed. commandName @ ''-'' @ hexBytes (chDigest h hashed))
        (if FingerprintScripts ci \<noteq> [] then chFingerprint h (FingerprintScripts ci)
         else Some (mget customEnv ''CIRRUS_TASK_NAME'' @ mget customEnv ''CI_NODE_INDEX'')))"

text \<open>\<open>filepath.Abs\<close>: the left value tells whether the error is one of the system call \<open>getwd\<close>.\<close>

definition filepathAbs :: "cacheHost \<Rightarrow> string \<Rightarrow> bool + string" where
  "filepathAbs h p =
     (if HasPrefix p ''/'' then Inr (cleanPath p)
      else case chCwd h of Inl getwd \<Rightarrow> Inl getwd | Inr d \<Rightarrow> Inr (filepathJoin [d, p]))"

definition quotedName :: "string \<Rightarrow> string" where "quotedName s = [CHR 0x27] @ s @ [CHR 0x27]"

definition absFolder :: "cacheHost \<Rightarrow> env \<Rightarrow> string \<Rightarrow> string + string" where
  "absFolder h customEnv f =
     (let expanded = ExpandText (chOSEnv h) customEnv f
      in case filepathAbs h expanded of
           Inr a \<Rightarrow> Inr a
         | Inl True \<Rightarrow> Inr (filepathJoin [mget customEnv ''CIRRUS_WORKING_DIR'', expanded])
         | Inl False \<Rightarrow> Inl (''Failed to compute absolute path for cache folder '' @ quotedName f))"

fun absFolders :: "cacheHost \<Rightarrow> env \<Rightarrow> string list \<Rightarrow> string + string list" where
  "absFolders h customEnv [] = Inr []"
| "absFolders h customEnv (f # fds) =
     (case absFolder h customEnv f of
        Inl e \<Rightarrow> Inl e
      | Inr a \<Rightarrow> (case absFolders h customEnv fds of Inl e \<Rightarrow> Inl e | Inr as \<Rightarrow> Inr (a # as)))"

definition pathLooksLikeGlob :: "string \<Rightarrow> bool" where "pathLooksLikeGlob p = Contains p ''*''"

definition cacheBaseFolder :: "env \<Rightarrow> string list \<Rightarrow> string" where
  "cacheBaseFolder customEnv fds =
     (case fds of
        [f] \<Rightarrow> if pathLooksLikeGlob f then mget customEnv ''CIRRUS_WORKING_DIR'' else f
      | _ \<Rightarrow> mget customEnv ''CIRRUS_WORKING_DIR'')"

definition terminated :: "string \<Rightarrow> string" where
  "terminated d = (if HasSuffix d ''/'' then d else d @ ''/'')"

text \<open>The first folder that is not below the base folder, when there are several.\<close>

definition folderOutside :: "string \<Rightarrow> string list \<Rightarrow> string option" where
  "folderOutside baseFolder fds =
     (if length fds > 1 then List.find (\<lambda>f. \<not> HasPrefix f (terminated baseFolder)) fds else None)"

datatype fetched = FetchFailed bool | FetchMiss | Fetched archive bool

definition downloadURL :: "cacheHost \<Rightarrow> string \<Rightarrow> string" where
  "downloadURL h key = ''http://'' @ chAddress h @ ''/'' @ key"

definition uploadURL :: "cacheHost \<Rightarrow> string \<Rightarrow> string" where
  "uploadURL h key = ''http://'' @ chAddress h @ ''/'' @ PathEscape key"

definition FetchCache :: "cacheHost \<Rightarrow> string \<Rightarrow> cachingState \<Rightarrow> fetched \<times> cachingState" where
  "FetchCache h key st =
     (let st' = st\<lparr>csRequests := Suc (csRequests st)\<rparr>; answer = chNetwork h (csRequests st)
      in (case answer of
            NetError timeout \<Rightarrow> FetchFailed timeout
          | _ \<Rightarrow> (case map_of (csRemote st) (downloadURL h key) of
                    None \<Rightarrow> FetchMiss
                  | Some a \<Rightarrow> (case answer of NetBroken n \<Rightarrow> Fetched (take n a) True | _ \<Rightarrow> Fetched a False)), st'))"

definition unarchiveCache :: "archive \<Rightarrow> bool \<Rightarrow> string \<Rightarrow> cachingState \<Rightarrow> bool \<times> cachingState" where
  "unarchiveCache a broken folderToCache st =
     (case Unarchive a folderToCache (ensureFolder (compsOf folderToCache) (csFiles st)) of
        (ok, fs) \<Rightarrow> (ok \<and> \<not> broken, st\<lparr>csFiles := fs\<rparr>))"

definition removeFolder :: "string \<Rightarrow> cachingState \<Rightarrow> cachingState" where
  "removeFolder f st = st\<lparr>csFiles := removeAll (compsOf f) (csFiles st)\<rparr>"

definition recordHit :: "cacheHost \<Rightarrow> string \<Rightarrow> nat \<Rightarrow> cachingState \<Rightarrow> cachingState" where
  "recordHit h key n st =
     (case chSize h n of
        None \<Rightarrow> st
      | Some sz \<Rightarrow> st\<lparr>csAttempts := attemptHit key sz (chTime h n) (chTime h (Suc n)) (csAttempts st)\<rparr>)"

definition recordStatError :: "cacheHost \<Rightarrow> string \<Rightarrow> nat \<Rightarrow> cachingState \<Rightarrow> cachingState" where
  "recordStatError h key n st =
     (if chSize h n = None
      then st\<lparr>csAttempts := attemptFailed key ''failed to determine cache file size'' (csAttempts st)\<rparr> else st)"

text \<open>Whether the cache was populated, and whether it is there remotely. A broken archive is fetched a second time.\<close>

definition tryToDownloadAndPopulateCache ::
  "cacheHost \<Rightarrow> string \<Rightarrow> string \<Rightarrow> cachingState \<Rightarrow> (bool \<times> bool) \<times> cachingState" where
  "tryToDownloadAndPopulateCache h key folderToCache st =
     (let n = csRequests st
      in case FetchCache h key st of
           (FetchFailed timeout, st1) \<Rightarrow> ((False, timeout), st1)
         | (FetchMiss, st1) \<Rightarrow> ((False, False), st1)
         | (Fetched a broken, st1) \<Rightarrow>
             (case unarchiveCache a broken folderToCache (recordStatError h key n st1) of
                (True, st2) \<Rightarrow> ((True, True), recordHit h key n st2)
              | (False, st2) \<Rightarrow>
                  (case FetchCache h key (removeFolder folderToCache st2) of
                     (FetchFailed timeout, st3) \<Rightarrow> ((False, timeout), st3)
                   | (FetchMiss, st3) \<Rightarrow> ((False, True), st3)
                   | (Fetched a' broken', st3) \<Rightarrow>
                       (case unarchiveCache a' broken' folderToCache st3 of
                          (True, st4) \<Rightarrow> ((True, True), recordHit h key n st4)
                        | (False, st4) \<Rightarrow> ((False, True), removeFolder folderToCache st4)))))"

text \<open>The folders with their globs expanded.\<close>

fun expandGlobs :: "cacheHost \<Rightarrow> files \<Rightarrow> string list \<Rightarrow> string + string list" where
  "expandGlobs h fs [] = Inr []"
| "expandGlobs h fs (f # fds) =
     (case if pathLooksLikeGlob f then chGlob h fs f else Inr [f] of
        Inl e \<Rightarrow> Inl (''Cannot expand cache folder glob '' @ quotedName f)
      | Inr as \<Rightarrow> (case expandGlobs h fs fds of Inl e \<Rightarrow> Inl e | Inr bs \<Rightarrow> Inr (as @ bs)))"

definition expandAndDeduplicateGlobs :: "cacheHost \<Rightarrow> files \<Rightarrow> string list \<Rightarrow> string + string list" where
  "expandAndDeduplicateGlobs h fs fds =
     (case expandGlobs h fs fds of Inl e \<Rightarrow> Inl e | Inr as \<Rightarrow> Inr (DeduplicatePaths as))"

definition failDownload :: "string \<Rightarrow> string \<Rightarrow> cachingState \<Rightarrow> bool \<times> cachingState" where
  "failDownload key message st = (False, st\<lparr>csAttempts := attemptFailed key message (csAttempts st)\<rparr>)"

text \<open>An error while a folder is hashed is only logged, and its files up to there are kept.\<close>

definition hashFolders :: "cacheHost \<Rightarrow> string \<Rightarrow> string list \<Rightarrow> files \<Rightarrow> hasher" where
  "hashFolders h baseFolder fds fs =
     fold (\<lambda>f hs. snd (AddFolder (chDigest h) (chUnreadable h) baseFolder f fs hs)) fds newHasher"

text \<open>The last part of \<open>DownloadCache\<close>, once the attempts to download are over.\<close>

definition finishDownload ::
  "cacheHost \<Rightarrow> string \<Rightarrow> cacheInstruction \<Rightarrow> string \<Rightarrow> string list \<Rightarrow> string \<Rightarrow> bool \<times> bool \<Rightarrow> cachingState \<Rightarrow> bool \<times> cachingState" where
  "finishDownload h commandName ci key fds baseFolder outcome st =
     (case outcome of (populated, available) \<Rightarrow>
        case expandAndDeduplicateGlobs h (csFiles st) fds of
          Inl message \<Rightarrow> failDownload key message st
        | Inr foldersToCache \<Rightarrow>
            (let hs = (if populated then hashFolders h baseFolder foldersToCache (csFiles st) else newHasher);
                 remembered = \<lparr>acName = commandName, acKey = key, acBaseFolder = baseFolder,
                   acPartiallyExpandedFolders = fds, acFileHasher = hs,
                   acSkipUpload = available \<and> \<not> ReuploadOnChanges ci, acCacheAvailable = available\<rparr>
             in if \<not> populated \<and> PopulateScripts ci \<noteq> [] then
                  (case chPopulate h (PopulateScripts ci) (csFiles st) of
                     (False, fs) \<Rightarrow> failDownload key (''Failed to execute populate script for '' @ commandName @ '' cache!'') (st\<lparr>csFiles := fs\<rparr>)
                   | (True, fs) \<Rightarrow>
                       (True, st\<lparr>csFiles := fs, csCaches := csCaches st @ [remembered],
                         csAttempts := PopulatedIn key (chTime h (csRequests st)) (csAttempts st)\<rparr>))
                else (True, st\<lparr>csCaches := csCaches st @ [remembered]\<rparr>)))"

definition DownloadCache :: "cacheHost \<Rightarrow> string \<Rightarrow> cacheInstruction \<Rightarrow> env \<Rightarrow> cachingState \<Rightarrow> bool \<times> cachingState" where
  "DownloadCache h commandName ci customEnv st =
     (case generateCacheKey h commandName ci customEnv of
        None \<Rightarrow> (False, st)
      | Some key \<Rightarrow>
          (case absFolders h customEnv (Folders ci) of
             Inl message \<Rightarrow> failDownload key message st
           | Inr fds \<Rightarrow>
               (let baseFolder = cacheBaseFolder customEnv fds
                in case folderOutside baseFolder fds of
                     Some f \<Rightarrow> failDownload key (''When using globs or multiple cache folders, all folders should be relative to the current working directory, yet, folder '' @
                       quotedName f @ '' points above the current working directory '' @ quotedName (terminated baseFolder)) st
                   | None \<Rightarrow>
                       (case tryToDownloadAndPopulateCache h key baseFolder st of
                          (outcome, st1) \<Rightarrow>
                            (case if \<not> snd outcome \<and> OptimisticallyRestoreOnMiss ci
                                  then chLatest h (commandName @ ''-'') else None of
                               None \<Rightarrow> finishDownload h commandName ci key fds baseFolder outcome st1
                             | Some latest \<Rightarrow>
                                 (case tryToDownloadAndPopulateCache h latest baseFolder st1 of
                                    (outcome', st2) \<Rightarrow> finishDownload h commandName ci key fds baseFolder outcome' st2))))))"

section \<open>Uploads\<close>

definition FindCache :: "string \<Rightarrow> agentCache list \<Rightarrow> agentCache option" where
  "FindCache name caches = List.find (\<lambda>c. acName c = name) caches"

definition isDirEmpty :: "files \<Rightarrow> string \<Rightarrow> bool" where
  "isDirEmpty fs f =
     (case entryAt fs (compsOf f) of
        None \<Rightarrow> True
      | Some (FileEntry bytes) \<Rightarrow> False
      | Some FolderEntry \<Rightarrow> \<not> (\<exists>q \<in> fst ` set fs. strict_prefix (compsOf f) q))"

definition allDirsEmpty :: "files \<Rightarrow> string list \<Rightarrow> bool" where
  "allDirsEmpty fs fds = list_all (isDirEmpty fs) fds"

fun hashAll :: "cacheHost \<Rightarrow> string \<Rightarrow> string list \<Rightarrow> files \<Rightarrow> hasher \<Rightarrow> err + hasher" where
  "hashAll h baseFolder [] fs hs = Inr hs"
| "hashAll h baseFolder (f # fds) fs hs =
     (case AddFolder (chDigest h) (chUnreadable h) baseFolder f fs hs of
        (Some e, hs') \<Rightarrow> Inl e
      | (None, hs') \<Rightarrow> hashAll h baseFolder fds fs hs')"

text \<open>The transfer of a new archive: the existence check only when the cache was not available, then the request.\<close>

definition transferCache :: "cacheHost \<Rightarrow> agentCache \<Rightarrow> archive \<Rightarrow> cachingState \<Rightarrow> bool \<times> cachingState" where
  "transferCache h c a st =
     (let url = uploadURL h (acKey c);
          headed = (if acCacheAvailable c then st else st\<lparr>csRequests := Suc (csRequests st)\<rparr>);
          there = (\<not> acCacheAvailable c \<and> (\<forall>t. chNetwork h (csRequests st) \<noteq> NetError t) \<and> mhas (csRemote st) url);
          posted = headed\<lparr>csRequests := Suc (csRequests headed)\<rparr>
      in if there then (True, headed)
         else (case chNetwork h (csRequests headed) of
                 NetOk \<Rightarrow> (True, posted\<lparr>csRemote := mset_key url a (csRemote posted),
                   csAttempts := attemptMiss (acKey c) (case chSize h (csRequests headed) of None \<Rightarrow> 0 | Some sz \<Rightarrow> sz)
                     (chTime h (csRequests headed)) (chTime h (csRequests posted)) (csAttempts posted)\<rparr>)
               | _ \<Rightarrow> (True, posted)))"

definition UploadCache :: "cacheHost \<Rightarrow> string \<Rightarrow> cachingState \<Rightarrow> bool \<times> cachingState" where
  "UploadCache h name st =
     (case FindCache name (csCaches st) of
        None \<Rightarrow> (False, st)
      | Some c \<Rightarrow>
          if acSkipUpload c then (True, st)
          else (case expandAndDeduplicateGlobs h (csFiles st) (acPartiallyExpandedFolders c) of
             Inl message \<Rightarrow> (False, st)
           | Inr fds \<Rightarrow>
               if allDirsEmpty (csFiles st) fds then (True, st)
               else (case hashAll h (acBaseFolder c) fds (csFiles st) newHasher of
                  Inl e \<Rightarrow> (True, st)
                | Inr hs \<Rightarrow>
                    if SHA (chDigest h) hs = SHA (chDigest h) (acFileHasher c) then (True, st)
                    else if chTempFails h then (False, st)
                    else (case Archive (acBaseFolder c) fds (csFiles st) of
                       None \<Rightarrow> (False, st)
                     | Some a \<Rightarrow> transferCache h c a st))))"

section \<open>Facts\<close>

lemma plain_folder: "\<not> pathLooksLikeGlob f \<Longrightarrow> expandAndDeduplicateGlobs h fs [f] = Inr [f]"
  by (simp add: expandAndDeduplicateGlobs_def DeduplicatePaths_def)

text \<open>The remote cache is only changed by a new archive of folders whose hash has changed.\<close>

lemma transferCache_remote:
  "transferCache h c a st = (r, st') \<Longrightarrow>
     csRemote st' = csRemote st \<or>
     csRemote st' = mset_key (uploadURL h (acKey c)) a (csRemote st) \<and>
       (acCacheAvailable c \<or> chNetwork h (csRequests st) \<in> range NetError \<or> \<not> mhas (csRemote st) (uploadURL h (acKey c)))"
  by (auto simp: transferCache_def Let_def split: if_splits netAnswer.splits)

lemma UploadCache_remote:
  assumes "UploadCache h name st = (r, st')" and "csRemote st' \<noteq> csRemote st"
  obtains c fds hs a where "FindCache name (csCaches st) = Some c" and "\<not> acSkipUpload c"
    and "expandAndDeduplicateGlobs h (csFiles st) (acPartiallyExpandedFolders c) = Inr fds"
    and "hashAll h (acBaseFolder c) fds (csFiles st) newHasher = Inr hs"
    and "SHA (chDigest h) hs \<noteq> SHA (chDigest h) (acFileHasher c)"
    and "Archive (acBaseFolder c) fds (csFiles st) = Some a"
    and "csRemote st' = mset_key (uploadURL h (acKey c)) a (csRemote st)"
    and "acCacheAvailable c \<or> chNetwork h (csRequests st) \<in> range NetError \<or> \<not> mhas (csRemote st) (uploadURL h (acKey c))"
  using assms
  by (auto simp: UploadCache_def split: option.splits sum.splits if_splits dest!: transferCache_remote)

lemma recordHit_files [simp]: "csFiles (recordHit h key n st) = csFiles st"
  by (simp add: recordHit_def split: option.split)

lemma recordStatError_files [simp]: "csFiles (recordStatError h key n st) = csFiles st"
  by (simp add: recordStatError_def)

text \<open>A download that fails leaves nothing in the folder, or the folder as it was.\<close>

lemma removeAll_entry: "prefix p q \<Longrightarrow> q \<noteq> [] \<Longrightarrow> entryAt (removeAll p fs) q = None"
  by (auto simp: entryAt_def removeAll_def map_of_eq_None_iff)

lemma failed_download_leaves_nothing:
  assumes "tryToDownloadAndPopulateCache h key f st = ((False, available), st')" and "compsOf f \<noteq> []"
  shows "csFiles st' = csFiles st \<or> (\<forall>p. prefix (compsOf f) p \<longrightarrow> entryAt (csFiles st') p = None)"
  using assms
  by (auto simp: tryToDownloadAndPopulateCache_def FetchCache_def unarchiveCache_def removeFolder_def Let_def
      intro!: removeAll_entry split: prod.splits fetched.splits bool.splits netAnswer.splits option.splits)

lemma tryToDownload_ok:
  assumes "chNetwork h (csRequests st) = NetOk" and "map_of (csRemote st) (downloadURL h key) = Some a"
    and "Unarchive a f (ensureFolder (compsOf f) (csFiles st)) = (True, fs)"
  shows "\<exists>st'. tryToDownloadAndPopulateCache h key f st = ((True, True), st') \<and> csFiles st' = fs"
  using assms
  by (simp add: tryToDownloadAndPopulateCache_def FetchCache_def unarchiveCache_def Let_def recordStatError_def)

lemma Archive_single:
  "properPath b \<Longrightarrow> entryAt fs b \<noteq> None \<Longrightarrow> \<exists>a. Archive (pathOf b) [pathOf b] fs = Some a"
  by (simp add: archiveSingleFolder_def compsOf_pathOf walk_def)

section \<open>What the cache does not do\<close>

definition quietHost :: cacheHost where
  "quietHost = \<lparr>chDigest = id, chAddress = ''c'', chOSEnv = [], chCwd = Inr ''/w'', chGlob = (\<lambda>fs g. Inr [''/m/r'']),
     chFingerprint = (\<lambda>s. Some []), chPopulate = (\<lambda>s fs. (True, fs)), chUnreadable = (\<lambda>p. False), chNetwork = (\<lambda>n. NetOk),
     chLatest = (\<lambda>p. None), chSize = (\<lambda>n. Some 1), chTime = (\<lambda>n. 0), chTempFails = False\<rparr>"

text \<open>The global hash does not cover the names of the files: a renamed file is no change, and is not uploaded.\<close>

lemma rename_undetected:
  "SHA digest (snd (AddFolder digest (\<lambda>p. False) ''/w'' ''/w'' [([''w''], FolderEntry), ([''w'', ''a''], FileEntry x)] newHasher)) =
   SHA digest (snd (AddFolder digest (\<lambda>p. False) ''/w'' ''/w'' [([''w''], FolderEntry), ([''w'', ''b''], FileEntry x)] newHasher))"
  by (simp add: SHA_def AddFolder_def walk_def compsOf_def entryAt_def newHasher_def)

text \<open>
  A single folder that is a glob is not checked to be in the working directory as several are: outside of it, its files
  are restored to another place, inside the working directory.
\<close>

lemma single_glob_misplaced:
  "folderOutside ''/w'' [''/m/*''] = None \<and>
   Archive ''/w'' [''/m/r''] [([''m''], FolderEntry), ([''m'', ''r''], FolderEntry), ([''m'', ''r'', ''x''], FileEntry ''1'')] =
     Some [(''/m/r'', FolderEntry), (''/m/r/x'', FileEntry ''1'')] \<and>
   entryAt (snd (Unarchive [(''/m/r'', FolderEntry), (''/m/r/x'', FileEntry ''1'')] ''/w'' [])) [''w'', ''m'', ''r'', ''x''] = Some (FileEntry ''1'')"
  by code_simp

text \<open>A missing folder is no problem for the hash but fails the archive, and with it the instruction.\<close>

definition twoFolders :: cachingState where
  "twoFolders = \<lparr>csFiles = [([''w''], FolderEntry), ([''w'', ''a''], FolderEntry), ([''w'', ''a'', ''x''], FileEntry ''1'')],
     csCaches = [\<lparr>acName = ''n'', acKey = ''k'', acBaseFolder = ''/w'', acPartiallyExpandedFolders = [''/w/a'', ''/w/b''],
       acFileHasher = newHasher, acSkipUpload = False, acCacheAvailable = False\<rparr>],
     csAttempts = [], csRemote = [], csRequests = 0\<rparr>"

lemma missing_folder_fails_upload: "fst (UploadCache quietHost ''n'' twoFolders) = False"
  by code_simp

text \<open>With several folders the base folder is the working directory, which a broken archive removes as a whole.\<close>

lemma broken_archive_removes_working_directory:
  "csFiles (snd (tryToDownloadAndPopulateCache (quietHost\<lparr>chNetwork := \<lambda>n. NetBroken 0\<rparr>) ''k''
     (cacheBaseFolder [(''CIRRUS_WORKING_DIR'', ''/w'')] [''/w/a'', ''/w/b''])
     (twoFolders\<lparr>csRemote := [(downloadURL quietHost ''k'', [])]\<rparr>))) = []"
  by code_simp

text \<open>The key is escaped in the URL of an upload only.\<close>

lemma escaped_key_not_found: "uploadURL quietHost ''a?b'' \<noteq> downloadURL quietHost ''a?b''"
  by code_simp

text \<open>The key of a cache without a fingerprint hashes the name of the task and its index without a separator.\<close>

lemma cache_keys_collide:
  "generateCacheKey h n ci [(''CIRRUS_TASK_NAME'', ''test 1''), (''CI_NODE_INDEX'', ''2'')] =
   generateCacheKey h n ci [(''CIRRUS_TASK_NAME'', ''test ''), (''CI_NODE_INDEX'', ''12'')]"
  by (simp add: generateCacheKey_def mget_def)

section \<open>Properties\<close>


definition workingFolder :: cachingState where
  "workingFolder = \<lparr>csFiles = [([''w''], FolderEntry), ([''w'', ''x''], FileEntry ''1'')],
     csCaches = [\<lparr>acName = ''n'', acKey = ''k'', acBaseFolder = ''/w'', acPartiallyExpandedFolders = [''/w''],
       acFileHasher = newHasher, acSkipUpload = False, acCacheAvailable = False\<rparr>],
     csAttempts = [], csRemote = [], csRequests = 0\<rparr>"

definition keyedCache :: cacheInstruction where
  "keyedCache = \<lparr>Folders = [''/w''], FingerprintScripts = [], FingerprintKey = ''k'', PopulateScripts = [],
     ReuploadOnChanges = False, OptimisticallyRestoreOnMiss = False\<rparr>"


end
