(* ===== verification/Spec2Isabelle.thy ===== *)
theory Spec2Isabelle
  imports Expander Environ Node Matrix Boolevator Accessor NodeYaml Parseable Commands Deps Proto TaskFilter ServiceTasks Build Executor Images Agent AgentEnv Sha256 BlobCache Isolation Worker
  CacheRPC Instances TaskParser Driver ContainerRun Containers AgentCache
begin

text \<open>
  A verification development for the Cirrus CLI, the program that runs the tasks of a \<open>.cirrus.yml\<close>
  configuration on the user's machine, together with its agent and its persistent worker.

  \<^bold>\<open>The program.\<close> The parser (\<open>pkg/parser\<close>) reads the YAML document into a tree of nodes, merges and
  expands it (anchors, merge keys, matrices, variables), parses the tree with tables of fields into task
  messages, resolves and validates the dependencies between tasks and adds service tasks for Dockerfiles.
  The executor (\<open>internal/executor\<close>) selects tasks, turns the messages into a build, and runs one ready
  task after another, while the agent inside the instance (\<open>internal/agent\<close>) runs the commands and
  reports their statuses over RPC. The persistent worker (\<open>internal/worker\<close>) polls services for tasks and
  runs them in instances that its security settings permit.

  \<^bold>\<open>The theories, in the order of the code.\<close>
  \<^item> \<open>GoBase\<close>: the prelude. Results with errors, loops with early return (\<open>mapE\<close>, \<open>foldE\<close>), Go maps as
    association lists, the packages \<open>strings\<close> and \<open>strconv\<close>, and the locale \<open>transition_system\<close> for
    invariants of state machines. \<open>Paths\<close>: cleaning and joining of file paths.
  \<^item> \<open>Expander\<close> (\<open>pkg/parser/expander\<close>), \<open>Environ\<close> (\<open>internal/executor/environment\<close>): expansion of
    references to variables and the merging of environments (locale \<open>env_merge\<close>).
  \<^item> \<open>Node\<close>, \<open>Accessor\<close>, \<open>NodeYaml\<close> (\<open>pkg/parser/node\<close>, \<open>pkg/yamlhelper\<close>): the tree, its merging,
    deduplication and lookup, the readers of a node, and the conversion from and to YAML.
  \<^item> \<open>Matrix\<close> (\<open>pkg/parser/modifier/matrix\<close>), \<open>Boolevator\<close> (\<open>pkg/parser/boolevator\<close>): matrix expansion and
    the operators of boolean expressions.
  \<^item> \<open>Parseable\<close> (\<open>pkg/parser/parseable\<close>, \<open>nameable\<close>, \<open>issue\<close>): the generic field parser; its locale
    \<open>parser_invariant\<close> carries an invariant of the callbacks through a parse. \<open>Commands\<close>
    (\<open>pkg/parser/task/command\<close> and the helpers of \<open>pkg/parser/task\<close>) interprets it for cache instructions,
    \<open>Instances\<close> (\<open>pkg/parser/instance\<close>) has the parsers of instances, and \<open>TaskParser\<close> (\<open>pkg/parser/task\<close>)
    those of tasks, pipes and docker builders, for each of which it interprets the locale again.
  \<^item> \<open>Deps\<close>, \<open>ServiceTasks\<close> (\<open>pkg/parser\<close>: validate.go, parser.go, labels.go, bfunc.go): dependencies,
    service tasks, labels, the functions on changed files. \<open>Proto\<close>: the messages. \<open>Driver\<close> (parser.go,
    dockerfile.go): \<open>parserParse\<close> composes all of the above from the text to the messages.
  \<^item> \<open>TaskFilter\<close>, \<open>Build\<close>, \<open>Executor\<close>, \<open>Images\<close> (\<open>internal/executor\<close>): selection of tasks, the build with
    the RPC handlers that change it, the main loop with the placement of tasks, and the names of images.
  \<^item> \<open>BlobCache\<close> (\<open>internal/executor/cache\<close>) over \<open>Sha256\<close> (\<open>crypto/sha256\<close>): the store of blobs, as the
    locale \<open>blob_store\<close> that its clients rely on and as a state machine of interleaved put operations.
    \<open>CacheRPC\<close> (\<open>internal/executor/rpc\<close>: cache.go, artifacts.go) serves it to the agents.
  \<^item> \<open>ContainerRun\<close>, \<open>Containers\<close> (\<open>internal/executor/instance\<close>: container, volume, pipe.go, prebuilt.go; \<open>platform\<close>,
    \<open>pullhelper\<close>, \<open>options\<close>): the goroutines of a containerized run as a state machine, the requests to the container
    backend, the life of the volumes, and the build and push of images.
  \<^item> \<open>Agent\<close>, \<open>AgentEnv\<close> (\<open>internal/agent\<close>): the command loop with its batches of updates, bounds of pipe
    stages, environments, the \<open>CIRRUS_ENV\<close> file, log timestamps and masking, command lines, boxed values.
  \<^item> \<open>TarGz\<close>, \<open>AgentCache\<close> (\<open>internal/agent\<close>: targz, hasher, executor/cache.go): archives over a file system of
    directories and regular files, the hashes of folders, and the download and upload of caches.
  \<^item> \<open>Isolation\<close> (\<open>internal/worker/security\<close>, the factory of \<open>persistentworker\<close>), \<open>Worker\<close>
    (\<open>internal/worker\<close>): security settings, instances, tasks, resources, modifiers, standby, polling.
  \<^item> this theory: the way from the text of a configuration to the verdict of the executor.

  \<^bold>\<open>Conventions.\<close> A Go string is a list of bytes; case mapping and white space are those of ASCII. A Go map
  is an association list with distinct keys (\<open>wf_map\<close>) whose order is the unspecified iteration order, and
  theorems hold for every order. A raised error is a value that keeps its format and arguments (\<open>err\<close>); a
  panic is the constructor \<open>Panic\<close>. Pointers into the tree are paths from its root. Integers have their
  width where the code can overflow (durations, sizes, ports, poll intervals). Code outside the repository
  (YAML, regular expressions, glob and wildcard matchers, git, the host, the network, version numbers) is an
  argument of the definitions that use it.

  \<^bold>\<open>Loops and fuel.\<close> \<open>MergeFrom\<close> recurses with the height of the tree as fuel, and \<open>MergeFrom_unfold\<close>
  shows that the fuel never shows; the conversion of YAML has the limit of the code and
  \<open>convert_terminates\<close> shows that it is not reached; the matrix expansion is total by a measure on trees
  although the code loops without a bound; the expander makes the ten passes of the code; the main loop of
  the executor has one unit of fuel per task and one more, and its theorems show that it returns. The walk
  through the files of a Dockerfile is a partial function, and \<open>parse_terminates\<close> shows that it returns on
  every file system that does not nest without end.

  \<^bold>\<open>What the lemmas show.\<close> Configuration: longest keys first and independence of the map order, precedence
  of merged environments and of collected fields, laws of merging and deduplication, completeness and
  termination of matrix expansion, the YAML round trip, the order of field callbacks and required fields,
  well-typedness of whatever task parses, exactness of the dependency validation, of the resolution of names
  and of service tasks, and that the tasks of any configuration that parses can be run. Execution: the
  choice of the next task, that each task runs once and after what it requires, that a configuration
  settles with the right verdict from its text on, agreement on image names. Cache: no partial blob is ever
  read, the last operation counts, uploads are downloaded, failed uploads change nothing, artifacts are
  stored as sent. Containers: every container and volume that a run made is deleted, in the right order, and the run
  ends, whatever the backend answers. Agent: the service ends up with the whole history of updates whichever
  requests are lost, caches are restored as they were uploaded, pipe stages partition the commands, round trips of files and command lines. Worker:
  only permitted instances, one goroutine per task, one holder per modifier, exact accounting of resources.
  Lemmas with a name that states a flaw (such as \<open>failed_start_leaks\<close>) prove a divergence between the code
  and its intent on the model.

  \<^bold>\<open>Not modelled.\<close> Additional instances that are given by protocol descriptors, the JSON schema, the
  Starlark interpreter, the clients of Docker, Podman, Tart, Vetu, Parallels and QEMU, SSH and processes, HTTP and gRPC
  transport, links and modes of archived files, metrics and telemetry, command-line flags and output, and generated protocol code:
  they are input and output, third-party libraries, or generated. Of time and
  concurrency the model has what the code decides on: expired contexts as arguments, goroutines as steps.
\<close>

section \<open>From the configuration to the verdict\<close>

text \<open>
  The executor builds the tasks that the filter of the command line leaves: all of them, or those that match a
  name, with or without what they require.
\<close>

definition commandLineFilter :: "(ptask list \<Rightarrow> ptask list res) \<Rightarrow> bool" where
  "commandLineFilter f \<longleftrightarrow> f = MatchAnyTask \<or> (\<exists>desired deps. f = MatchExactTaskWithOptions desired deps)"

definition orderedTasks :: "(int \<Rightarrow> nat) \<Rightarrow> ptask list \<Rightarrow> bool" where
  "orderedTasks rank ts \<longleftrightarrow>
     (\<forall>t \<in> set ts. \<forall>d \<in> set (ptRequired t). d \<in> ptID ` set ts \<and> rank d < rank (ptID t))"

lemma ordered_build:
  assumes "orderedTasks rank ts" and "newBuild mkInstance ts = Inr b"
  shows "wf_build b \<and> closed_build b \<and> ranked rank b"
proof -
  have "r \<in> fst ` set b \<and> rank r < rank i" if "(i, t) \<in> set b" "r \<in> set (btRequired t)" for i t r
  proof -
    from newBuild_sound [OF assms(2) that(1)]
    obtain p where "p \<in> set ts" "ptID p = i" "ptRequired p = btRequired t" by metis
    then show ?thesis using assms(1) that(2) newBuild_keys [OF assms(2)] unfolding orderedTasks_def by metis
  qed
  then show ?thesis using newBuild_wf [OF assms(2)] by (auto simp: closed_build_def ranked_def)
qed

lemma taskByID_total: "d \<in> ptID ` set tasks \<Longrightarrow> \<exists>v. taskByID tasks d = Some v"
  unfolding taskByID_def by (cases "map_of (rev (map (\<lambda>t. (ptID t, t)) tasks)) d") (auto simp: map_of_eq_None_iff image_image)

lemma requires_in: "requires tasks t u \<Longrightarrow> t \<in> set tasks \<Longrightarrow> u \<in> set tasks"
  by (induction rule: requires.induct) (use taskByID_Some in auto)

lemma MatchExact_Inr:
  assumes "MatchExactTaskWithOptions desired deps tasks = Inr ts"
  shows "ts = concat (map (\<lambda>t. if \<not> isMatch desired t then []
      else if deps then collectDependencies tasks [t] [] else [t\<lparr>ptRequired := []\<rparr>]) tasks)"
  using assms unfolding MatchExactTaskWithOptions_def Let_def by (auto split: if_splits)

text \<open>What a filter leaves of tasks that can run can run.\<close>

lemma filtered_ordered:
  assumes "distinct (map ptID tasks)" and "orderedTasks rank tasks" and "commandLineFilter f" and "f tasks = Inr ts"
  shows "orderedTasks rank ts"
proof -
  have "ts = tasks \<or>
      (\<exists>desired deps. ts = concat (map (\<lambda>t. if \<not> isMatch desired t then []
          else if deps then collectDependencies tasks [t] [] else [t\<lparr>ptRequired := []\<rparr>]) tasks))"
    using assms(3)
  proof (unfold commandLineFilter_def, elim disjE exE)
    assume "f = MatchAnyTask"
    then show ?thesis using assms(4) by (simp add: MatchAnyTask_def)
  next
    fix desired deps
    assume "f = MatchExactTaskWithOptions desired deps"
    then show ?thesis using assms(4) MatchExact_Inr by blast
  qed
  then consider "ts = tasks" | desired deps where "ts = concat (map (\<lambda>t. if \<not> isMatch desired t then []
      else if deps then collectDependencies tasks [t] [] else [t\<lparr>ptRequired := []\<rparr>]) tasks)" by blast
  then show ?thesis
  proof cases
    case 1
    then show ?thesis using assms(2) by simp
  next
    case (2 desired deps)
    show ?thesis
    proof (cases deps)
      case True
      have sub: "\<exists>m \<in> set tasks. requires tasks m t \<and> {u. requires tasks m u} \<subseteq> set ts" if t: "t \<in> set ts" for t
      proof -
        obtain m where m: "m \<in> set tasks" "isMatch desired m" "t \<in> set (collectDependencies tasks [m] [])"
          using t unfolding 2 by (auto simp: True split: if_splits)
        then have "set (collectDependencies tasks [m] []) \<subseteq> set ts" unfolding 2 using True by auto
        then show ?thesis using m set_collectDependencies [OF m(1) assms(1)] by blast
      qed
      have "d \<in> ptID ` set ts \<and> rank d < rank (ptID t)" if t: "t \<in> set ts" "d \<in> set (ptRequired t)" for t d
      proof -
        from sub [OF t(1)]
        obtain m where m: "m \<in> set tasks" "requires tasks m t" "{u. requires tasks m u} \<subseteq> set ts" by blast
        note task = requires_in [OF m(2,1)]
        then obtain v where v: "taskByID tasks d = Some v" using assms(2) t(2) taskByID_total unfolding orderedTasks_def by blast
        then have "v \<in> set ts" using m(2,3) t(2) requires.dep by blast
        then show ?thesis using taskByID_Some [OF v] assms(2) task t(2) unfolding orderedTasks_def by force
      qed
      then show ?thesis by (simp add: orderedTasks_def)
    next
      case False
      then show ?thesis unfolding 2 by (auto simp: orderedTasks_def split: if_splits)
    qed
  qed
qed

text \<open>
  C2. A configuration runs to its end: whatever text parses, whatever filter of the command line selects tasks,
  the build made of the selected messages never makes the executor panic or stop early. When no run ends in the
  cancellation of the context, every new task is run, every task of the build has a final status in the end, and
  the executor returns no error exactly when every task that was run has succeeded or was skipped.
\<close>

theorem parsed_configuration_settles:
  assumes "parserParse cfg config = Some (Inr res)" and "commandLineFilter f" and "f (prTasks res) = Inr ts"
    and "newBuild mkInstance ts = Inr b"
    and "\<forall>t. ownCalls (btID t) (outcomes t)" and "noContextErrors outcomes"
  shows "\<exists>r b' trace. Run h outcomes b = Some (Inr (r, b', trace)) \<and> set trace = freshTasks b \<and>
    (\<forall>i t. GetTask b' i = Some t \<longrightarrow> Status t \<noteq> New) \<and>
    (r = None \<longleftrightarrow> (\<forall>i \<in> freshTasks b. \<forall>t. GetTask b' i = Some t \<longrightarrow> Status t = Succeeded \<or> Status t = Skipped))"
proof -
  obtain n where "soundResult n (prTasks res)" using parserParse_Inr [OF assms(1)] by blast
  then have run: "runnable (prTasks res)" by (simp add: soundResult_def)
  then obtain rank where "orderedTasks rank (prTasks res)" unfolding runnable_def orderedTasks_def by blast
  then have "orderedTasks rank ts"
    using filtered_ordered [OF _ _ assms(2,3)] run by (simp add: runnable_def)
  from ordered_build [OF this assms(4)] show ?thesis using Run_verdict [OF _ _ assms(5) _ assms(6)] by blast
qed

text \<open>An example: a pipe with one step.\<close>

definition exampleScalar :: "string \<Rightarrow> ynode" where
  "exampleScalar s = YNode ScalarNode ''!!str'' s [] [] 0 0 0"

definition exampleYaml :: ynode where
  "exampleYaml = YNode DocumentNode [] [] []
     [YNode MappingNode ''!!map'' [] []
        [exampleScalar ''a_pipe'', YNode MappingNode ''!!map'' [] []
           [exampleScalar ''steps'', YNode SequenceNode ''!!seq'' [] []
              [YNode MappingNode ''!!map'' [] []
                 [exampleScalar ''image'', exampleScalar ''i'', exampleScalar ''build_script'', exampleScalar ''make''] 0 0 0] 0 0 0] 0 0 0] 0 0 0] 0 0 0"

definition exampleConfig :: parserConfig where
  "exampleConfig = \<lparr>pcKit = exampleKit, pcEnv = [], pcProps = [], pcMissingOk = False,
     pcDocker = \<lparr>dtFs = \<lparr>fsGet = (\<lambda>p. Inl (Plain ''file does not exist'' [p])),
       fsReadDir = (\<lambda>p. DirError (Plain ''file does not exist'' [p])), fsJoin = (\<lambda>d n. d @ ''/'' @ n)\<rparr>,
       sourcePathsOf = (\<lambda>_ _. Inr []), md5hex = id\<rparr>,
     pcGitHub = (False, [], []), pcUnmarshal = (\<lambda>_. Inr (exampleYaml, []))\<rparr>"

definition plainTask :: "ptask \<Rightarrow> bool" where
  "plainTask t \<longleftrightarrow> ptStatus t = CREATED \<and>
     (case ptMetadata t of None \<Rightarrow> False | Some m \<Rightarrow> map_of (mdProperties m) ''timeout_in'' = Some ''3600'')"

definition parsesPlain :: "parserConfig \<Rightarrow> bool" where
  "parsesPlain cfg =
     (case parserParse cfg [] of
        Some (Inr res) \<Rightarrow> prTasks res \<noteq> [] \<and> list_all plainTask (prTasks res)
      | _ \<Rightarrow> False)"

lemma ParseInt_3600: "ParseInt ''3600'' = Inr 3600"
proof -
  have "parseDigits 0 ''3600'' = Some 3600" by code_simp
  then show ?thesis by (simp add: ParseInt_def HasPrefix_def)
qed

lemma plain_builds:
  assumes "list_all plainTask ts"
  shows "\<exists>b. newBuild (\<lambda>_ _ _. Inr i) ts = Inr b"
proof -
  have "\<exists>w. NewFromProto (\<lambda>_ _ _. Inr i) t = Inr w" if "plainTask t" for t
    using that ParseInt_3600 by (auto simp: plainTask_def NewFromProto_def taskTimeout_def split: option.splits)
  then have "\<exists>b. foldE (\<lambda>t b. case NewFromProto (\<lambda>_ _ _. Inr i) t of
         Inl e \<Rightarrow> Inl e | Inr w \<Rightarrow> Inr (AList.update (btID w) w b)) ts b0 = Inr b" for b0
    using assms by (induction ts arbitrary: b0) fastforce+
  then show ?thesis by (simp add: newBuild_def)
qed

lemma example_parses_plain: "parsesPlain exampleConfig"
  by code_simp

theorem parsed_configuration_sound_witness:
  "\<exists>r. parserParse exampleConfig [] = Some (Inr r) \<and> prTasks r \<noteq> [] \<and>
     (\<forall>t \<in> set (prTasks r). ''clone'' \<in> cmdName ` set (ptCommands t))"
proof -
  obtain r where r: "parserParse exampleConfig [] = Some (Inr r)" "prTasks r \<noteq> []"
    using example_parses_plain by (auto simp: parsesPlain_def split: option.splits sum.splits)
  then show ?thesis using parsed_configuration_sound [OF r(1)] by blast
qed

theorem parsed_configuration_settles_witness:
  "\<exists>res b. parserParse exampleConfig [] = Some (Inr res) \<and> newBuild (\<lambda>_ _ _. Inr IsolatedInst) (prTasks res) = Inr b \<and>
    (\<exists>r b' trace. Run exampleHost exampleFailure b = Some (Inr (r, b', trace)) \<and> (\<forall>i t. GetTask b' i = Some t \<longrightarrow> Status t \<noteq> New))"
proof -
  obtain res where res: "parserParse exampleConfig [] = Some (Inr res)" "list_all plainTask (prTasks res)"
    using example_parses_plain by (auto simp: parsesPlain_def split: option.splits sum.splits)
  obtain b where b: "newBuild (\<lambda>_ _ _. Inr IsolatedInst) (prTasks res) = Inr b"
    using plain_builds [OF res(2)] by blast
  have "commandLineFilter MatchAnyTask" "MatchAnyTask (prTasks res) = Inr (prTasks res)"
    by (simp_all add: commandLineFilter_def MatchAnyTask_def)
  moreover have "\<forall>t. ownCalls (btID t) (exampleFailure t)" "noContextErrors exampleFailure"
    by (simp_all add: ownCalls_def noContextErrors_def)
  ultimately show ?thesis
    using parsed_configuration_settles [OF res(1) _ _ b, of MatchAnyTask exampleFailure exampleHost] res(1) b by blast
qed

end
